(* ===== verification/Prelude.thy ===== *)
theory Prelude
  imports Main "HOL-Library.AList" "HOL-Library.Monad_Syntax"
begin

text \<open>
  The Go run time and standard library as far as GoCache uses them: panics, error values,
  dynamically typed values (interface values), maps with their iteration order, 64-bit
  integers, \<open>strconv\<close>, \<open>strings\<close> and \<open>time\<close>. Every component theory builds on this one.

  Conventions of the whole development:
  \<^item> A call that may never return normally has type \<open>'a option\<close>, and \<open>None\<close> means that the
    goroutine does not get past the call: a run-time panic (nil dereference, failed type
    assertion, index out of range, \<open>make\<close> with a bad size) or a lock the goroutine already holds.
  \<^item> A Go error result is a value: \<open>gerror + 'a\<close>, with \<open>Inl\<close> for a non-nil error.
  \<^item> A Go string is a list of bytes, which is what the HOL type \<open>string\<close> is.
  \<^item> A Go map is an association list without repeated keys. A \<open>range\<close> loop visits the entries in
    an order that the language leaves open, so an operation with such a loop takes the order
    as an argument, constrained by \<open>is_range\<close>.
\<close>

named_theorems gomap_simps \<open>laws of Go maps\<close>
named_theorems go_defs \<open>definitions of the small run-time helpers\<close>

section \<open>Errors and dynamically typed values\<close>

datatype gerror = EOF | UnexpectedEOF | Err string

text \<open>
  The dynamic values (\<open>interface{}\<close>) that GoCache builds: strings, \<open>int\<close>, \<open>int64\<close>, slices of
  such values and the nil slice that the parser returns for a null array.
\<close>

datatype iface = Str string | IntV int | Int64 int | Slice "iface list" | NilSlice

text \<open>Type assertions: \<open>None\<close> where the assertion fails.\<close>

fun as_string :: "iface \<Rightarrow> string option" where
  "as_string (Str s) = Some s"
| "as_string _ = None"

fun as_slice :: "iface \<Rightarrow> iface list option" where
  "as_slice (Slice xs) = Some xs"
| "as_slice NilSlice = Some []"
| "as_slice _ = None"

text \<open>Indexing a slice: out of range is a panic.\<close>

definition index :: "'a list \<Rightarrow> nat \<Rightarrow> 'a option" where
  "index xs i = (if i < length xs then Some (xs ! i) else None)"

lemma index_Cons_0 [simp]: "index (x # xs) 0 = Some x"
  by (simp add: index_def)

lemma index_Cons_Suc [simp]: "index (x # xs) (Suc i) = index xs i"
  by (simp add: index_def)

lemma index_Nil [simp]: "index [] i = None"
  by (simp add: index_def)

lemma index_Cons_numeral [simp]: "index (x # xs) (numeral k) = index xs (pred_numeral k)"
  by (simp add: numeral_eq_Suc)

lemma index_eq_Some: "index xs i = Some x \<longleftrightarrow> i < length xs \<and> xs ! i = x"
  by (auto simp: index_def)

lemma map_option_bind: "map_option f (x \<bind> g) = x \<bind> (\<lambda>y. map_option f (g y))"
  by (cases x) auto

section \<open>64-bit integers\<close>

text \<open>The value of a Go \<open>int64\<close> (or \<open>int\<close>) expression whose exact value is \<open>x\<close>.\<close>

definition i64 :: "int \<Rightarrow> int" where
  "i64 x = (x + 9223372036854775808) mod 18446744073709551616 - 9223372036854775808"

definition in_i64 :: "int \<Rightarrow> bool" where
  "in_i64 x \<longleftrightarrow> - 9223372036854775808 \<le> x \<and> x < 9223372036854775808"

lemma i64_in_range: "in_i64 (i64 x)"
proof -
  have "0 \<le> (x + 9223372036854775808) mod 18446744073709551616"
    and "(x + 9223372036854775808) mod 18446744073709551616 < 18446744073709551616"
    by simp_all
  then show ?thesis by (simp add: i64_def in_i64_def)
qed

lemma i64_id [simp]: "in_i64 x \<Longrightarrow> i64 x = x"
  by (simp add: i64_def in_i64_def mod_pos_pos_trivial)

lemma i64_mod: "i64 x mod 18446744073709551616 = x mod 18446744073709551616"
  unfolding i64_def by (simp add: mod_diff_left_eq)

lemma i64_cong: "x mod 18446744073709551616 = y mod 18446744073709551616 \<Longrightarrow> i64 x = i64 y"
  unfolding i64_def using mod_add_cong[of x 18446744073709551616 y] by simp

lemma i64_add_left: "i64 (i64 a + b) = i64 (a + b)"
  by (rule i64_cong) (rule mod_add_cong, simp_all add: i64_mod)

lemma i64_diff_left: "i64 (i64 a - b) = i64 (a - b)"
  by (rule i64_cong) (rule mod_diff_cong, simp_all add: i64_mod)

lemma i64_diff_add_left: "i64 (i64 a - b + c) = i64 (a - b + c)"
  using i64_add_left[of a "c - b"] by (simp add: algebra_simps)

section \<open>Maps\<close>

type_synonym ('k, 'v) gomap = "('k \<times> 'v) list"

abbreviation gget :: "('k, 'v) gomap \<Rightarrow> 'k \<Rightarrow> 'v option" where
  "gget \<equiv> map_of"

abbreviation gset :: "'k \<Rightarrow> 'v \<Rightarrow> ('k, 'v) gomap \<Rightarrow> ('k, 'v) gomap" where
  "gset \<equiv> AList.update"

abbreviation gdel :: "'k \<Rightarrow> ('k, 'v) gomap \<Rightarrow> ('k, 'v) gomap" where
  "gdel \<equiv> AList.delete"

definition gmap_ok :: "('k, 'v) gomap \<Rightarrow> bool" where
  "gmap_ok m \<longleftrightarrow> distinct (map fst m)"

text \<open>\<open>ord\<close> lists the entries of the map \<open>m\<close> in some order: what a \<open>range\<close> loop may visit.\<close>

definition is_range :: "('k, 'v) gomap \<Rightarrow> ('k, 'v) gomap \<Rightarrow> bool" where
  "is_range ord m \<longleftrightarrow> gmap_ok ord \<and> map_of ord = map_of m"

text \<open>
  The contract of a finite map with a length, and what follows from it for the clients that
  count entries (the cache compares \<open>len\<close> with its capacity, pub/sub deletes empty inner maps).
\<close>

locale counted_map =
  fixes look :: "'m \<Rightarrow> 'k \<Rightarrow> 'v option"
    and upd :: "'k \<Rightarrow> 'v \<Rightarrow> 'm \<Rightarrow> 'm"
    and del :: "'k \<Rightarrow> 'm \<Rightarrow> 'm"
    and len :: "'m \<Rightarrow> nat"
    and ok :: "'m \<Rightarrow> bool"
  assumes look_upd: "look (upd k v m) = (look m)(k \<mapsto> v)"
    and look_del: "look (del k m) = (look m)(k := None)"
    and len_card: "ok m \<Longrightarrow> len m = card (dom (look m))"
    and fin: "finite (dom (look m))"
    and ok_upd: "ok m \<Longrightarrow> ok (upd k v m)"
    and ok_del: "ok m \<Longrightarrow> ok (del k m)"
begin

lemma len_upd_old: "ok m \<Longrightarrow> look m k \<noteq> None \<Longrightarrow> len (upd k v m) = len m"
  by (simp add: len_card ok_upd look_upd insert_absorb domIff)

lemma len_upd_new: "ok m \<Longrightarrow> look m k = None \<Longrightarrow> len (upd k v m) = Suc (len m)"
  using fin[of m] by (simp add: len_card ok_upd look_upd card_insert_if domIff)

lemma len_del_old: "ok m \<Longrightarrow> look m k \<noteq> None \<Longrightarrow> Suc (len (del k m)) = len m"
  using fin[of m] by (simp add: len_card ok_del look_del card_Suc_Diff1 domIff del: card_Diff_insert)

lemma len_del_new: "ok m \<Longrightarrow> look m k = None \<Longrightarrow> len (del k m) = len m"
  by (simp add: len_card ok_del look_del domIff)

lemma len_zero: "ok m \<Longrightarrow> len m = 0 \<longleftrightarrow> look m = (\<lambda>_. None)"
  using fin[of m] by (simp add: len_card)

end

lemma gmap_ok_gset [gomap_simps, intro]: "gmap_ok m \<Longrightarrow> gmap_ok (gset k v m)"
  by (simp add: gmap_ok_def AList.distinct_update)

lemma gmap_ok_gdel [gomap_simps, intro]: "gmap_ok m \<Longrightarrow> gmap_ok (gdel k m)"
  by (simp add: gmap_ok_def AList.distinct_delete)

lemma gmap_ok_Nil [gomap_simps, simp]: "gmap_ok []"
  by (simp add: gmap_ok_def)

lemma gmap_ok_single [gomap_simps, simp]: "gmap_ok [(k, v)]"
  by (simp add: gmap_ok_def)

lemma gget_gset [gomap_simps]: "gget (gset k v m) = (gget m)(k \<mapsto> v)"
  by (rule AList.update_conv')

lemma gget_gdel [gomap_simps]: "gget (gdel k m) = (gget m)(k := None)"
  by (rule AList.delete_conv')

lemma gmap_len: "gmap_ok m \<Longrightarrow> length m = card (dom (gget m))"
  by (metis distinct_card dom_map_of_conv_image_fst gmap_ok_def length_map list.set_map)

interpretation gm: counted_map gget gset gdel length gmap_ok
  by unfold_locales
    (simp_all add: gget_gset gget_gdel gmap_len finite_dom_map_of gmap_ok_gset gmap_ok_gdel)

lemmas gm_len = gm.len_upd_old gm.len_upd_new gm.len_del_old gm.len_del_new

lemma is_range_refl [simp]: "gmap_ok m \<Longrightarrow> is_range m m"
  by (simp add: is_range_def)

text \<open>A choice of iteration orders: every map is run through completely and without repetition.\<close>

definition ranges :: "(('k, 'v) gomap \<Rightarrow> ('k, 'v) gomap) \<Rightarrow> bool" where
  "ranges pick \<longleftrightarrow> (\<forall>m. gmap_ok m \<longrightarrow> is_range (pick m) m)"

lemma ranges_id [simp]: "ranges (\<lambda>m. m)"
  by (simp add: ranges_def)

lemma is_range_keys: "is_range ord m \<Longrightarrow> set (map fst ord) = dom (gget m)"
  by (metis dom_map_of_conv_image_fst is_range_def list.set_map)

lemma is_range_get: "is_range ord m \<Longrightarrow> (k, v) \<in> set ord \<longleftrightarrow> gget m k = Some v"
  unfolding is_range_def gmap_ok_def by (metis map_of_eq_Some_iff)

lemma is_range_len: "is_range ord m \<Longrightarrow> gmap_ok m \<Longrightarrow> length ord = length m"
  unfolding is_range_def by (metis gmap_len)

section \<open>Loops\<close>

text \<open>A \<open>for\<close> loop over a slice whose body updates a state and may panic.\<close>

fun foreach :: "('a \<Rightarrow> 's \<Rightarrow> 's option) \<Rightarrow> 'a list \<Rightarrow> 's \<Rightarrow> 's option" where
  "foreach f [] s = Some s"
| "foreach f (x # xs) s = do { s' \<leftarrow> f x s; foreach f xs s' }"

lemma foreach_append:
  "foreach f (xs @ ys) s = do { s' \<leftarrow> foreach f xs s; foreach f ys s' }"
  by (induction xs arbitrary: s) (auto split: Option.bind_splits)

lemma foreach_inv:
  assumes "\<And>x s. x \<in> set xs \<Longrightarrow> P s \<Longrightarrow> \<exists>s'. f x s = Some s' \<and> P s'" and "P s"
  shows "\<exists>s'. foreach f xs s = Some s' \<and> P s'"
  using assms
proof (induction xs arbitrary: s)
  case Nil
  then show ?case by simp
next
  case (Cons x xs)
  obtain s1 where "f x s = Some s1" "P s1"
    using Cons.prems by (meson list.set_intros(1))
  with Cons show ?case by auto
qed

section \<open>Sums over maps\<close>

definition msum :: "('k \<Rightarrow> 'v \<Rightarrow> int) \<Rightarrow> ('k \<Rightarrow> 'v option) \<Rightarrow> int" where
  "msum f m = (\<Sum>k \<in> dom m. f k (the (m k)))"

lemma msum_empty [simp]: "msum f (\<lambda>_. None) = 0"
  by (simp add: msum_def)

lemma msum_upd_new:
  "finite (dom m) \<Longrightarrow> m k = None \<Longrightarrow> msum f (m(k \<mapsto> v)) = msum f m + f k v"
proof -
  assume fin: "finite (dom m)" and "m k = None"
  then have nin: "k \<notin> dom m" by auto
  have "(\<Sum>x \<in> dom m. f x (the ((m(k \<mapsto> v)) x))) = (\<Sum>x \<in> dom m. f x (the (m x)))"
    using nin by (intro sum.cong) auto
  with fin nin show ?thesis by (simp add: msum_def)
qed

lemma msum_del:
  "finite (dom m) \<Longrightarrow> m k = Some v \<Longrightarrow> msum f (m(k := None)) = msum f m - f k v"
proof -
  assume fin: "finite (dom m)" and k: "m k = Some v"
  have "msum f ((m(k := None))(k \<mapsto> v)) = msum f (m(k := None)) + f k v"
    using fin by (intro msum_upd_new) auto
  moreover have "(m(k := None))(k \<mapsto> v) = m" using k by auto
  ultimately show ?thesis by simp
qed

lemma msum_upd_old:
  "finite (dom m) \<Longrightarrow> m k = Some u \<Longrightarrow> msum f (m(k \<mapsto> v)) = msum f m - f k u + f k v"
proof -
  assume fin: "finite (dom m)" and k: "m k = Some u"
  have "msum f ((m(k := None))(k \<mapsto> v)) = msum f (m(k := None)) + f k v"
    using fin by (intro msum_upd_new) auto
  with msum_del[OF fin k, of f] show ?thesis by simp
qed

lemma msum_map:
  "msum f (\<lambda>k. map_option g (m k)) = msum (\<lambda>k v. f k (g v)) m"
proof -
  have "dom (\<lambda>k. map_option g (m k)) = dom m" by (auto simp: dom_def)
  then show ?thesis
    unfolding msum_def by (intro sum.cong) (auto simp: dom_def)
qed

end
