(* ===== verification/Lru.thy ===== *)
theory Lru
  imports Prelude
begin

text \<open>
  The recency list of \<open>internal/lru/lru.go\<close>: a doubly linked list of heap nodes. The model keeps
  the pointers. The nodes live in a store \<open>mem\<close> from addresses to nodes, a nil pointer is \<open>None\<close>,
  and a dereference of nil makes the whole operation \<open>None\<close> (a panic).

  The theory shows that on a well-formed list (\<open>lru_list l as\<close>: the store holds exactly the
  chain \<open>as\<close>, linked in both directions) every operation returns, keeps the list well formed and
  acts on the chain as the corresponding list operation does, so that the chain is the recency
  order of the accesses.
\<close>

type_synonym addr = nat

record Node =
  key :: string
  prev :: "addr option"
  "next" :: "addr option"

record LRU =
  head :: "addr option"
  tail :: "addr option"
  mem :: "addr \<Rightarrow> Node option"
  brk :: addr

definition New :: LRU where
  "New = \<lparr>head = None, tail = None, mem = (\<lambda>_. None), brk = 0\<rparr>"

text \<open>The assignments \<open>p.prev = v\<close> and \<open>p.next = v\<close> through a pointer \<open>p\<close>.\<close>

definition set_prev :: "addr option \<Rightarrow> addr option \<Rightarrow> LRU \<Rightarrow> LRU option" where
  "set_prev p v l = do {
     a \<leftarrow> p;
     n \<leftarrow> mem l a;
     Some (l\<lparr>mem := (mem l)(a \<mapsto> n\<lparr>prev := v\<rparr>)\<rparr>)
   }"

definition set_next :: "addr option \<Rightarrow> addr option \<Rightarrow> LRU \<Rightarrow> LRU option" where
  "set_next p v l = do {
     a \<leftarrow> p;
     n \<leftarrow> mem l a;
     Some (l\<lparr>mem := (mem l)(a \<mapsto> n\<lparr>next := v\<rparr>)\<rparr>)
   }"

definition RemoveNode :: "addr \<Rightarrow> LRU \<Rightarrow> LRU option" where
  "RemoveNode node l =
     (if head l = Some node \<and> tail l = Some node
      then Some (l\<lparr>head := None, tail := None\<rparr>)
      else if head l = Some node then do {
        n \<leftarrow> mem l node;
        set_prev (next n) None (l\<lparr>head := next n\<rparr>)
      }
      else if tail l = Some node then do {
        n \<leftarrow> mem l node;
        set_next (prev n) None (l\<lparr>tail := prev n\<rparr>)
      }
      else do {
        n \<leftarrow> mem l node;
        l1 \<leftarrow> set_next (prev n) (next n) l;
        n1 \<leftarrow> mem l1 node;
        set_prev (next n1) (prev n1) l1
      })"

definition addToFront :: "addr \<Rightarrow> LRU \<Rightarrow> LRU option" where
  "addToFront node l =
     (if head l = None \<and> tail l = None then do {
        l1 \<leftarrow> set_next (Some node) None (l\<lparr>head := Some node, tail := Some node\<rparr>);
        set_prev (Some node) None l1
      }
      else do {
        l1 \<leftarrow> set_prev (Some node) None l;
        l2 \<leftarrow> set_next (Some node) (head l1) l1;
        l3 \<leftarrow> set_prev (head l2) (Some node) l2;
        Some (l3\<lparr>head := Some node\<rparr>)
      })"

definition MoveToFront :: "addr \<Rightarrow> LRU \<Rightarrow> LRU option" where
  "MoveToFront node l =
     (if head l = Some node then Some l
      else do { l1 \<leftarrow> RemoveNode node l; addToFront node l1 })"

definition RemoveLRU :: "LRU \<Rightarrow> (string \<times> LRU) option" where
  "RemoveLRU l =
     (case tail l of
        None \<Rightarrow> Some ([], l)
      | Some t \<Rightarrow> do {
          n \<leftarrow> mem l t;
          l1 \<leftarrow> RemoveNode t l;
          Some (key n, l1)
        })"

text \<open>\<open>brk\<close> is the first address that was never allocated; \<open>&Node{...}\<close> takes it.\<close>

definition Add :: "string \<Rightarrow> LRU \<Rightarrow> (addr \<times> LRU) option" where
  "Add k l = do {
     let a = brk l;
     let l1 = l\<lparr>mem := (mem l)(a \<mapsto> \<lparr>key = k, prev = None, next = None\<rparr>), brk := Suc a\<rparr>;
     l2 \<leftarrow> addToFront a l1;
     Some (a, l2)
   }"

lemmas lru_op_defs = RemoveNode_def addToFront_def MoveToFront_def RemoveLRU_def Add_def
  set_prev_def set_next_def

section \<open>Well-formed chains\<close>

definition first :: "'a list \<Rightarrow> 'a option" where
  "first as = (case as of [] \<Rightarrow> None | a # _ \<Rightarrow> Some a)"

definition final :: "'a list \<Rightarrow> 'a option" where
  "final as = (if as = [] then None else Some (last as))"

text \<open>\<open>seg m p as q\<close>: the nodes \<open>as\<close> are linked in order, between the neighbours \<open>p\<close> and \<open>q\<close>.\<close>

fun seg :: "(addr \<Rightarrow> Node option) \<Rightarrow> addr option \<Rightarrow> addr list \<Rightarrow> addr option \<Rightarrow> bool" where
  "seg m p [] q \<longleftrightarrow> True"
| "seg m p (a # as) q \<longleftrightarrow>
     (case m a of
        None \<Rightarrow> False
      | Some n \<Rightarrow> prev n = p \<and> next n = (if as = [] then q else first as)) \<and>
     seg m (Some a) as q"

definition lru_list :: "LRU \<Rightarrow> addr list \<Rightarrow> bool" where
  "lru_list l as \<longleftrightarrow>
     distinct as \<and> seg (mem l) None as None \<and> head l = first as \<and> tail l = final as \<and>
     (\<forall>a \<in> set as. a < brk l)"

text \<open>The key a node stores.\<close>

definition key_at :: "LRU \<Rightarrow> addr \<Rightarrow> string" where
  "key_at l a = (case mem l a of None \<Rightarrow> [] | Some n \<Rightarrow> key n)"

lemma first_simps [simp]: "first [] = None" "first (a # as) = Some a"
  by (simp_all add: first_def)

lemma first_append: "first (as @ bs) = (if as = [] then first bs else first as)"
  by (cases as) simp_all

lemma final_simps [simp]: "final [] = None" "final (as @ [a]) = Some a" "final [a] = Some a"
  by (simp_all add: final_def)

lemma final_append: "final (as @ bs) = (if bs = [] then final as else final bs)"
  by (simp add: final_def)

lemma final_Cons: "final (a # as) = (if as = [] then Some a else final as)"
  by (simp add: final_def)

lemma seg_append:
  "seg m p (as @ bs) q \<longleftrightarrow>
     seg m p as (if bs = [] then q else first bs) \<and> seg m (if as = [] then p else final as) bs q"
  by (induction as arbitrary: p) (auto simp: first_append final_Cons split: option.splits)

lemma seg_upd [simp]: "a \<notin> set as \<Longrightarrow> seg (m(a := x)) p as q = seg m p as q"
  by (induction as arbitrary: p) (auto split: option.splits)

lemma seg_mem: "seg m p as q \<Longrightarrow> a \<in> set as \<Longrightarrow> m a \<noteq> None"
  by (induction as arbitrary: p) (auto split: option.splits)

lemma lru_list_cell: "lru_list l as \<Longrightarrow> a \<in> set as \<Longrightarrow> \<exists>n. mem l a = Some n"
  using seg_mem[of "mem l" None as None a] by (auto simp: lru_list_def)

lemma first_in: "first as = Some a \<Longrightarrow> a \<in> set as"
  by (cases as) auto

lemma final_in: "final as = Some a \<Longrightarrow> a \<in> set as"
  by (auto simp: final_def split: if_splits)

lemma lru_listD:
  assumes "lru_list l as"
  shows "distinct as" "seg (mem l) None as None" "head l = first as" "tail l = final as"
    "\<And>a. a \<in> set as \<Longrightarrow> a < brk l"
  using assms by (auto simp: lru_list_def)

lemma lru_list_New [simp]: "lru_list New []"
  by (simp add: lru_list_def New_def)

lemma lru_list_unique: "lru_list l as \<Longrightarrow> lru_list l bs \<Longrightarrow> as = bs"
proof -
  have gen: "seg m p as None \<Longrightarrow> seg m p bs None \<Longrightarrow> first as = first bs \<Longrightarrow> as = bs" for m p as bs
  proof (induction as arbitrary: p bs)
    case Nil
    then show ?case by (cases bs) auto
  next
    case (Cons a as)
    then obtain bs' where bs: "bs = a # bs'" by (cases bs) auto
    obtain n where mem_a: "m a = Some n" using Cons.prems(1) by (auto split: option.splits)
    have "first as = next n" "first bs' = next n"
      using Cons.prems mem_a unfolding bs by (auto split: if_splits)
    with Cons bs show ?case by auto
  qed
  assume "lru_list l as" "lru_list l bs"
  then show ?thesis by (intro gen[of "mem l" None]) (simp_all add: lru_list_def)
qed

section \<open>The operations on a well-formed list\<close>

text \<open>What every operation keeps: the keys of the nodes.\<close>

definition same_keys :: "LRU \<Rightarrow> LRU \<Rightarrow> bool" where
  "same_keys l l' \<longleftrightarrow> (\<forall>a < brk l. key_at l' a = key_at l a)"

lemma same_keys_trans: "same_keys l l' \<Longrightarrow> brk l \<le> brk l' \<Longrightarrow> same_keys l' l'' \<Longrightarrow> same_keys l l''"
  by (simp add: same_keys_def)

text \<open>The cell of a chain node, with its links written out.\<close>

lemma seg_cell:
  assumes "seg m p (xs @ a # ys) q"
  obtains n where "m a = Some n" "prev n = (if xs = [] then p else final xs)"
    "next n = (if ys = [] then q else first ys)"
  using assms unfolding seg_append by (cases "m a") auto

lemma RemoveNode_mid:
  assumes "lru_list l (xs @ a # ys)"
  shows "\<exists>l'. RemoveNode a l = Some l' \<and> lru_list l' (xs @ ys) \<and> brk l' = brk l \<and> same_keys l l' \<and>
    mem l' a = mem l a"
proof -
  note w = assms[unfolded lru_list_def]
  obtain n where n: "mem l a = Some n" "prev n = final xs" "next n = first ys"
    using seg_cell[of "mem l" None xs a ys None] w by (metis final_simps(1) first_simps(1))
  have ends: "head l = Some a \<longleftrightarrow> xs = []" "tail l = Some a \<longleftrightarrow> ys = []"
    using w first_in[of xs a] final_in[of ys a] by (auto simp: first_append final_append final_Cons)
  consider (single) "xs = []" "ys = []" | (atHead) q ys' where "xs = []" "ys = q # ys'"
    | (atTail) xs' p where "xs = xs' @ [p]" "ys = []"
    | (middle) xs' p q ys' where "xs = xs' @ [p]" "ys = q # ys'"
    by (cases xs rule: rev_cases; cases ys) auto
  then show ?thesis
  proof cases
    case single
    with w show ?thesis
      by (simp add: RemoveNode_def lru_list_def same_keys_def key_at_def)
  next
    case atHead
    obtain c where "mem l q = Some c"
      using lru_list_cell[OF assms, of q] atHead by auto
    with w n ends atHead show ?thesis
      by (simp add: RemoveNode_def set_prev_def lru_list_def same_keys_def key_at_def final_Cons)
  next
    case atTail
    obtain c where "mem l p = Some c"
      using lru_list_cell[OF assms, of p] atTail by auto
    with w n ends atTail show ?thesis
      by (simp add: RemoveNode_def set_next_def lru_list_def same_keys_def key_at_def
          first_append final_append seg_append split: if_splits)
  next
    case middle
    obtain c where "mem l p = Some c"
      using lru_list_cell[OF assms, of p] middle by auto
    moreover obtain d where "mem l q = Some d"
      using lru_list_cell[OF assms, of q] middle by auto
    ultimately show ?thesis
      using w n ends middle
      by (simp add: RemoveNode_def set_next_def set_prev_def lru_list_def same_keys_def key_at_def
          first_append final_append final_Cons seg_append split: if_splits)
  qed
qed

lemma addToFront_new:
  assumes "lru_list l as" "a \<notin> set as" "a < brk l" "mem l a = Some n"
  shows "\<exists>l'. addToFront a l = Some l' \<and> lru_list l' (a # as) \<and> brk l' = brk l \<and> same_keys l l'"
proof (cases as)
  case Nil
  with assms show ?thesis
    by (simp add: addToFront_def set_next_def set_prev_def lru_list_def same_keys_def key_at_def)
next
  case (Cons b bs)
  obtain c where "mem l b = Some c"
    using lru_list_cell[OF assms(1), of b] Cons by auto
  with assms Cons show ?thesis
    by (simp add: addToFront_def set_next_def set_prev_def lru_list_def same_keys_def key_at_def
        final_Cons)
qed

lemma RemoveNode_ok:
  assumes "lru_list l as" "a \<in> set as"
  shows "\<exists>l'. RemoveNode a l = Some l' \<and> lru_list l' (remove1 a as) \<and> brk l' = brk l \<and> same_keys l l'"
proof -
  obtain xs ys where as: "as = xs @ a # ys" "a \<notin> set xs"
    using assms(2) by (metis split_list_first)
  then show ?thesis
    using RemoveNode_mid[of l xs a ys] assms(1) by (auto simp: remove1_append)
qed

lemma MoveToFront_ok:
  assumes "lru_list l as" "a \<in> set as"
  shows "\<exists>l'. MoveToFront a l = Some l' \<and> lru_list l' (a # remove1 a as) \<and> brk l' = brk l \<and> same_keys l l'"
proof (cases "head l = Some a")
  case True
  with assms have "as = a # remove1 a as"
    by (cases as) (auto simp: lru_list_def)
  with True assms show ?thesis
    by (auto simp: MoveToFront_def same_keys_def)
next
  case False
  obtain xs ys where as: "as = xs @ a # ys" "a \<notin> set xs"
    using assms(2) by (metis split_list_first)
  have nin: "a \<notin> set (xs @ ys)"
    using assms(1) as by (auto simp: lru_list_def)
  obtain l1 where l1: "RemoveNode a l = Some l1" "lru_list l1 (xs @ ys)" "brk l1 = brk l"
    "same_keys l l1" "mem l1 a = mem l a"
    using RemoveNode_mid[of l xs a ys] assms(1) as by blast
  obtain n where "mem l a = Some n"
    using lru_list_cell[OF assms] by auto
  moreover have "a < brk l"
    using assms by (auto simp: lru_list_def)
  ultimately obtain l2 where "addToFront a l1 = Some l2" "lru_list l2 (a # xs @ ys)" "brk l2 = brk l1"
    "same_keys l1 l2"
    using addToFront_new[OF l1(2) nin, of n] l1 by auto
  with False l1 as show ?thesis
    by (auto simp: MoveToFront_def remove1_append intro: same_keys_trans)
qed

lemma RemoveLRU_ok:
  assumes "lru_list l as"
  shows "\<exists>l'. RemoveLRU l = Some (if as = [] then [] else key_at l (last as), l') \<and>
    lru_list l' (butlast as) \<and> brk l' = brk l \<and> same_keys l l'"
proof (cases as rule: rev_cases)
  case Nil
  with assms show ?thesis
    by (auto simp: RemoveLRU_def lru_list_def same_keys_def)
next
  case (snoc xs a)
  obtain n where n: "mem l a = Some n"
    using lru_list_cell[OF assms, of a] snoc by auto
  from RemoveNode_mid[of l xs a "[]"] assms snoc n show ?thesis
    by (auto simp: RemoveLRU_def lru_list_def key_at_def)
qed

lemma Add_ok:
  assumes "lru_list l as"
  shows "\<exists>l'. Add k l = Some (brk l, l') \<and> lru_list l' (brk l # as) \<and> brk l' = Suc (brk l) \<and>
    same_keys l l' \<and> key_at l' (brk l) = k"
proof -
  let ?l = "l\<lparr>mem := (mem l)(brk l \<mapsto> \<lparr>key = k, prev = None, next = None\<rparr>), brk := Suc (brk l)\<rparr>"
  have nin: "brk l \<notin> set as" and wf: "lru_list ?l as"
    using assms by (auto simp: lru_list_def less_Suc_eq)
  from addToFront_new[OF wf nin] obtain l' where
    "addToFront (brk l) ?l = Some l'" "lru_list l' (brk l # as)" "brk l' = Suc (brk l)" "same_keys ?l l'"
    by auto
  then show ?thesis
    by (auto simp: Add_def same_keys_def key_at_def)
qed

section \<open>The recency order\<close>

lemma remdups_distinct_append:
  "distinct xs \<Longrightarrow> remdups (xs @ ys) = filter (\<lambda>x. x \<notin> set ys) xs @ remdups ys"
  by (induction xs) auto

text \<open>
  The contract of a recency list as its client uses it: handles, a representation predicate and
  the operation that marks a handle as used. Whatever implements it keeps the handles in the
  order of their last use.
\<close>

locale recency_list =
  fixes rep :: "'l \<Rightarrow> 'n list \<Rightarrow> bool"
    and touch :: "'n \<Rightarrow> 'l \<Rightarrow> 'l option"
    and drop_handle :: "'n \<Rightarrow> 'l \<Rightarrow> 'l option"
  assumes rep_distinct: "rep l as \<Longrightarrow> distinct as"
    and rep_unique: "rep l as \<Longrightarrow> rep l bs \<Longrightarrow> as = bs"
    and touch_rep: "rep l as \<Longrightarrow> a \<in> set as \<Longrightarrow> \<exists>l'. touch a l = Some l' \<and> rep l' (a # remove1 a as)"
    and drop_rep: "rep l as \<Longrightarrow> a \<in> set as \<Longrightarrow> \<exists>l'. drop_handle a l = Some l' \<and> rep l' (remove1 a as)"
begin

lemma touch_keeps: "rep l as \<Longrightarrow> a \<in> set as \<Longrightarrow> set (a # remove1 a as) = set as"
  using rep_distinct by (auto simp: set_remove1_eq)

lemma touches_order:
  assumes "rep l as" and "set ts \<subseteq> set as"
  shows "\<exists>l'. foreach touch ts l = Some l' \<and> rep l' (rev (remdups (rev as @ ts)))"
  using assms
proof (induction ts arbitrary: l as)
  case Nil
  then show ?case by (simp add: rep_distinct distinct_remdups_id)
next
  case (Cons t ts)
  have d: "distinct as" using Cons.prems(1) by (rule rep_distinct)
  obtain l1 where l1: "touch t l = Some l1" "rep l1 (t # remove1 t as)"
    using touch_rep[of l as t] Cons.prems by auto
  have "set ts \<subseteq> set (t # remove1 t as)"
    using touch_keeps[of l as t] Cons.prems by auto
  from Cons.IH[OF l1(2) this] obtain l2 where
    l2: "foreach touch ts l1 = Some l2" "rep l2 (rev (remdups (rev (t # remove1 t as) @ ts)))"
    by blast
  have "remdups (rev (t # remove1 t as) @ ts) = remdups (rev as @ t # ts)"
  proof -
    have "remdups (rev (t # remove1 t as) @ ts) = remdups (rev (remove1 t as) @ (t # ts))"
      by simp
    also have "\<dots> = filter (\<lambda>x. x \<notin> set (t # ts)) (rev (remove1 t as)) @ remdups (t # ts)"
      using d by (intro remdups_distinct_append) simp
    also have "filter (\<lambda>x. x \<notin> set (t # ts)) (rev (remove1 t as)) = filter (\<lambda>x. x \<notin> set (t # ts)) (rev as)"
      using d by (auto simp: distinct_remove1_removeAll removeAll_filter_not_eq rev_filter
          intro!: filter_cong)
    also have "\<dots> @ remdups (t # ts) = remdups (rev as @ t # ts)"
      using d by (intro remdups_distinct_append[symmetric]) simp
    finally show ?thesis .
  qed
  with l1 l2 show ?case by simp
qed

text \<open>The handle at the back is not used after any other handle: the one to evict.\<close>

lemma victim_oldest:
  assumes "rep l as" and "set ts \<subseteq> set as" and "v \<in> set as" and "v \<notin> set ts"
    and "foreach touch ts l = Some l'" and "rep l' bs"
  shows "last bs \<notin> set ts"
proof -
  have bs: "bs = rev (remdups (rev as @ ts))"
    using touches_order[OF assms(1,2)] assms(5,6) rep_unique by auto
  have "remdups (rev as @ ts) = filter (\<lambda>x. x \<notin> set ts) (rev as) @ remdups ts"
    using rep_distinct[OF assms(1)] by (intro remdups_distinct_append) simp
  moreover obtain f fs where f: "filter (\<lambda>x. x \<notin> set ts) (rev as) = f # fs"
    using assms(3,4) by (cases "filter (\<lambda>x. x \<notin> set ts) (rev as)") (auto simp: filter_empty_conv)
  ultimately have "last bs = f"
    by (simp add: bs)
  moreover have "f \<in> set (filter (\<lambda>x. x \<notin> set ts) (rev as))"
    unfolding f by simp
  ultimately show ?thesis by simp
qed

end

interpretation lru: recency_list lru_list MoveToFront RemoveNode
  using lru_listD(1) lru_list_unique MoveToFront_ok RemoveNode_ok by unfold_locales blast+

section \<open>What the list promises\<close>

lemma lru_list_two:
  "lru_list (snd (the (Add ''b'' (snd (the (Add ''a'' New)))))) [1, 0]"
  by (simp add: lru_op_defs New_def lru_list_def final_def)

text \<open>
  C29: On a list that holds the nodes \<open>as\<close> (front first), inserting puts a fresh node in front,
  using a node moves it to the front, removing a node takes out that node alone, and eviction
  takes out the last node and returns its key. No operation dereferences nil.
\<close>

theorem lru_operations:
  assumes "lru_list l as"
  shows "(\<exists>l'. Add k l = Some (brk l, l') \<and> lru_list l' (brk l # as) \<and> key_at l' (brk l) = k) \<and>
    (\<forall>a \<in> set as. (\<exists>l'. MoveToFront a l = Some l' \<and> lru_list l' (a # remove1 a as)) \<and>
      (\<exists>l'. RemoveNode a l = Some l' \<and> lru_list l' (remove1 a as))) \<and>
    (\<exists>l'. RemoveLRU l = Some (if as = [] then [] else key_at l (last as), l') \<and> lru_list l' (butlast as))"
proof -
  have "\<exists>l'. RemoveLRU l = Some (if as = [] then [] else key_at l (last as), l') \<and> lru_list l' (butlast as)"
  proof (cases "as = []")
    case True
    with assms show ?thesis by (simp add: RemoveLRU_def lru_list_def)
  next
    case False
    with RemoveLRU_ok[OF assms] show ?thesis by auto
  qed
  with Add_ok[OF assms, of k] MoveToFront_ok[OF assms] RemoveNode_ok[OF assms] show ?thesis
    by blast
qed

theorem lru_operations_witness:
  "\<exists>l'. RemoveLRU (snd (the (Add ''b'' (snd (the (Add ''a'' New)))))) = Some (''a'', l') \<and> lru_list l' [1]"
  using lru_operations[OF lru_list_two, of "''c''"]
  by (simp add: key_at_def lru_op_defs New_def)

text \<open>
  After any sequence \<open>ts\<close> of uses, the list is ordered by the time of last use, the most
  recent first, with the nodes that were not used behind, in their old order; and the node that
  the next eviction removes was not used if any node of the list was not.
\<close>

lemma lru_recency:
  assumes "lru_list l as" and "set ts \<subseteq> set as"
  shows "\<exists>l'. foreach MoveToFront ts l = Some l' \<and> lru_list l' (rev (remdups (rev as @ ts))) \<and>
    (\<forall>v \<in> set as - set ts. last (rev (remdups (rev as @ ts))) \<notin> set ts)"
proof -
  obtain l' where l': "foreach MoveToFront ts l = Some l'" "lru_list l' (rev (remdups (rev as @ ts)))"
    using lru.touches_order[OF assms] by auto
  moreover have "last (rev (remdups (rev as @ ts))) \<notin> set ts" if "v \<in> set as - set ts" for v
    using lru.victim_oldest[OF assms _ _ l'] that by blast
  ultimately show ?thesis by blast
qed

lemma lru_recency_witness:
  "\<exists>l'. foreach MoveToFront [0, 1, 0] (snd (the (Add ''b'' (snd (the (Add ''a'' New)))))) = Some l' \<and>
     lru_list l' [0, 1]"
  using lru_recency[OF lru_list_two, of "[0, 1, 0]"] by simp

end
