(* ===== verification/Go_Lib.thy ===== *)
theory Go_Lib
  imports Prelude "HOL-Library.Sublist"
begin

text \<open>
  The parts of Go's \<open>strconv\<close>, \<open>strings\<close> and \<open>time\<close> packages that GoCache calls, with the facts
  the components use: decimal printing and parsing are inverse to each other, and the whole
  seconds of a duration are computed through a 64-bit float.
\<close>

section \<open>strconv\<close>

definition digit_char :: "int \<Rightarrow> char" where
  "digit_char d = char_of (48 + d)"

definition digit_val :: "char \<Rightarrow> int option" where
  "digit_val c = (let n = of_char c in if 48 \<le> n \<and> n \<le> (57::int) then Some (n - 48) else None)"

text \<open>The decimal digits of a number that is not negative.\<close>

function digits :: "int \<Rightarrow> string" where
  "digits n = (if n < 10 then [digit_char n] else digits (n div 10) @ [digit_char (n mod 10)])"
  by pat_completeness auto
termination
  by (relation "measure nat") auto

declare digits.simps [simp del]

text \<open>\<open>strconv.Itoa\<close>, \<open>strconv.FormatInt(_, 10)\<close> and the \<open>%d\<close> of \<open>fmt\<close>.\<close>

definition Itoa :: "int \<Rightarrow> string" where
  "Itoa n = (if n < 0 then CHR ''-'' # digits (- n) else digits n)"

fun digits_val :: "int \<Rightarrow> string \<Rightarrow> int option" where
  "digits_val acc [] = Some acc"
| "digits_val acc (c # cs) =
     (case digit_val c of None \<Rightarrow> None | Some d \<Rightarrow> digits_val (10 * acc + d) cs)"

definition unsigned_val :: "string \<Rightarrow> int option" where
  "unsigned_val s = (if s = [] then None else digits_val 0 s)"

text \<open>\<open>strconv.Atoi\<close> and \<open>strconv.ParseInt(_, 10, 64)\<close>: \<open>None\<close> for a syntax or a range error.\<close>

definition Atoi :: "string \<Rightarrow> int option" where
  "Atoi s =
     (let v = (case s of
                 [] \<Rightarrow> None
               | c # cs \<Rightarrow>
                   if c = CHR ''-'' then map_option uminus (unsigned_val cs)
                   else if c = CHR ''+'' then unsigned_val cs
                   else unsigned_val s)
      in case v of None \<Rightarrow> None | Some n \<Rightarrow> if in_i64 n then Some n else None)"

lemma digit_val_char [simp]: "0 \<le> d \<Longrightarrow> d < 10 \<Longrightarrow> digit_val (digit_char d) = Some d"
  by (simp add: digit_val_def digit_char_def)

lemma digits_val_append:
  "digits_val acc (xs @ ys) = (case digits_val acc xs of None \<Rightarrow> None | Some a \<Rightarrow> digits_val a ys)"
  by (induction xs arbitrary: acc) (auto split: option.splits)

lemma digits_not_Nil [simp]: "digits n \<noteq> []"
  by (subst digits.simps) simp

lemma digits_val_digits [simp]: "0 \<le> n \<Longrightarrow> digits_val 0 (digits n) = Some n"
proof (induction n rule: digits.induct)
  case (1 n)
  then show ?case
    by (cases "n < 10")
      (simp_all add: digits.simps[of n] digits_val_append split: option.splits)
qed

lemma unsigned_val_digits [simp]: "0 \<le> n \<Longrightarrow> unsigned_val (digits n) = Some n"
  by (simp add: unsigned_val_def)

definition all_digits :: "string \<Rightarrow> bool" where
  "all_digits s \<longleftrightarrow> (\<forall>c \<in> set s. digit_val c \<noteq> None)"

lemma all_digits_digits: "0 \<le> n \<Longrightarrow> all_digits (digits n)"
proof (induction n rule: digits.induct)
  case (1 n)
  then show ?case
    by (cases "n < 10") (auto simp: digits.simps[of n] all_digits_def)
qed

lemma digit_val_special [simp]:
  "digit_val CHR ''-'' = None" "digit_val CHR ''+'' = None" "digit_val CHR '':'' = None"
  "digit_val CHR '' '' = None" "digit_val CHR 0x0A = None" "digit_val CHR 0x0D = None"
  by (simp_all add: digit_val_def)

lemma digits_special:
  "0 \<le> n \<Longrightarrow> digit_val c = None \<Longrightarrow> c \<notin> set (digits n)"
  using all_digits_digits[of n] by (auto simp: all_digits_def)

lemma Itoa_special [simp]:
  "CHR '':'' \<notin> set (Itoa n)" "CHR 0x0A \<notin> set (Itoa n)" "CHR 0x0D \<notin> set (Itoa n)"
  "CHR '' '' \<notin> set (Itoa n)"
  by (simp_all add: Itoa_def digits_special)

lemma Itoa_not_Nil [simp]: "Itoa n \<noteq> []"
  by (simp add: Itoa_def)

text \<open>Printing an \<open>int64\<close> in decimal and parsing it again gives the number back.\<close>

lemma Atoi_Itoa: "in_i64 n \<Longrightarrow> Atoi (Itoa n) = Some n"
proof (cases "n < 0")
  case True
  assume "in_i64 n"
  with True show ?thesis by (simp add: Atoi_def Itoa_def)
next
  case False
  assume "in_i64 n"
  obtain c cs where cs: "digits n = c # cs"
    by (cases "digits n") auto
  have "c \<noteq> CHR ''-''" and "c \<noteq> CHR ''+''"
    using digits_special[of n c] False unfolding cs by auto
  moreover have "unsigned_val (c # cs) = Some n"
    using False unfolding cs[symmetric] by simp
  ultimately show ?thesis
    using False \<open>in_i64 n\<close> by (simp add: Atoi_def Itoa_def cs)
qed

lemma Atoi_range: "Atoi s = Some n \<Longrightarrow> in_i64 n"
  by (auto simp: Atoi_def Let_def split: option.splits if_splits)

lemma Atoi_Nil [simp]: "Atoi [] = None"
  by (simp add: Atoi_def)

section \<open>strings\<close>

definition HasPrefix :: "string \<Rightarrow> string \<Rightarrow> bool" where
  "HasPrefix s p \<longleftrightarrow> prefix p s"

definition HasSuffix :: "string \<Rightarrow> string \<Rightarrow> bool" where
  "HasSuffix s p \<longleftrightarrow> suffix p s"

definition TrimPrefix :: "string \<Rightarrow> string \<Rightarrow> string" where
  "TrimPrefix s p = (if prefix p s then drop (length p) s else s)"

definition TrimSuffix :: "string \<Rightarrow> string \<Rightarrow> string" where
  "TrimSuffix s p = (if suffix p s then take (length s - length p) s else s)"

text \<open>\<open>strings.Split\<close> with a one-byte separator.\<close>

fun Split :: "string \<Rightarrow> char \<Rightarrow> string list" where
  "Split [] c = [[]]"
| "Split (x # xs) c =
     (if x = c then [] # Split xs c
      else (case Split xs c of [] \<Rightarrow> [[x]] | p # ps \<Rightarrow> (x # p) # ps))"

text \<open>
  \<open>strings.ToUpper\<close> on ASCII letters. Its only use compares the result with \<open>"EX"\<close>, and no
  character outside ASCII has the upper-case form E or X.
\<close>

definition ToUpper :: "string \<Rightarrow> string" where
  "ToUpper s =
     map (\<lambda>c. let n = of_char c in if 97 \<le> n \<and> n \<le> (122::nat) then char_of (n - 32) else c) s"

lemmas strings_defs [go_defs] = HasPrefix_def HasSuffix_def TrimPrefix_def TrimSuffix_def

lemma Split_not_Nil [simp]: "Split s c \<noteq> []"
  by (cases s) (auto split: list.splits)

lemma Split_no_sep [simp]: "c \<notin> set s \<Longrightarrow> Split s c = [s]"
  by (induction s) auto

lemma Split_append: "c \<notin> set s \<Longrightarrow> Split (s @ c # t) c = s # Split t c"
  by (induction s) auto

lemma TrimSuffix_append [simp]: "TrimSuffix (s @ p) p = s"
  by (simp add: TrimSuffix_def suffix_def)

lemma TrimPrefix_append [simp]: "TrimPrefix (p @ s) p = s"
  by (simp add: TrimPrefix_def)

section \<open>time\<close>

text \<open>
  An instant is its distance from the zero \<open>time.Time\<close> in nanoseconds, so that \<open>IsZero\<close> is a
  test for 0, and a duration is an \<open>int64\<close> number of nanoseconds.
\<close>

type_synonym time = int
type_synonym duration = int

definition IsZero :: "time \<Rightarrow> bool" where
  "IsZero t \<longleftrightarrow> t = 0"

definition Second :: duration where
  "Second = 1000000000"

text \<open>\<open>time.Duration(n) * time.Second\<close>: the product wraps around.\<close>

definition seconds_dur :: "int \<Rightarrow> duration" where
  "seconds_dur n = i64 (n * Second)"

text \<open>\<open>time.Until(t)\<close> at the time \<open>now\<close>: \<open>Time.Sub\<close> saturates.\<close>

definition Until :: "time \<Rightarrow> time \<Rightarrow> duration" where
  "Until now t = max (- 9223372036854775808) (min 9223372036854775807 (t - now))"

text \<open>
  \<open>d.Seconds()\<close> is the float sum of the whole seconds and of the nanoseconds divided by
  \<open>1e9\<close>; the callers truncate it to an integer. A positive float here is \<open>q / 2 ^ k\<close> for an
  integer \<open>q\<close> of at most 53 bits; division and addition round to the nearest, ties to even.
\<close>

function bit_length :: "int \<Rightarrow> nat" where
  "bit_length x = (if x \<le> 0 then 0 else Suc (bit_length (x div 2)))"
  by pat_completeness auto
termination
  by (relation "measure nat") auto

declare bit_length.simps [simp del]

definition round_half_even :: "int \<Rightarrow> int \<Rightarrow> int" where
  "round_half_even n d =
     (let q = n div d; r = n mod d
      in if 2 * r < d \<or> (2 * r = d \<and> even q) then q else q + 1)"

text \<open>The exponent \<open>k\<close> for which \<open>n * 2 ^ k / 1e9\<close> has 53 bits before the point, \<open>0 < n < 1e9\<close>.\<close>

definition f64_shift :: "int \<Rightarrow> nat" where
  "f64_shift n = 52 + bit_length (999999999 div n)"

text \<open>The float nearest to \<open>s + q / 2 ^ k\<close>, cut down to an integer.\<close>

definition f64_sum_trunc :: "int \<Rightarrow> int \<Rightarrow> nat \<Rightarrow> int" where
  "f64_sum_trunc s q k =
     (let m = s * 2 ^ k + q; w = bit_length (m div 2 ^ k)
      in if w = 0 then m div 2 ^ k
         else round_half_even m (2 ^ (k + w - 53)) * 2 ^ (k + w - 53) div 2 ^ k)"

definition abs_seconds :: "int \<Rightarrow> int" where
  "abs_seconds d =
     (let s = d div 1000000000; n = d mod 1000000000
      in if n = 0 then s
         else let k = f64_shift n
              in f64_sum_trunc s (round_half_even (n * 2 ^ k) 1000000000) k)"

text \<open>\<open>int(d.Seconds())\<close> and \<open>int64(d.Seconds())\<close>.\<close>

definition Seconds :: "duration \<Rightarrow> int" where
  "Seconds d = (if d < 0 then - abs_seconds (- d) else abs_seconds d)"

lemma Seconds_whole: "Seconds (n * 1000000000) = n"
proof -
  have "abs_seconds (m * 1000000000) = m" for m
    by (simp add: abs_seconds_def)
  from this[of n] this[of "- n"] show ?thesis by (simp add: Seconds_def)
qed

lemma seconds_dur_exact: "\<bar>n\<bar> \<le> 9223372036 \<Longrightarrow> seconds_dur n = n * 1000000000"
  unfolding seconds_dur_def Second_def by (rule i64_id) (auto simp: in_i64_def)

lemma Seconds_seconds_dur: "\<bar>n\<bar> \<le> 9223372036 \<Longrightarrow> Seconds (seconds_dur n) = n"
  by (simp add: seconds_dur_exact Seconds_whole)

text \<open>
  The rounding never adds more than two seconds to the whole ones, and less than a second gives
  zero.
\<close>

lemma round_half_even_bounds: "n div d \<le> round_half_even n d" "round_half_even n d \<le> n div d + 1"
  by (simp_all add: round_half_even_def Let_def)

lemma bit_length_le: "x < 2 ^ n \<Longrightarrow> bit_length x \<le> n"
proof (induction n arbitrary: x)
  case (Suc n)
  have "x div 2 < 2 ^ n" using Suc.prems by simp
  from Suc.IH[OF this] show ?case by (simp add: bit_length.simps[of x])
qed (simp add: bit_length.simps)

lemma div_billion:
  fixes a b :: int
  shows "a < 1000000000 * b \<Longrightarrow> a div 1000000000 < b"
    and "a \<le> 999999999 * b \<Longrightarrow> 2000000000 < b \<Longrightarrow> a div 1000000000 \<le> b - 2"
  by linarith+

lemma fraction_bounds:
  fixes n :: int
  assumes "0 \<le> n" and "n < 1000000000"
  shows "0 \<le> round_half_even (n * 2 ^ k) 1000000000" "round_half_even (n * 2 ^ k) 1000000000 \<le> 2 ^ k"
proof -
  have "0 \<le> n * 2 ^ k div 1000000000" using assms(1) by (simp add: pos_imp_zdiv_nonneg_iff)
  then show "0 \<le> round_half_even (n * 2 ^ k) 1000000000"
    using round_half_even_bounds(1)[of "n * 2 ^ k" 1000000000] by simp
  have "n * 2 ^ k < 1000000000 * 2 ^ k" using assms(2) by simp
  then have "n * 2 ^ k div 1000000000 < 2 ^ k" by (rule div_billion(1))
  then show "round_half_even (n * 2 ^ k) 1000000000 \<le> 2 ^ k"
    using round_half_even_bounds(2)[of "n * 2 ^ k" 1000000000] by simp
qed

lemma f64_sum_trunc_bounds:
  assumes "0 \<le> s" and "s < 17179869183" and "0 \<le> q" and "q \<le> 2 ^ k"
  shows "0 \<le> f64_sum_trunc s q k" "f64_sum_trunc s q k \<le> s + 2"
proof -
  define m where "m = s * 2 ^ k + q"
  define w where "w = bit_length (m div 2 ^ k)"
  have m: "0 \<le> m" "m \<le> (s + 1) * 2 ^ k" using assms by (simp_all add: m_def algebra_simps)
  have le: "m div 2 ^ k \<le> s + 1" using m(2) zdiv_mono1[OF m(2), of "2 ^ k"] by simp
  then have "m div 2 ^ k < 2 ^ 34" using assms(2) by simp
  then have "w \<le> 34" unfolding w_def by (rule bit_length_le)
  define D :: int where "D = 2 ^ (k + w - 53)"
  have "(2::int) ^ (k + w - 53) \<le> 2 ^ k" using \<open>w \<le> 34\<close> by (intro power_increasing) auto
  then have D: "0 < D" "D \<le> 2 ^ k" by (simp_all add: D_def)
  have "round_half_even m D * D \<le> (m div D + 1) * D"
    using round_half_even_bounds(2)[of m D] D(1) by (simp add: mult_right_mono)
  also have "\<dots> \<le> m + D" using D(1) by (simp add: algebra_simps minus_mod_eq_mult_div[symmetric])
  also have "\<dots> \<le> (s + 2) * 2 ^ k" using m(2) D(2) by (simp add: algebra_simps)
  finally have up: "round_half_even m D * D div 2 ^ k \<le> s + 2" using zdiv_mono1[of _ "(s + 2) * 2 ^ k" "2 ^ k"] by fastforce
  have "0 \<le> m div D" using m(1) D(1) by (simp add: pos_imp_zdiv_nonneg_iff)
  then have "0 \<le> round_half_even m D" using round_half_even_bounds(1)[of m D] by simp
  then have "0 \<le> round_half_even m D * D div 2 ^ k" using D(1) by (simp add: pos_imp_zdiv_nonneg_iff)
  with up le m(1) show "0 \<le> f64_sum_trunc s q k" "f64_sum_trunc s q k \<le> s + 2"
    by (simp_all add: f64_sum_trunc_def Let_def flip: m_def, simp_all add: pos_imp_zdiv_nonneg_iff flip: w_def D_def)
qed

lemma Seconds_bounds:
  assumes "0 \<le> d" and "d < 9223372036854775808"
  shows "0 \<le> Seconds d" "Seconds d \<le> d div 1000000000 + 2"
proof -
  let ?s = "d div 1000000000" and ?n = "d mod 1000000000"
  have s: "0 \<le> ?s" "?s < 17179869183" using assms by (simp_all add: pos_imp_zdiv_nonneg_iff)
  have n: "0 \<le> ?n" "?n < 1000000000" by simp_all
  note F = f64_sum_trunc_bounds[OF s fraction_bounds[OF n, of "f64_shift ?n"]]
  show "0 \<le> Seconds d" "Seconds d \<le> ?s + 2"
    using assms(1) s(1) F by (auto simp: Seconds_def abs_seconds_def Let_def)
qed

lemma Seconds_in_i64: "0 \<le> d \<Longrightarrow> d < 9223372036854775808 \<Longrightarrow> in_i64 (Seconds d)"
proof -
  assume d: "0 \<le> d" "d < 9223372036854775808"
  have "d div 1000000000 \<le> 9223372036854775807 div 1000000000" using d(2) by (intro zdiv_mono1) auto
  with Seconds_bounds[OF d] show ?thesis by (simp add: in_i64_def)
qed

lemma bit_length_0 [simp]: "bit_length 0 = 0"
  by (simp add: bit_length.simps)

lemma Seconds_below_one:
  assumes "0 \<le> d" and "d < 1000000000"
  shows "Seconds d = 0"
proof (cases "d = 0")
  case False
  define k where "k = f64_shift d"
  have "(52::nat) \<le> k" by (simp add: k_def f64_shift_def)
  then have big: "(1000000000::int) * 2 < 2 ^ k"
    using power_increasing[of 52 k "2::int"] by simp
  have "d * 2 ^ k \<le> 999999999 * 2 ^ k" using assms(2) by simp
  then have "d * 2 ^ k div 1000000000 \<le> (2 ^ k - 2)"
    using big by (intro div_billion(2)) simp_all
  then have "round_half_even (d * 2 ^ k) 1000000000 < 2 ^ k"
    using round_half_even_bounds(2)[of "d * 2 ^ k" 1000000000] by simp
  moreover have "0 \<le> round_half_even (d * 2 ^ k) 1000000000" using fraction_bounds(1)[OF assms] .
  ultimately have "f64_sum_trunc 0 (round_half_even (d * 2 ^ k) 1000000000) k = 0"
    by (simp add: f64_sum_trunc_def Let_def)
  with assms False show ?thesis by (simp add: Seconds_def abs_seconds_def Let_def k_def)
qed (simp add: Seconds_def abs_seconds_def)

end
