(* ===== verification/Cache.thy ===== *)
theory Cache
  imports Lru Go_Lib
begin

text \<open>
  The key-value store of \<open>internal/cache/cache.go\<close>: a map of items and a recency list, with the
  capacity, the memory account, the lock and the calls made to the metrics collector of
  \<open>internal/metrics/metrics.go\<close>.

  The theory shows that the store implements an abstract LRU cache with expiry (\<open>view\<close>: a finite
  map and the keys in recency order), that its pointers and its accounts stay consistent, and
  that the variants without locking do what the locking operations do.
\<close>

section \<open>The collector\<close>

text \<open>
  The calls to the methods of the collector, in the order they are made. The counters behind
  them belong to the Prometheus client library.
\<close>

datatype metric =
    RecordOperation string
  | RecordCacheHit
  | RecordCacheMiss
  | RecordOperationDuration duration
  | UpdateMemoryUsage int
  | UpdateItemsCount int
  | RecordEviction
  | RecordExpiration
  | IncrementActiveConnections
  | DecrementActiveConnections
  | UpdateReplicationLag int
  | UpdateConnectedFollowers int

section \<open>State\<close>

record CacheItem =
  "value" :: string
  expiresAt :: time
  node :: addr

text \<open>\<open>mu\<close>: the write lock is held. One goroutine runs at a time between lock and unlock.\<close>

record Cache =
  data :: "(string, CacheItem) gomap"
  lru :: LRU
  maxSize :: int
  mu :: bool
  metrics :: "metric list"
  currentMemoryBytes :: int

record SnapshotEntry =
  Value :: string
  ExpiresAt :: time

definition NewCache :: "int \<Rightarrow> metric list \<Rightarrow> Cache" where
  "NewCache maxSz metricsCollector =
     \<lparr>data = [], lru = New, maxSize = maxSz, mu = False, metrics = metricsCollector,
      currentMemoryBytes = 0\<rparr>"

text \<open>
  The lock. A goroutine that asks for the lock while it holds it waits for itself, so the call
  does not return.
\<close>

definition Lock :: "Cache \<Rightarrow> Cache option" where
  "Lock c = (if mu c then None else Some (c\<lparr>mu := True\<rparr>))"

definition Unlock :: "Cache \<Rightarrow> Cache" where
  "Unlock c = c\<lparr>mu := False\<rparr>"

definition RLock :: "Cache \<Rightarrow> Cache option" where
  "RLock c = (if mu c then None else Some c)"

definition record_metric :: "metric \<Rightarrow> Cache \<Rightarrow> Cache" where
  "record_metric e c = c\<lparr>metrics := metrics c @ [e]\<rparr>"

definition calculateItemSize :: "string \<Rightarrow> string \<Rightarrow> int" where
  "calculateItemSize k v =
     (let keySize = int (length k) + 16;
          valueSize = int (length v) + 16;
          overhead = 64
      in keySize + valueSize + overhead)"

definition add_memory :: "int \<Rightarrow> Cache \<Rightarrow> Cache" where
  "add_memory n c = c\<lparr>currentMemoryBytes := i64 (currentMemoryBytes c + n)\<rparr>"

definition report_size :: "Cache \<Rightarrow> Cache" where
  "report_size c =
     record_metric (UpdateMemoryUsage (currentMemoryBytes c))
       (record_metric (UpdateItemsCount (int (length (data c)))) c)"

text \<open>An item has expired: \<open>!expiresAt.IsZero() && now.After(expiresAt)\<close>.\<close>

definition expired :: "time \<Rightarrow> time \<Rightarrow> bool" where
  "expired now t \<longleftrightarrow> \<not> IsZero t \<and> t < now"

section \<open>Operations\<close>

text \<open>The eviction that \<open>Set\<close> and \<open>SetInternal\<close> perform when the cache is full.\<close>

definition evict :: "Cache \<Rightarrow> Cache option" where
  "evict c = do {
     (evictedKey, l) \<leftarrow> RemoveLRU (lru c);
     let c = c\<lparr>lru := l\<rparr>;
     let c = (case gget (data c) evictedKey of
                None \<Rightarrow> c
              | Some evictedItem \<Rightarrow>
                  record_metric RecordEviction
                    (add_memory (- calculateItemSize evictedKey (value evictedItem)) c));
     Some (c\<lparr>data := gdel evictedKey (data c)\<rparr>)
   }"

definition expiry :: "time \<Rightarrow> duration \<Rightarrow> time" where
  "expiry now ttl = (if ttl > 0 then now + ttl else 0)"

definition SetInternal :: "time \<Rightarrow> string \<Rightarrow> string \<Rightarrow> duration \<Rightarrow> Cache \<Rightarrow> Cache option" where
  "SetInternal now k v ttl c = do {
     let existing = gget (data c) k;
     let c = (case existing of
                None \<Rightarrow> c
              | Some existingItem \<Rightarrow> add_memory (- calculateItemSize k (value existingItem)) c);
     c \<leftarrow> (if existing = None \<and> int (length (data c)) \<ge> maxSize c then evict c else Some c);
     let expires = expiry now ttl;
     c \<leftarrow> (case existing of
            Some _ \<Rightarrow> do {
              item \<leftarrow> gget (data c) k;
              let item = item\<lparr>value := v, expiresAt := expires\<rparr>;
              l \<leftarrow> MoveToFront (node item) (lru c);
              Some (c\<lparr>data := gset k item (data c), lru := l\<rparr>)
            }
          | None \<Rightarrow> do {
              (n, l) \<leftarrow> Add k (lru c);
              Some (c\<lparr>lru := l, data := gset k \<lparr>value = v, expiresAt = expires, node = n\<rparr> (data c)\<rparr>)
            });
     let c = add_memory (calculateItemSize k v) c;
     Some (report_size (record_metric (RecordOperation ''set'') c))
   }"

definition GetInternal :: "time \<Rightarrow> string \<Rightarrow> Cache \<Rightarrow> (string option \<times> Cache) option" where
  "GetInternal now k c =
     (let c = record_metric (RecordOperation ''get'') c
      in case gget (data c) k of
           None \<Rightarrow> Some (None, record_metric RecordCacheMiss c)
         | Some item \<Rightarrow>
             if expired now (expiresAt item)
             then Some (None, record_metric RecordExpiration (record_metric RecordCacheMiss c))
             else do {
               let c = record_metric RecordCacheHit c;
               l \<leftarrow> MoveToFront (node item) (lru c);
               Some (Some (value item), c\<lparr>lru := l\<rparr>)
             })"

definition DeleteInternal :: "string \<Rightarrow> Cache \<Rightarrow> Cache option" where
  "DeleteInternal k c =
     (case gget (data c) k of
        None \<Rightarrow> Some (record_metric (RecordOperation ''delete'') c)
      | Some item \<Rightarrow> do {
          let c = add_memory (- calculateItemSize k (value item)) c;
          l \<leftarrow> RemoveNode (node item) (lru c);
          let c = c\<lparr>lru := l, data := gdel k (data c)\<rparr>;
          Some (report_size (record_metric (RecordOperation ''delete'') c))
        })"

text \<open>
  \<open>Set\<close>, \<open>Get\<close> and \<open>Delete\<close> take the lock, run through the same statements and release the
  lock on every return.
\<close>

definition Set :: "time \<Rightarrow> string \<Rightarrow> string \<Rightarrow> duration \<Rightarrow> Cache \<Rightarrow> Cache option" where
  "Set now k v ttl c = do {
     c \<leftarrow> Lock c;
     let existing = gget (data c) k;
     let c = (case existing of
                None \<Rightarrow> c
              | Some existingItem \<Rightarrow> add_memory (- calculateItemSize k (value existingItem)) c);
     c \<leftarrow> (if existing = None \<and> int (length (data c)) \<ge> maxSize c then evict c else Some c);
     let expires = expiry now ttl;
     c \<leftarrow> (case existing of
            Some _ \<Rightarrow> do {
              item \<leftarrow> gget (data c) k;
              let item = item\<lparr>value := v, expiresAt := expires\<rparr>;
              l \<leftarrow> MoveToFront (node item) (lru c);
              Some (c\<lparr>data := gset k item (data c), lru := l\<rparr>)
            }
          | None \<Rightarrow> do {
              (n, l) \<leftarrow> Add k (lru c);
              Some (c\<lparr>lru := l, data := gset k \<lparr>value = v, expiresAt = expires, node = n\<rparr> (data c)\<rparr>)
            });
     let c = add_memory (calculateItemSize k v) c;
     Some (Unlock (report_size (record_metric (RecordOperation ''set'') c)))
   }"

definition Get :: "time \<Rightarrow> string \<Rightarrow> Cache \<Rightarrow> (string option \<times> Cache) option" where
  "Get now k c = do {
     c \<leftarrow> Lock c;
     let c = record_metric (RecordOperation ''get'') c;
     (case gget (data c) k of
        None \<Rightarrow> Some (None, Unlock (record_metric RecordCacheMiss c))
      | Some item \<Rightarrow>
          if expired now (expiresAt item)
          then Some (None, Unlock (record_metric RecordExpiration (record_metric RecordCacheMiss c)))
          else do {
            let c = record_metric RecordCacheHit c;
            l \<leftarrow> MoveToFront (node item) (lru c);
            Some (Some (value item), Unlock (c\<lparr>lru := l\<rparr>))
          })
   }"

definition Delete :: "string \<Rightarrow> Cache \<Rightarrow> Cache option" where
  "Delete k c = do {
     c \<leftarrow> Lock c;
     (case gget (data c) k of
        None \<Rightarrow> Some (Unlock (record_metric (RecordOperation ''delete'') c))
      | Some item \<Rightarrow> do {
          let c = add_memory (- calculateItemSize k (value item)) c;
          l \<leftarrow> RemoveNode (node item) (lru c);
          let c = c\<lparr>lru := l, data := gdel k (data c)\<rparr>;
          Some (Unlock (report_size (record_metric (RecordOperation ''delete'') c)))
        })
   }"

definition Snapshot :: "Cache \<Rightarrow> ((string, SnapshotEntry) gomap \<times> Cache) option" where
  "Snapshot c = do {
     c \<leftarrow> Lock c;
     let snapshot = map (\<lambda>(k, v). (k, \<lparr>Value = value v, ExpiresAt = expiresAt v\<rparr>)) (data c);
     Some (snapshot, Unlock c)
   }"

text \<open>
  \<open>ord\<close> is the order in which the loop visits the items. An item that is deleted was the one
  just visited, so the loop visits every item once.
\<close>

definition cleanup_one ::
    "time \<Rightarrow> string \<times> CacheItem \<Rightarrow> nat \<times> Cache \<Rightarrow> (nat \<times> Cache) option" where
  "cleanup_one now = (\<lambda>(k, item) (expiredCount, c).
     if expired now (expiresAt item)
     then do {
       let c = add_memory (- calculateItemSize k (value item)) c;
       l \<leftarrow> RemoveNode (node item) (lru c);
       let c = c\<lparr>lru := l, data := gdel k (data c)\<rparr>;
       Some (Suc expiredCount, record_metric RecordExpiration c)
     }
     else Some (expiredCount, c))"

definition CleanupExpired ::
    "(string, CacheItem) gomap \<Rightarrow> time \<Rightarrow> Cache \<Rightarrow> (nat \<times> Cache) option" where
  "CleanupExpired ord now c = do {
     c \<leftarrow> Lock c;
     (expiredCount, c) \<leftarrow> foreach (cleanup_one now) ord (0, c);
     let c = (if expiredCount > 0 then report_size c else c);
     Some (expiredCount, Unlock c)
   }"

definition GetAllKeys :: "(string, CacheItem) gomap \<Rightarrow> Cache \<Rightarrow> string list option" where
  "GetAllKeys ord c = do {
     _ \<leftarrow> RLock c;
     Some (map fst ord)
   }"

lemmas cache_small_defs = add_memory_def record_metric_def report_size_def Lock_def Unlock_def RLock_def

section \<open>Consistency of map and recency list\<close>

text \<open>The items point to the nodes of the list, and the nodes carry the keys of the items.\<close>

definition links :: "(string \<Rightarrow> CacheItem option) \<Rightarrow> (addr \<Rightarrow> string) \<Rightarrow> addr list \<Rightarrow> bool" where
  "links m kf as \<longleftrightarrow>
     (\<forall>k i. m k = Some i \<longrightarrow> node i \<in> set as \<and> kf (node i) = k) \<and>
     (\<forall>a \<in> set as. \<exists>i. m (kf a) = Some i \<and> node i = a)"

lemma linksI:
  assumes "\<And>k i. m k = Some i \<Longrightarrow> node i \<in> set as \<and> kf (node i) = k"
    and "\<And>a. a \<in> set as \<Longrightarrow> \<exists>i. m (kf a) = Some i \<and> node i = a"
  shows "links m kf as"
  using assms by (simp add: links_def)

lemma links_item: "links m kf as \<Longrightarrow> m k = Some i \<Longrightarrow> node i \<in> set as \<and> kf (node i) = k"
  by (simp add: links_def)

lemma links_node: "links m kf as \<Longrightarrow> a \<in> set as \<Longrightarrow> \<exists>i. m (kf a) = Some i \<and> node i = a"
  by (simp add: links_def)

lemma links_inj: "links m kf as \<Longrightarrow> inj_on kf (set as)"
  by (rule inj_onI) (metis links_node option.inject)

lemma links_dom: "links m kf as \<Longrightarrow> dom m = kf ` set as"
  by (force dest: links_item links_node)

lemma links_cong:
  assumes "\<And>a. a \<in> set as \<Longrightarrow> kf' a = kf a" and "links m kf as"
  shows "links m kf' as"
  by (rule linksI) (use assms links_item[OF assms(2)] links_node[OF assms(2)] in simp_all)

lemma links_perm: "set bs = set as \<Longrightarrow> links m kf as \<Longrightarrow> links m kf bs"
  by (simp add: links_def)

lemma links_upd:
  assumes "links m kf as" and "m k = Some i" and "node i' = node i"
  shows "links (m(k \<mapsto> i')) kf as"
proof (rule linksI)
  fix k' j
  assume "(m(k \<mapsto> i')) k' = Some j"
  then show "node j \<in> set as \<and> kf (node j) = k'"
    using assms links_item[OF assms(1)] by (cases "k' = k") auto
next
  fix a
  assume "a \<in> set as"
  then show "\<exists>j. (m(k \<mapsto> i')) (kf a) = Some j \<and> node j = a"
    using assms links_node[OF assms(1)] by (cases "kf a = k") fastforce+
qed

lemma links_new:
  "links m kf as \<Longrightarrow> m k = None \<Longrightarrow> node i \<notin> set as \<Longrightarrow> kf (node i) = k \<Longrightarrow>
   links (m(k \<mapsto> i)) kf (node i # as)"
  by (rule linksI) (auto dest: links_item links_node split: if_splits)

lemma links_del:
  assumes "links m kf as" and "m k = Some i" and "distinct as"
  shows "links (m(k := None)) kf (remove1 (node i) as)"
proof (rule linksI)
  fix k' j
  assume j: "(m(k := None)) k' = Some j"
  then have kj: "k' \<noteq> k" "m k' = Some j" by (auto split: if_splits)
  have "kf (node j) \<noteq> kf (node i)"
    using links_item[OF assms(1) kj(2)] links_item[OF assms(1,2)] kj(1) by simp
  then show "node j \<in> set (remove1 (node i) as) \<and> kf (node j) = k'"
    using links_item[OF assms(1) kj(2)] assms(3) by (auto simp: set_remove1_eq)
next
  fix a
  assume "a \<in> set (remove1 (node i) as)"
  then have a: "a \<in> set as" "a \<noteq> node i" using assms(3) by (auto simp: set_remove1_eq)
  then have "kf a \<noteq> k"
    using links_node[OF assms(1) a(1)] assms(2) by auto
  then show "\<exists>j. (m(k := None)) (kf a) = Some j \<and> node j = a"
    using links_node[OF assms(1) a(1)] by simp
qed

lemma map_remove1_inj:
  "inj_on f (set xs) \<Longrightarrow> a \<in> set xs \<Longrightarrow> map f (remove1 a xs) = remove1 (f a) (map f xs)"
  by (induction xs) (auto simp: inj_on_def)

lemma butlast_remove1: "distinct xs \<Longrightarrow> xs \<noteq> [] \<Longrightarrow> butlast xs = remove1 (last xs) xs"
  by (cases xs rule: rev_cases) (auto simp: remove1_append)

definition memory_of :: "(string \<Rightarrow> CacheItem option) \<Rightarrow> int" where
  "memory_of m = msum (\<lambda>k i. calculateItemSize k (value i)) m"

definition cache_ok :: "Cache \<Rightarrow> addr list \<Rightarrow> bool" where
  "cache_ok c as \<longleftrightarrow>
     gmap_ok (data c) \<and> lru_list (lru c) as \<and> links (gget (data c)) (key_at (lru c)) as \<and>
     currentMemoryBytes c = i64 (memory_of (gget (data c)))"

section \<open>The abstract cache\<close>

text \<open>A finite map from keys to values with expiry times, and the keys, last used first.\<close>

type_synonym view = "(string \<Rightarrow> (string \<times> time) option) \<times> string list"

definition spec_set :: "int \<Rightarrow> time \<Rightarrow> string \<Rightarrow> string \<Rightarrow> duration \<Rightarrow> view \<Rightarrow> view" where
  "spec_set cap now k v ttl = (\<lambda>(m, ks).
     let e = (v, expiry now ttl)
     in if k \<in> set ks then (m(k \<mapsto> e), k # remove1 k ks)
        else if int (length ks) \<ge> cap \<and> ks \<noteq> [] then (m(last ks := None, k \<mapsto> e), k # butlast ks)
        else (m(k \<mapsto> e), k # ks))"

definition spec_get :: "time \<Rightarrow> string \<Rightarrow> view \<Rightarrow> string option \<times> view" where
  "spec_get now k = (\<lambda>(m, ks).
     case m k of
       None \<Rightarrow> (None, (m, ks))
     | Some (v, t) \<Rightarrow>
         if expired now t then (None, (m, ks)) else (Some v, (m, k # remove1 k ks)))"

definition spec_delete :: "string \<Rightarrow> view \<Rightarrow> view" where
  "spec_delete k = (\<lambda>(m, ks). (m(k := None), remove1 k ks))"

definition live :: "time \<Rightarrow> (string \<Rightarrow> (string \<times> time) option) \<Rightarrow> string \<Rightarrow> bool" where
  "live now m k \<longleftrightarrow> (case m k of None \<Rightarrow> False | Some (v, t) \<Rightarrow> \<not> expired now t)"

definition spec_cleanup :: "time \<Rightarrow> view \<Rightarrow> view" where
  "spec_cleanup now = (\<lambda>(m, ks).
     ((\<lambda>k. if live now m k then m k else None), filter (live now m) ks))"

text \<open>What a cache stands for.\<close>

definition entries :: "Cache \<Rightarrow> string \<Rightarrow> (string \<times> time) option" where
  "entries c k = map_option (\<lambda>i. (value i, expiresAt i)) (gget (data c) k)"

definition represents :: "Cache \<Rightarrow> view \<Rightarrow> bool" where
  "represents c V \<longleftrightarrow>
     (\<exists>as. cache_ok c as \<and> V = (entries c, map (key_at (lru c)) as))"

lemma representsE:
  assumes "represents c (m, ks)"
  obtains as where "cache_ok c as" "m = entries c" "ks = map (key_at (lru c)) as"
  using assms by (auto simp: represents_def)

lemma representsI: "cache_ok c as \<Longrightarrow> m = entries c \<Longrightarrow> ks = map (key_at (lru c)) as \<Longrightarrow> represents c (m, ks)"
  by (auto simp: represents_def)

lemma entries_dom: "dom (entries c) = dom (gget (data c))"
  by (auto simp: entries_def dom_def)

lemma cache_ok_keys:
  assumes "cache_ok c as"
  shows "set (map (key_at (lru c)) as) = dom (entries c)" "distinct (map (key_at (lru c)) as)"
    "length as = length (data c)"
proof -
  have l: "links (gget (data c)) (key_at (lru c)) as" and d: "distinct as"
    using assms by (auto simp: cache_ok_def lru_list_def)
  show 1: "set (map (key_at (lru c)) as) = dom (entries c)"
    using links_dom[OF l] by (simp add: entries_dom)
  show 2: "distinct (map (key_at (lru c)) as)"
    using links_inj[OF l] d by (simp add: distinct_map)
  have "length as = card (dom (gget (data c)))"
    using distinct_card[OF 2] 1 by (simp add: entries_dom)
  then show "length as = length (data c)"
    using assms by (simp add: cache_ok_def gmap_len)
qed

section \<open>The steps of the operations\<close>

lemma cache_ok_irrelevant [simp]:
  "cache_ok (c\<lparr>mu := b\<rparr>) as = cache_ok c as" "cache_ok (c\<lparr>metrics := ms\<rparr>) as = cache_ok c as"
  by (simp_all add: cache_ok_def)

lemma record_metric_simps [simp]:
  "cache_ok (record_metric e c) as = cache_ok c as" "data (record_metric e c) = data c"
  "lru (record_metric e c) = lru c" "maxSize (record_metric e c) = maxSize c"
  "mu (record_metric e c) = mu c" "currentMemoryBytes (record_metric e c) = currentMemoryBytes c"
  "entries (record_metric e c) = entries c"
  by (simp_all add: record_metric_def fun_eq_iff entries_def)

lemma report_size_simps [simp]:
  "cache_ok (report_size c) as = cache_ok c as" "data (report_size c) = data c"
  "lru (report_size c) = lru c" "maxSize (report_size c) = maxSize c" "mu (report_size c) = mu c"
  "entries (report_size c) = entries c"
  by (simp_all add: report_size_def)

lemma Unlock_simps [simp]:
  "cache_ok (Unlock c) as = cache_ok c as" "data (Unlock c) = data c" "lru (Unlock c) = lru c"
  "maxSize (Unlock c) = maxSize c" "\<not> mu (Unlock c)" "metrics (Unlock c) = metrics c"
  "entries (Unlock c) = entries c"
  by (simp_all add: Unlock_def fun_eq_iff entries_def)

lemma add_memory_simps [simp]:
  "data (add_memory n c) = data c" "lru (add_memory n c) = lru c"
  "maxSize (add_memory n c) = maxSize c" "mu (add_memory n c) = mu c"
  "metrics (add_memory n c) = metrics c"
  "currentMemoryBytes (add_memory n c) = i64 (currentMemoryBytes c + n)"
  by (simp_all add: add_memory_def)

lemma fin_data [simp]: "finite (dom (gget (data c)))"
  by (rule finite_dom_map_of)

text \<open>Taking an item out: \<open>Delete\<close>, \<open>CleanupExpired\<close> and the eviction.\<close>

lemma drop_item:
  assumes ok: "cache_ok c as" and item: "gget (data c) k = Some i"
    and l: "lru_list l (remove1 (node i) as)" "same_keys (lru c) l"
    and c': "data c' = gdel k (data c)" "lru c' = l"
      "currentMemoryBytes c' = i64 (currentMemoryBytes c - calculateItemSize k (value i))"
  shows "cache_ok c' (remove1 (node i) as)"
    and "map (key_at l) (remove1 (node i) as) = remove1 k (map (key_at (lru c)) as)"
proof -
  have li: "links (gget (data c)) (key_at (lru c)) as" and la: "lru_list (lru c) as"
    using ok by (auto simp: cache_ok_def)
  have ka: "key_at l a = key_at (lru c) a" if "a \<in> set as" for a
    using l(2) la that by (auto simp: same_keys_def lru_list_def)
  have "links ((gget (data c))(k := None)) (key_at l) (remove1 (node i) as)"
    using ka links_del[OF li item] la by (intro links_cong[of _ "key_at l" "key_at (lru c)"])
      (auto simp: lru_list_def dest: notin_set_remove1)
  moreover have "i64 (currentMemoryBytes c - calculateItemSize k (value i)) =
      i64 (memory_of ((gget (data c))(k := None)))"
    using ok msum_del[OF fin_data item, of "\<lambda>k i. calculateItemSize k (value i)"]
    by (simp add: cache_ok_def memory_of_def i64_diff_left)
  ultimately show "cache_ok c' (remove1 (node i) as)"
    using ok l by (simp add: cache_ok_def c' gget_gdel gmap_ok_gdel)
  have "map (key_at l) (remove1 (node i) as) = map (key_at (lru c)) (remove1 (node i) as)"
    using ka by (auto dest: notin_set_remove1)
  also have "\<dots> = remove1 (key_at (lru c) (node i)) (map (key_at (lru c)) as)"
    using links_inj[OF li] links_item[OF li item] by (intro map_remove1_inj) auto
  finally show "map (key_at l) (remove1 (node i) as) = remove1 k (map (key_at (lru c)) as)"
    using links_item[OF li item] by simp
qed

text \<open>Using an item: \<open>Get\<close> and the update of an existing key.\<close>

lemma touch_item:
  assumes ok: "cache_ok c as" and item: "gget (data c) k = Some i"
  shows "\<exists>l. MoveToFront (node i) (lru c) = Some l \<and> lru_list l (node i # remove1 (node i) as) \<and>
    links (gget (data c)) (key_at l) (node i # remove1 (node i) as) \<and>
    map (key_at l) (node i # remove1 (node i) as) = k # remove1 k (map (key_at (lru c)) as)"
proof -
  have li: "links (gget (data c)) (key_at (lru c)) as" and la: "lru_list (lru c) as"
    using ok by (auto simp: cache_ok_def)
  have in_as: "node i \<in> set as" "key_at (lru c) (node i) = k" using links_item[OF li item] by auto
  obtain l where l: "MoveToFront (node i) (lru c) = Some l" "lru_list l (node i # remove1 (node i) as)"
    "same_keys (lru c) l"
    using MoveToFront_ok[OF la in_as(1)] by auto
  have ka: "key_at l a = key_at (lru c) a" if "a \<in> set as" for a
    using l(3) la that by (auto simp: same_keys_def lru_list_def)
  have set: "set (node i # remove1 (node i) as) = set as"
    by (rule lru.touch_keeps[OF la in_as(1)])
  have "links (gget (data c)) (key_at l) (node i # remove1 (node i) as)"
    using ka links_perm[OF set li] set by (intro links_cong[of _ "key_at l" "key_at (lru c)"]) auto
  moreover have "map (key_at l) (remove1 (node i) as) = remove1 k (map (key_at (lru c)) as)"
    using ka map_remove1_inj[OF links_inj[OF li] in_as(1)] in_as(2)
    by (metis (mono_tags, lifting) map_cong notin_set_remove1)
  ultimately show ?thesis using l ka in_as by auto
qed

lemma evict_ok:
  assumes ok: "cache_ok c as" and ne: "as \<noteq> []"
  shows "\<exists>c' as'. evict c = Some c' \<and> cache_ok c' as' \<and> maxSize c' = maxSize c \<and> mu c' = mu c \<and>
    map (key_at (lru c')) as' = butlast (map (key_at (lru c)) as) \<and>
    entries c' = (entries c)(last (map (key_at (lru c)) as) := None)"
proof -
  let ?a = "last as" and ?k = "key_at (lru c) (last as)"
  have li: "links (gget (data c)) (key_at (lru c)) as" and la: "lru_list (lru c) as"
    using ok by (auto simp: cache_ok_def)
  obtain i where i: "gget (data c) ?k = Some i" "node i = ?a"
    using links_node[OF li, of ?a] ne by auto
  obtain l where l: "RemoveLRU (lru c) = Some (?k, l)" "lru_list l (butlast as)" "same_keys (lru c) l"
    using RemoveLRU_ok[OF la] ne by auto
  have bl: "butlast as = remove1 (node i) as"
    using butlast_remove1[of as] la ne i(2) by (simp add: lru_list_def)
  define c' where "c' = record_metric RecordEviction (add_memory (- calculateItemSize ?k (value i)) (c\<lparr>lru := l\<rparr>))
      \<lparr>data := gdel ?k (data c)\<rparr>"
  have ev: "evict c = Some c'"
    using l(1) i(1) by (simp add: evict_def c'_def)
  have c': "data c' = gdel ?k (data c)" "lru c' = l"
    "currentMemoryBytes c' = i64 (currentMemoryBytes c - calculateItemSize ?k (value i))"
    "maxSize c' = maxSize c" "mu c' = mu c"
    by (simp_all add: c'_def)
  note d = drop_item[OF ok i(1) l(2)[unfolded bl] l(3) c'(1,2,3)]
  have "remove1 ?k (map (key_at (lru c)) as) = butlast (map (key_at (lru c)) as)"
    using d(2) bl l(3) la map_remove1_inj[OF links_inj[OF li], of ?a] i(2) ne
    by (metis last_in_set map_butlast)
  then show ?thesis
    using ev d c' ne by (auto simp: entries_def gget_gdel last_map fun_eq_iff)
qed

text \<open>Inserting a key that is not there, after the room for it was made.\<close>

lemma insert_item:
  assumes ok: "cache_ok c as" and new: "gget (data c) k = None"
  shows "\<exists>n l. Add k (lru c) = Some (n, l) \<and>
    (\<forall>i c'. node i = n \<longrightarrow> data c' = gset k i (data c) \<longrightarrow> lru c' = l \<longrightarrow>
       currentMemoryBytes c' = i64 (currentMemoryBytes c + calculateItemSize k (value i)) \<longrightarrow>
       cache_ok c' (n # as)) \<and>
    map (key_at l) (n # as) = k # map (key_at (lru c)) as"
proof -
  have li: "links (gget (data c)) (key_at (lru c)) as" and la: "lru_list (lru c) as"
    using ok by (auto simp: cache_ok_def)
  let ?n = "brk (lru c)"
  obtain l where l: "Add k (lru c) = Some (?n, l)" "lru_list l (?n # as)" "same_keys (lru c) l"
    "key_at l ?n = k"
    using Add_ok[OF la] by blast
  have ka: "key_at l a = key_at (lru c) a" if "a \<in> set as" for a
    using l(3) la that by (auto simp: same_keys_def lru_list_def)
  have lk: "links (gget (data c)) (key_at l) as"
    using ka li by (rule links_cong)
  have "cache_ok c' (?n # as)" if "node i = ?n" "data c' = gset k i (data c)" "lru c' = l"
    "currentMemoryBytes c' = i64 (currentMemoryBytes c + calculateItemSize k (value i))" for i c'
  proof -
    have "links ((gget (data c))(k \<mapsto> i)) (key_at l) (?n # as)"
      using links_new[OF lk new, of i] that(1) l(2,4) by (simp add: lru_list_def)
    moreover have "currentMemoryBytes c' = i64 (memory_of ((gget (data c))(k \<mapsto> i)))"
      using ok that(4) msum_upd_new[OF fin_data new, of "\<lambda>k i. calculateItemSize k (value i)"]
      by (simp add: cache_ok_def memory_of_def i64_add_left)
    ultimately show ?thesis
      using ok that l(2) by (simp add: cache_ok_def gget_gset gmap_ok_gset)
  qed
  with l ka show ?thesis by auto
qed

text \<open>Overwriting the value of a key that is there.\<close>

lemma overwrite_item:
  assumes ok: "cache_ok c as" and item: "gget (data c) k = Some i"
  shows "\<exists>l. MoveToFront (node i) (lru c) = Some l \<and>
    (\<forall>i' c'. node i' = node i \<longrightarrow> data c' = gset k i' (data c) \<longrightarrow> lru c' = l \<longrightarrow>
       currentMemoryBytes c' = i64 (currentMemoryBytes c - calculateItemSize k (value i)
         + calculateItemSize k (value i')) \<longrightarrow>
       cache_ok c' (node i # remove1 (node i) as)) \<and>
    map (key_at l) (node i # remove1 (node i) as) = k # remove1 k (map (key_at (lru c)) as)"
proof -
  obtain l where l: "MoveToFront (node i) (lru c) = Some l" "lru_list l (node i # remove1 (node i) as)"
    "links (gget (data c)) (key_at l) (node i # remove1 (node i) as)"
    "map (key_at l) (node i # remove1 (node i) as) = k # remove1 k (map (key_at (lru c)) as)"
    using touch_item[OF ok item] by (elim exE conjE) (rule that)
  have "cache_ok c' (node i # remove1 (node i) as)"
    if "node i' = node i" "data c' = gset k i' (data c)" "lru c' = l"
    "currentMemoryBytes c' = i64 (currentMemoryBytes c - calculateItemSize k (value i)
         + calculateItemSize k (value i'))" for i' c'
  proof -
    have "currentMemoryBytes c' = i64 (memory_of ((gget (data c))(k \<mapsto> i')))"
      using ok that(4) msum_upd_old[OF fin_data item, of "\<lambda>k i. calculateItemSize k (value i)"]
      by (simp add: cache_ok_def memory_of_def i64_diff_add_left)
    then show ?thesis
      using ok that l(2) links_upd[OF l(3) item that(1)]
      by (simp add: cache_ok_def gget_gset gmap_ok_gset)
  qed
  with l show ?thesis by auto
qed

section \<open>The operations implement the abstract cache\<close>

lemma SetInternal_old:
  assumes ok: "cache_ok c as" and item: "gget (data c) k = Some i"
  shows "\<exists>c'. SetInternal now k v ttl c = Some c' \<and>
    represents c' ((entries c)(k \<mapsto> (v, expiry now ttl)), k # remove1 k (map (key_at (lru c)) as)) \<and>
    maxSize c' = maxSize c \<and> mu c' = mu c"
proof -
  let ?i = "i\<lparr>value := v, expiresAt := expiry now ttl\<rparr>"
  obtain l where l: "MoveToFront (node i) (lru c) = Some l" and
    step: "\<forall>i' c'. node i' = node i \<longrightarrow> data c' = gset k i' (data c) \<longrightarrow> lru c' = l \<longrightarrow>
       currentMemoryBytes c' = i64 (currentMemoryBytes c - calculateItemSize k (value i)
         + calculateItemSize k (value i')) \<longrightarrow>
       cache_ok c' (node i # remove1 (node i) as)" and
    ks: "map (key_at l) (node i # remove1 (node i) as) = k # remove1 k (map (key_at (lru c)) as)"
    using overwrite_item[OF ok item] by (elim exE conjE) (rule that)
  define c' where "c' = report_size (record_metric (RecordOperation ''set'')
    (add_memory (calculateItemSize k v)
      (add_memory (- calculateItemSize k (value i)) c\<lparr>data := gset k ?i (data c), lru := l\<rparr>)))"
  have run: "SetInternal now k v ttl c = Some c'"
    using item l by (simp add: SetInternal_def c'_def)
  have "cache_ok (add_memory (calculateItemSize k v)
      (add_memory (- calculateItemSize k (value i)) c\<lparr>data := gset k ?i (data c), lru := l\<rparr>))
      (node i # remove1 (node i) as)"
    by (rule step[rule_format, where i' = ?i]) (simp_all add: i64_add_left)
  then have "cache_ok c' (node i # remove1 (node i) as)"
    by (simp add: c'_def)
  then have "represents c' ((entries c)(k \<mapsto> (v, expiry now ttl)), k # remove1 k (map (key_at (lru c)) as))"
    using ks by (rule_tac representsI) (auto simp: c'_def entries_def gget_gset)
  then show ?thesis using run by (simp add: c'_def)
qed

lemma represents_irrelevant [simp]:
  "represents (record_metric e c) V = represents c V" "represents (report_size c) V = represents c V"
  "represents (Unlock c) V = represents c V" "represents (c\<lparr>mu := b\<rparr>) V = represents c V"
  by (simp_all add: represents_def entries_def[abs_def])

lemma SetInternal_insert:
  assumes ok: "cache_ok c as" and new: "gget (data c) k = None"
  obtains n l where "Add k (lru c) = Some (n, l)"
    "represents (add_memory (calculateItemSize k v)
        (c\<lparr>lru := l, data := gset k \<lparr>value = v, expiresAt = e, node = n\<rparr> (data c)\<rparr>))
      ((entries c)(k \<mapsto> (v, e)), k # map (key_at (lru c)) as)"
proof -
  obtain n l where l: "Add k (lru c) = Some (n, l)" and
    step: "\<forall>i c'. node i = n \<longrightarrow> data c' = gset k i (data c) \<longrightarrow> lru c' = l \<longrightarrow>
       currentMemoryBytes c' = i64 (currentMemoryBytes c + calculateItemSize k (value i)) \<longrightarrow>
       cache_ok c' (n # as)" and
    ks: "map (key_at l) (n # as) = k # map (key_at (lru c)) as"
    using insert_item[OF ok new] by (elim exE conjE) (rule that)
  let ?c = "add_memory (calculateItemSize k v)
      (c\<lparr>lru := l, data := gset k \<lparr>value = v, expiresAt = e, node = n\<rparr> (data c)\<rparr>)"
  have "cache_ok ?c (n # as)"
    by (rule step[rule_format, where i = "\<lparr>value = v, expiresAt = e, node = n\<rparr>"]) simp_all
  then have "represents ?c ((entries c)(k \<mapsto> (v, e)), k # map (key_at (lru c)) as)"
    using ks by (rule_tac representsI) (auto simp: entries_def gget_gset)
  with l show ?thesis by (rule that)
qed

lemma SetInternal_refines:
  assumes "represents c V"
  shows "\<exists>c'. SetInternal now k v ttl c = Some c' \<and> represents c' (spec_set (maxSize c) now k v ttl V) \<and>
    maxSize c' = maxSize c \<and> mu c' = mu c"
proof -
  obtain m ks where V: "V = (m, ks)" by (cases V)
  obtain as where ok: "cache_ok c as" and m: "m = entries c" and ks: "ks = map (key_at (lru c)) as"
    using representsE assms V by metis
  have kin: "k \<in> set ks \<longleftrightarrow> gget (data c) k \<noteq> None" and len: "length ks = length (data c)"
    using cache_ok_keys[OF ok] by (simp_all add: ks entries_dom domIff)
  show ?thesis
  proof (cases "gget (data c) k")
    case (Some i)
    with SetInternal_old[OF ok Some, of now v ttl] kin show ?thesis
      by (auto simp: V spec_set_def m ks Let_def)
  next
    case None
    show ?thesis
    proof (cases "int (length (data c)) \<ge> maxSize c \<and> as \<noteq> []")
      case True
      obtain c1 as1 where c1: "evict c = Some c1" "cache_ok c1 as1" "maxSize c1 = maxSize c" "mu c1 = mu c"
        "map (key_at (lru c1)) as1 = butlast ks" "entries c1 = (entries c)(last ks := None)"
        using evict_ok[OF ok] True ks by blast
      have "entries c1 k = None"
        using None c1(6) by (simp add: entries_def)
      then have "gget (data c1) k = None" by (simp add: entries_def)
      then obtain n l where "Add k (lru c1) = Some (n, l)" "represents (add_memory (calculateItemSize k v)
          (c1\<lparr>lru := l, data := gset k \<lparr>value = v, expiresAt = expiry now ttl, node = n\<rparr> (data c1)\<rparr>))
        ((entries c1)(k \<mapsto> (v, expiry now ttl)), k # map (key_at (lru c1)) as1)"
        using SetInternal_insert[OF c1(2)] by metis
      with True None c1 kin len show ?thesis
        by (auto simp: SetInternal_def V spec_set_def m ks)
    next
      case False
      have "evict c = Some c" if "as = []"
        using ok that cache_ok_keys(3)[OF ok]
        by (auto simp: evict_def cache_ok_def RemoveLRU_def lru_list_def)
      then have "(if int (length (data c)) \<ge> maxSize c then evict c else Some c) = Some c"
        using False by auto
      moreover obtain n l where "Add k (lru c) = Some (n, l)" "represents (add_memory (calculateItemSize k v)
          (c\<lparr>lru := l, data := gset k \<lparr>value = v, expiresAt = expiry now ttl, node = n\<rparr> (data c)\<rparr>))
        ((entries c)(k \<mapsto> (v, expiry now ttl)), k # map (key_at (lru c)) as)"
        using SetInternal_insert[OF ok None] by metis
      ultimately show ?thesis
        using False None kin len by (auto simp: SetInternal_def V spec_set_def m ks)
    qed
  qed
qed

lemma GetInternal_refines:
  assumes "represents c V"
  shows "\<exists>c'. GetInternal now k c = Some (fst (spec_get now k V), c') \<and>
    represents c' (snd (spec_get now k V)) \<and> maxSize c' = maxSize c \<and> mu c' = mu c"
proof -
  obtain m ks where V: "V = (m, ks)" by (cases V)
  obtain as where ok: "cache_ok c as" and m: "m = entries c" and ks: "ks = map (key_at (lru c)) as"
    using representsE assms V by metis
  show ?thesis
  proof (cases "gget (data c) k")
    case None
    with assms V m show ?thesis by (simp add: GetInternal_def spec_get_def entries_def)
  next
    case (Some i)
    show ?thesis
    proof (cases "expired now (expiresAt i)")
      case True
      with Some assms V m show ?thesis by (simp add: GetInternal_def spec_get_def entries_def)
    next
      case False
      obtain l where l: "MoveToFront (node i) (lru c) = Some l" "lru_list l (node i # remove1 (node i) as)"
        "links (gget (data c)) (key_at l) (node i # remove1 (node i) as)"
        "map (key_at l) (node i # remove1 (node i) as) = k # remove1 k (map (key_at (lru c)) as)"
        using touch_item[OF ok Some] by (elim exE conjE) (rule that)
      have "represents (c\<lparr>metrics := ms, lru := l\<rparr>) (m, k # remove1 k ks)" for ms
        by (rule representsI[of _ "node i # remove1 (node i) as"])
          (use ok l m ks in \<open>auto simp: cache_ok_def entries_def\<close>)
      with Some False l(1) V m show ?thesis
        by (simp add: GetInternal_def spec_get_def entries_def record_metric_def)
    qed
  qed
qed

lemma DeleteInternal_refines:
  assumes "represents c V"
  shows "\<exists>c'. DeleteInternal k c = Some c' \<and> represents c' (spec_delete k V) \<and>
    maxSize c' = maxSize c \<and> mu c' = mu c"
proof -
  obtain m ks where V: "V = (m, ks)" by (cases V)
  obtain as where ok: "cache_ok c as" and m: "m = entries c" and ks: "ks = map (key_at (lru c)) as"
    using representsE assms V by metis
  show ?thesis
  proof (cases "gget (data c) k")
    case None
    then have "k \<notin> set ks" "m(k := None) = m"
      using cache_ok_keys(1)[OF ok] by (auto simp: ks m entries_dom entries_def)
    with None assms V show ?thesis
      by (simp add: DeleteInternal_def spec_delete_def remove1_idem)
  next
    case (Some i)
    then have "node i \<in> set as" using ok links_item by (auto simp: cache_ok_def)
    then obtain l where l: "RemoveNode (node i) (lru c) = Some l" "lru_list l (remove1 (node i) as)"
      "same_keys (lru c) l"
      using RemoveNode_ok[of "lru c" as] ok by (auto simp: cache_ok_def)
    let ?c = "(add_memory (- calculateItemSize k (value i)) c)\<lparr>lru := l, data := gdel k (data c)\<rparr>"
    note d = drop_item[OF ok Some l(2,3), of ?c]
    have "represents ?c (m(k := None), remove1 k ks)"
      by (rule representsI[of _ "remove1 (node i) as"])
        (use d m ks in \<open>auto simp: entries_def gget_gdel fun_eq_iff\<close>)
    with Some l(1) V show ?thesis
      by (simp add: DeleteInternal_def spec_delete_def)
  qed
qed

section \<open>The locking operations\<close>

lemma Set_locks:
  "Set now k v ttl c =
     (if mu c then None else map_option Unlock (SetInternal now k v ttl (c\<lparr>mu := True\<rparr>)))"
  by (cases "gget (data c) k") (simp_all add: Set_def SetInternal_def Lock_def Let_def map_option_bind)

lemma Get_locks:
  "Get now k c =
     (if mu c then None else map_option (map_prod id Unlock) (GetInternal now k (c\<lparr>mu := True\<rparr>)))"
  by (simp add: Get_def GetInternal_def Lock_def Let_def map_option_bind split: option.splits)

lemma Delete_locks:
  "Delete k c =
     (if mu c then None else map_option Unlock (DeleteInternal k (c\<lparr>mu := True\<rparr>)))"
  by (simp add: Delete_def DeleteInternal_def Lock_def Let_def map_option_bind split: option.splits)

lemma Set_refines_lemma:
  assumes "represents c V" and "\<not> mu c"
  shows "\<exists>c'. Set now k v ttl c = Some c' \<and> represents c' (spec_set (maxSize c) now k v ttl V) \<and>
    maxSize c' = maxSize c \<and> \<not> mu c'"
  using SetInternal_refines[of "c\<lparr>mu := True\<rparr>" V now k v ttl] assms by (auto simp: Set_locks)

lemma Get_refines_lemma:
  assumes "represents c V" and "\<not> mu c"
  shows "\<exists>c'. Get now k c = Some (fst (spec_get now k V), c') \<and>
    represents c' (snd (spec_get now k V)) \<and> maxSize c' = maxSize c \<and> \<not> mu c'"
  using GetInternal_refines[of "c\<lparr>mu := True\<rparr>" V now k] assms by (auto simp: Get_locks)

lemma Delete_refines_lemma:
  assumes "represents c V" and "\<not> mu c"
  shows "\<exists>c'. Delete k c = Some c' \<and> represents c' (spec_delete k V) \<and>
    maxSize c' = maxSize c \<and> \<not> mu c'"
  using DeleteInternal_refines[of "c\<lparr>mu := True\<rparr>" V k] assms by (auto simp: Delete_locks)

text \<open>The clean-up: every visited item that has expired goes, with its node and its memory.\<close>

lemma cleanup_loop:
  assumes "cache_ok c as" and "gmap_ok ord" and "\<forall>(k, i) \<in> set ord. gget (data c) k = Some i"
  shows "\<exists>c' as'. foreach (cleanup_one now) ord (n, c) =
      Some (n + length (filter (\<lambda>(k, i). expired now (expiresAt i)) ord), c') \<and> cache_ok c' as' \<and>
    gget (data c') = (gget (data c)) |` (- {k. \<exists>i. (k, i) \<in> set ord \<and> expired now (expiresAt i)}) \<and>
    map (key_at (lru c')) as' = filter (\<lambda>k. \<not> (\<exists>i. (k, i) \<in> set ord \<and> expired now (expiresAt i)))
      (map (key_at (lru c)) as) \<and>
    maxSize c' = maxSize c \<and> mu c' = mu c"
  using assms
proof (induction ord arbitrary: c as n)
  case Nil
  then show ?case by (auto simp: restrict_map_def)
next
  case (Cons x ord)
  obtain k i where x: "x = (k, i)" by (cases x)
  have item: "gget (data c) k = Some i" and fresh: "k \<notin> fst ` set ord" and ord: "gmap_ok ord"
    and rest: "\<forall>(k', i') \<in> set ord. gget (data c) k' = Some i'"
    using Cons.prems by (auto simp: x gmap_ok_def)
  show ?case
  proof (cases "expired now (expiresAt i)")
    case False
    have same: "{k'. \<exists>i'. (k', i') \<in> set (x # ord) \<and> expired now (expiresAt i')} =
        {k'. \<exists>i'. (k', i') \<in> set ord \<and> expired now (expiresAt i')}"
      using False by (auto simp: x)
    show ?thesis
      using Cons.IH[OF Cons.prems(1) ord rest, of n] False same
      by (simp add: x cleanup_one_def set_eq_iff cong: filter_cong)
  next
    case True
    have "node i \<in> set as" using Cons.prems(1) item links_item by (auto simp: cache_ok_def)
    then obtain l where l: "RemoveNode (node i) (lru c) = Some l" "lru_list l (remove1 (node i) as)"
      "same_keys (lru c) l"
      using RemoveNode_ok[of "lru c" as] Cons.prems(1) by (auto simp: cache_ok_def)
    define c1 where "c1 = record_metric RecordExpiration
      ((add_memory (- calculateItemSize k (value i)) c)\<lparr>lru := l, data := gdel k (data c)\<rparr>)"
    have c1: "data c1 = gdel k (data c)" "lru c1 = l"
      "currentMemoryBytes c1 = i64 (currentMemoryBytes c - calculateItemSize k (value i))"
      "maxSize c1 = maxSize c" "mu c1 = mu c"
      by (simp_all add: c1_def)
    note d = drop_item[OF Cons.prems(1) item l(2,3) c1(1-3)]
    have rest1: "\<forall>(k', i') \<in> set ord. gget (data c1) k' = Some i'"
      using rest fresh by (force simp: c1 gget_gdel)
    have step: "cleanup_one now x (n, c) = Some (Suc n, c1)"
      using True l(1) by (simp add: x cleanup_one_def c1_def)
    let ?gone = "\<lambda>k'. \<exists>i'. (k', i') \<in> set ord \<and> expired now (expiresAt i')"
    have gone: "(\<exists>i'. (k', i') \<in> set (x # ord) \<and> expired now (expiresAt i')) \<longleftrightarrow> k' = k \<or> ?gone k'" for k'
      using True by (auto simp: x)
    have dk: "distinct (map (key_at (lru c)) as)" by (rule cache_ok_keys(2)[OF Cons.prems(1)])
    have ks: "filter (\<lambda>k'. \<not> ?gone k') (remove1 k (map (key_at (lru c)) as)) =
        filter (\<lambda>k'. \<not> (k' = k \<or> ?gone k')) (map (key_at (lru c)) as)"
      unfolding distinct_remove1_removeAll[OF dk] removeAll_filter_not_eq filter_filter
      by (rule filter_cong) auto
    have "(gget (data c1)) |` (- {k'. ?gone k'}) = (gget (data c)) |` (- {k'. k' = k \<or> ?gone k'})"
      by (auto simp: c1 gget_gdel restrict_map_def fun_eq_iff)
    with Cons.IH[OF d(1) ord rest1, of "Suc n"] show ?thesis
      unfolding gone ks[symmetric] d(2)[symmetric] c1(2)
      by (auto simp: step[unfolded x] x True c1)
  qed
qed

lemma CleanupExpired_refines:
  assumes rep: "represents c V" and mu: "\<not> mu c" and ord: "is_range ord (data c)"
  shows "\<exists>n c'. CleanupExpired ord now c = Some (n, c') \<and> represents c' (spec_cleanup now V) \<and>
    maxSize c' = maxSize c \<and> \<not> mu c' \<and> n = length (filter (\<lambda>k. \<not> live now (fst V) k) (snd V))"
proof -
  obtain m ks where V: "V = (m, ks)" by (cases V)
  obtain as where ok: "cache_ok c as" and m: "m = entries c" and ks: "ks = map (key_at (lru c)) as"
    using representsE rep V by metis
  let ?bad = "\<lambda>(k, i). expired now (expiresAt i)"
  have gone: "(\<exists>i. (k, i) \<in> set ord \<and> expired now (expiresAt i)) \<longleftrightarrow> k \<in> dom m \<and> \<not> live now m k" for k
    using is_range_get[OF ord, of k] by (auto simp: live_def m entries_def)
  have dom: "set ks = dom m" using cache_ok_keys(1)[OF ok] by (simp add: ks m)
  obtain c1 as1 where run: "foreach (cleanup_one now) ord (0, c\<lparr>mu := True\<rparr>) = Some (length (filter ?bad ord), c1)"
    and c1: "cache_ok c1 as1" "gget (data c1) = gget (data c) |` (- {k. k \<in> dom m \<and> \<not> live now m k})"
      "map (key_at (lru c1)) as1 = filter (\<lambda>k. \<not> (k \<in> dom m \<and> \<not> live now m k)) ks" "maxSize c1 = maxSize c"
    using cleanup_loop[of "c\<lparr>mu := True\<rparr>" as ord now 0] ok ord is_range_get[OF ord]
    unfolding gone ks by (auto simp: is_range_def)
  have len: "length (filter ?bad ord) = length (filter (\<lambda>k. \<not> live now m k) ks)"
  proof -
    have "distinct (map fst (filter ?bad ord))"
      using ord by (simp add: is_range_def gmap_ok_def distinct_map_filter)
    moreover have "fst ` set (filter ?bad ord) = set (filter (\<lambda>k. \<not> live now m k) ks)"
      using gone dom by (force simp: image_iff)
    moreover have "distinct (filter (\<lambda>k. \<not> live now m k) ks)"
      using cache_ok_keys(2)[OF ok] by (simp add: ks)
    ultimately show ?thesis by (metis distinct_card length_map list.set_map)
  qed
  have keys: "filter (live now m) ks = filter (\<lambda>k. \<not> (k \<in> dom m \<and> \<not> live now m k)) ks"
    using dom by (intro filter_cong) auto
  have vals: "(\<lambda>k. if live now m k then m k else None) = entries c1"
    by (auto simp: entries_def c1(2) restrict_map_def m live_def fun_eq_iff split: option.splits)
  have "represents c1 (spec_cleanup now V)"
    unfolding V spec_cleanup_def prod.case by (rule representsI[OF c1(1) vals keys[folded c1(3)]])
  with run c1(4) mu len show ?thesis
    by (simp add: CleanupExpired_def Lock_def V)
qed

section \<open>Runs\<close>

text \<open>Calls from outside. The clean-up carries the choice that its loop makes of an order.\<close>

datatype access =
    ASet time string string duration
  | AGet time string
  | ADel string
  | AClean "(string, CacheItem) gomap \<Rightarrow> (string, CacheItem) gomap" time

fun perform :: "access \<Rightarrow> Cache \<Rightarrow> (string option \<times> Cache) option" where
  "perform (ASet now k v ttl) c = map_option (Pair None) (Set now k v ttl c)"
| "perform (AGet now k) c = Get now k c"
| "perform (ADel k) c = map_option (Pair None) (Delete k c)"
| "perform (AClean pick now) c = map_option (\<lambda>(n, c). (None, c)) (CleanupExpired (pick (data c)) now c)"

fun spec_perform :: "int \<Rightarrow> access \<Rightarrow> view \<Rightarrow> string option \<times> view" where
  "spec_perform cap (ASet now k v ttl) V = (None, spec_set cap now k v ttl V)"
| "spec_perform cap (AGet now k) V = spec_get now k V"
| "spec_perform cap (ADel k) V = (None, spec_delete k V)"
| "spec_perform cap (AClean pick now) V = (None, spec_cleanup now V)"

fun good_pick :: "access \<Rightarrow> bool" where
  "good_pick (AClean pick now) = (\<forall>m. gmap_ok m \<longrightarrow> is_range (pick m) m)"
| "good_pick _ = True"

fun runs :: "access list \<Rightarrow> Cache \<Rightarrow> (string option list \<times> Cache) option" where
  "runs [] c = Some ([], c)"
| "runs (a # as) c = do { (r, c) \<leftarrow> perform a c; (rs, c) \<leftarrow> runs as c; Some (r # rs, c) }"

fun spec_runs :: "int \<Rightarrow> access list \<Rightarrow> view \<Rightarrow> string option list \<times> view" where
  "spec_runs cap [] V = ([], V)"
| "spec_runs cap (a # as) V =
     (let (r, V) = spec_perform cap a V; (rs, V) = spec_runs cap as V in (r # rs, V))"

lemma perform_refines:
  assumes "represents c V" and "\<not> mu c" and "good_pick a"
  shows "\<exists>c'. perform a c = Some (fst (spec_perform (maxSize c) a V), c') \<and>
    represents c' (snd (spec_perform (maxSize c) a V)) \<and> maxSize c' = maxSize c \<and> \<not> mu c'"
proof (cases a)
  case (AClean pick now)
  have "gmap_ok (data c)" using assms(1) by (auto simp: represents_def cache_ok_def)
  then have "is_range (pick (data c)) (data c)" using assms(3) AClean by simp
  from CleanupExpired_refines[OF assms(1,2) this, of now] show ?thesis by (auto simp: AClean)
qed (use Set_refines_lemma[OF assms(1,2)] Get_refines_lemma[OF assms(1,2)]
    Delete_refines_lemma[OF assms(1,2)] in \<open>force+\<close>)

lemma runs_refine:
  assumes "represents c V" and "\<not> mu c" and "\<forall>a \<in> set as. good_pick a"
  shows "\<exists>c'. runs as c = Some (fst (spec_runs (maxSize c) as V), c') \<and>
    represents c' (snd (spec_runs (maxSize c) as V)) \<and> maxSize c' = maxSize c \<and> \<not> mu c'"
  using assms
proof (induction as arbitrary: c V)
  case (Cons a as)
  obtain c1 where c1: "perform a c = Some (fst (spec_perform (maxSize c) a V), c1)"
    "represents c1 (snd (spec_perform (maxSize c) a V))" "maxSize c1 = maxSize c" "\<not> mu c1"
    using perform_refines[OF Cons.prems(1,2)] Cons.prems(3) by (meson list.set_intros(1))
  from Cons.IH[OF c1(2,4)] Cons.prems(3) c1 show ?case
    by (auto simp: Let_def split: prod.splits)
qed auto

lemma NewCache_represents: "represents (NewCache cap ms) (Map.empty, [])"
  by (rule representsI[of _ "[]"])
    (simp_all add: NewCache_def cache_ok_def entries_def New_def lru_list_def links_def memory_of_def i64_def fun_eq_iff)

end
