(* ===== verification/Cache_Laws.thy ===== *)
theory Cache_Laws
  imports Cache "HOL-Library.Word"
begin

text \<open>
  What the users of the cache rely on, for every sequence of calls on a new cache: results,
  capacity, memory account, the guarantee of the replacement policy, and the enumeration of keys
  by hash value of \<open>internal/cache/enumeration.go\<close>.
\<close>

section \<open>Enumeration by hash value\<close>

definition hashInRange :: "32 word \<Rightarrow> 32 word \<Rightarrow> 32 word \<Rightarrow> bool" where
  "hashInRange h start en =
     (if start < en then start \<le> h \<and> h < en else start \<le> h \<or> h < en)"

text \<open>\<open>ord\<close> is the order of the loop over the items.\<close>

definition GetKeysInHashRange ::
    "(string, CacheItem) gomap \<Rightarrow> 32 word \<Rightarrow> 32 word \<Rightarrow> (string \<Rightarrow> 32 word) \<Rightarrow> Cache \<Rightarrow> string list option" where
  "GetKeysInHashRange ord start en hashFunc c = do {
     _ \<leftarrow> RLock c;
     Some (filter (\<lambda>k. hashInRange (hashFunc k) start en) (map fst ord))
   }"

text \<open>The clock is read once per item: \<open>clock k\<close> when the loop is at the key \<open>k\<close>.\<close>

definition GetKeysWithValues ::
    "(string, CacheItem) gomap \<Rightarrow> (string \<Rightarrow> time) \<Rightarrow> 32 word \<Rightarrow> 32 word \<Rightarrow> (string \<Rightarrow> 32 word) \<Rightarrow> Cache
     \<Rightarrow> (string, string) gomap option" where
  "GetKeysWithValues ord clock start en hashFunc c = do {
     _ \<leftarrow> RLock c;
     Some (fold (\<lambda>(k, item) result.
             if expired (clock k) (expiresAt item) then result
             else if hashInRange (hashFunc k) start en then gset k (value item) result
             else result) ord [])
   }"

definition CountKeysInRange ::
    "(string, CacheItem) gomap \<Rightarrow> 32 word \<Rightarrow> 32 word \<Rightarrow> (string \<Rightarrow> 32 word) \<Rightarrow> Cache \<Rightarrow> nat option" where
  "CountKeysInRange ord start en hashFunc c = do {
     _ \<leftarrow> RLock c;
     Some (fold (\<lambda>(k, item) count. if hashInRange (hashFunc k) start en then count + 1 else count) ord 0)
   }"

lemma hashInRange_complement: "s \<noteq> e \<Longrightarrow> hashInRange h e s \<longleftrightarrow> \<not> hashInRange h s e"
  by (auto simp: hashInRange_def)

lemma count_fold:
  "fold (\<lambda>(k, item) count. if P k then count + 1 else count) ord n = n + length (filter P (map fst ord))"
  by (induction ord arbitrary: n) (auto simp: case_prod_unfold)

lemma select_fold:
  assumes "gmap_ok ord"
  shows "gget (fold (\<lambda>(k, item) result. if Q k item then result else if P k then gset k (f item) result else result)
      ord res) k = (case gget ord k of
        None \<Rightarrow> gget res k
      | Some item \<Rightarrow> if \<not> Q k item \<and> P k then Some (f item) else gget res k)"
  using assms
proof (induction ord arbitrary: res)
  case (Cons x ord)
  obtain k' i where x: "x = (k', i)" by (cases x)
  have "gget ord k' = None"
    using Cons.prems by (simp add: x gmap_ok_def map_of_eq_None_iff)
  with Cons.IH[of "if Q k' i then res else if P k' then gset k' (f i) res else res"] Cons.prems
  show ?case
    by (auto simp: x gmap_ok_def gget_gset split: option.splits)
qed simp

section \<open>Invariants of the abstract cache\<close>

text \<open>The recency list names every key of the map once, and the capacity bounds it.\<close>

definition view_ok :: "int \<Rightarrow> view \<Rightarrow> bool" where
  "view_ok cap V \<longleftrightarrow> set (snd V) = dom (fst V) \<and> distinct (snd V) \<and> int (length (snd V)) \<le> max 1 cap"

lemma set_butlast_distinct: "distinct xs \<Longrightarrow> xs \<noteq> [] \<Longrightarrow> set (butlast xs) = set xs - {last xs}"
  by (cases xs rule: rev_cases) auto

lemma view_ok_set: "view_ok cap V \<Longrightarrow> view_ok cap (spec_set cap now k v ttl V)"
proof (cases V)
  case (Pair m ks)
  assume ok: "view_ok cap V"
  show ?thesis
  proof (cases "k \<in> set ks")
    case True
    then have "length ks > 0" by (cases ks) auto
    with True ok show ?thesis
      by (auto simp: Pair view_ok_def spec_set_def Let_def length_remove1)
  next
    case False
    then have "k \<notin> set (butlast ks)" by (auto dest: in_set_butlastD)
    with False ok show ?thesis
      by (auto simp: Pair view_ok_def spec_set_def Let_def distinct_butlast set_butlast_distinct)
  qed
qed

lemma view_ok_get: "view_ok cap V \<Longrightarrow> view_ok cap (snd (spec_get now k V))"
proof (cases V)
  case (Pair m ks)
  assume ok: "view_ok cap V"
  show ?thesis
  proof (cases "k \<in> set ks")
    case True
    then have "length ks > 0" by (cases ks) auto
    with True ok show ?thesis
      by (auto simp: Pair view_ok_def spec_get_def length_remove1 split: option.splits)
  next
    case False
    with ok have "m k = None" by (auto simp: Pair view_ok_def)
    with ok show ?thesis by (simp add: Pair spec_get_def)
  qed
qed

lemma view_ok_delete: "view_ok cap V \<Longrightarrow> view_ok cap (spec_delete k V)"
  by (cases V) (auto simp: view_ok_def spec_delete_def length_remove1)

lemma view_ok_cleanup: "view_ok cap V \<Longrightarrow> view_ok cap (spec_cleanup now V)"
proof (cases V)
  case (Pair m ks)
  assume "view_ok cap V"
  then show ?thesis
    by (auto simp: Pair view_ok_def spec_cleanup_def live_def split: if_splits
        intro: order_trans[of _ "int (length ks)"])
qed

lemma view_ok_runs: "view_ok cap V \<Longrightarrow> view_ok cap (snd (spec_runs cap as V))"
proof (induction as arbitrary: V)
  case (Cons a as)
  have "view_ok cap (snd (spec_perform cap a V))"
    using Cons.prems by (cases a) (simp_all add: view_ok_set view_ok_get view_ok_delete view_ok_cleanup)
  from Cons.IH[OF this] show ?case by (simp add: case_prod_unfold Let_def)
qed simp

text \<open>The keys used after \<open>k\<close>: the only ones that can be evicted later than \<open>k\<close>.\<close>

definition age :: "string \<Rightarrow> string list \<Rightarrow> nat" where
  "age k ks = length (takeWhile (\<lambda>x. x \<noteq> k) ks)"

lemma age_remove1: "x \<noteq> k \<Longrightarrow> age k (remove1 x ks) \<le> age k ks"
  by (induction ks) (auto simp: age_def)

lemma age_filter: "P k \<Longrightarrow> age k (filter P ks) \<le> age k ks"
  by (induction ks) (auto simp: age_def)

lemma age_butlast: "age k (butlast ks) \<le> age k ks"
  by (induction ks) (auto simp: age_def)

lemma age_Cons: "age k (x # ks) = (if x = k then 0 else Suc (age k ks))"
  by (simp add: age_def)

lemma age_in_butlast: "k \<in> set ks \<Longrightarrow> Suc (age k ks) < length ks \<Longrightarrow> k \<in> set (butlast ks)"
  by (induction ks) (auto simp: age_def split: if_splits)

text \<open>A call that does not write \<open>k\<close>, delete it or find it expired.\<close>

fun leaves :: "string \<Rightarrow> time \<Rightarrow> access \<Rightarrow> bool" where
  "leaves k e (ASet now k' v ttl) = (k' \<noteq> k)"
| "leaves k e (AGet now k') = True"
| "leaves k e (ADel k') = (k' \<noteq> k)"
| "leaves k e (AClean pick now) = (\<not> expired now e)"

lemma survives_set:
  assumes "k \<in> set ks" and "m k = Some (v, e)" and "int (Suc (age k ks)) < cap" and "distinct ks" and "k' \<noteq> k"
  shows "\<exists>m' ks'. spec_set cap now k' v' ttl (m, ks) = (m', ks') \<and> m' k = Some (v, e) \<and> k \<in> set ks' \<and>
    age k ks' \<le> Suc (age k ks)"
proof (cases "k' \<in> set ks")
  case True
  then show ?thesis
    using assms age_remove1[of k' k ks] by (simp add: spec_set_def age_Cons)
next
  case False
  show ?thesis
  proof (cases "int (length ks) \<ge> cap")
    case True
    then have "k \<in> set (butlast ks)" using assms by (intro age_in_butlast) auto
    moreover from this have "k \<noteq> last ks"
      using assms(4) by (cases ks rule: rev_cases) auto
    ultimately show ?thesis
      using False True assms age_butlast[of k ks] by (auto simp: spec_set_def age_Cons Let_def)
  next
    case False
    with \<open>k' \<notin> set ks\<close> assms show ?thesis by (simp add: spec_set_def age_Cons)
  qed
qed

lemma survives_perform:
  assumes "k \<in> set ks" and "m k = Some (v, e)" and "int (Suc (age k ks)) < cap" and "distinct ks" and "leaves k e a"
  shows "\<exists>r m' ks'. spec_perform cap a (m, ks) = (r, m', ks') \<and> m' k = Some (v, e) \<and> k \<in> set ks' \<and>
    age k ks' \<le> Suc (age k ks)"
proof (cases a)
  case (ASet now k' v' ttl)
  with survives_set[of k ks m v e cap k' now v' ttl] assms show ?thesis by auto
next
  case (AGet now k')
  with assms age_remove1[of k' k ks] show ?thesis
    by (cases "k' = k") (auto simp: spec_get_def age_Cons split: option.splits)
next
  case (ADel k')
  with assms age_remove1[of k' k ks] show ?thesis by (simp add: spec_delete_def)
next
  case (AClean pick now)
  with assms age_filter[of "live now m" k ks] show ?thesis
    by (simp add: spec_cleanup_def live_def)
qed

lemma survives_runs:
  assumes "k \<in> set ks" and "m k = Some (v, e)" and "int (age k ks + length as) < cap" and
    "view_ok cap (m, ks)" and "\<forall>a \<in> set as. leaves k e a"
  shows "fst (snd (spec_runs cap as (m, ks))) k = Some (v, e)"
  using assms
proof (induction as arbitrary: m ks)
  case (Cons a as)
  obtain r m' ks' where st: "spec_perform cap a (m, ks) = (r, m', ks')" "m' k = Some (v, e)" "k \<in> set ks'"
    "age k ks' \<le> Suc (age k ks)"
    using survives_perform[of k ks m v e cap a] Cons.prems by (auto simp: view_ok_def)
  have "view_ok cap (m', ks')"
    using view_ok_runs[OF Cons.prems(4), of "[a]"] st(1) by simp
  with Cons.IH[of ks' m'] Cons.prems st show ?case
    by (simp add: st(1) Let_def case_prod_unfold)
qed simp

section \<open>What the cache promises\<close>

text \<open>A run from a new cache, the form in which the properties use the refinement.\<close>

lemma runs_from_new:
  assumes "\<forall>a \<in> set as. good_pick a"
  obtains c where "runs as (NewCache cap ms) = Some (fst (spec_runs cap as (Map.empty, [])), c)"
    "represents c (snd (spec_runs cap as (Map.empty, [])))" "maxSize c = cap" "\<not> mu c"
    "view_ok cap (snd (spec_runs cap as (Map.empty, [])))"
  using runs_refine[OF NewCache_represents _ assms, of cap ms]
    view_ok_runs[of cap "(Map.empty, [])" as]
  by (auto simp: NewCache_def view_ok_def)

lemma spec_runs_append:
  "spec_runs cap (as @ bs) V =
     (let (rs, V) = spec_runs cap as V; (rs', V) = spec_runs cap bs V in (rs @ rs', V))"
  by (induction as arbitrary: V) (simp_all add: case_prod_unfold Let_def)

text \<open>
  C2: Every sequence of \<open>Set\<close>, \<open>Get\<close>, \<open>Delete\<close> and \<open>CleanupExpired\<close> on a new cache runs through
  without a panic or a deadlock, whatever order the clean-up visits the items in, and returns
  what the abstract LRU cache with expiry returns; the cache then stands for the abstract one.
\<close>

theorem cache_implements_spec:
  assumes "\<forall>a \<in> set as. good_pick a"
  shows "\<exists>c. runs as (NewCache cap ms) = Some (fst (spec_runs cap as (Map.empty, [])), c) \<and>
    represents c (snd (spec_runs cap as (Map.empty, [])))"
  by (rule runs_from_new[OF assms]) blast

theorem cache_implements_spec_witness:
  "\<exists>c. runs [ASet 5 ''a'' ''1'' 10, ASet 6 ''b'' ''2'' 0, AGet 9 ''a'', ASet 9 ''c'' ''3'' 0, AGet 10 ''b'',
       AGet 10 ''a'', AClean id 20, AGet 20 ''c''] (NewCache 2 []) =
     Some ([None, None, Some ''1'', None, None, Some ''1'', None, Some ''3''], c)"
  using cache_implements_spec[of "[ASet 5 ''a'' ''1'' 10, ASet 6 ''b'' ''2'' 0, AGet 9 ''a'',
      ASet 9 ''c'' ''3'' 0, AGet 10 ''b'', AGet 10 ''a'', AClean id 20, AGet 20 ''c'']" 2 "[]"]
  by (auto simp: spec_set_def spec_get_def spec_cleanup_def live_def expired_def expiry_def IsZero_def)

text \<open>
  C30: The number of items never exceeds the capacity, or 1 where the capacity is smaller.
\<close>

theorem cache_capacity:
  assumes "\<forall>a \<in> set as. good_pick a"
  shows "\<exists>rs c. runs as (NewCache cap ms) = Some (rs, c) \<and> int (length (data c)) \<le> max 1 cap"
proof -
  obtain c where c: "runs as (NewCache cap ms) = Some (fst (spec_runs cap as (Map.empty, [])), c)"
    "represents c (snd (spec_runs cap as (Map.empty, [])))" "view_ok cap (snd (spec_runs cap as (Map.empty, [])))"
    using assms by (rule runs_from_new)
  obtain as' where "cache_ok c as'" "length as' = length (snd (snd (spec_runs cap as (Map.empty, []))))"
    using c(2) by (auto simp: represents_def)
  then have "int (length (data c)) \<le> max 1 cap"
    using c(3) cache_ok_keys(3) by (force simp: view_ok_def)
  with c(1) show ?thesis by blast
qed

theorem cache_capacity_witness:
  "\<exists>rs c. runs [ASet 5 ''a'' ''1'' 10, ASet 6 ''b'' ''2'' 0] (NewCache 1 []) = Some (rs, c) \<and>
     int (length (data c)) \<le> 1"
  using cache_capacity[of "[ASet 5 ''a'' ''1'' 10, ASet 6 ''b'' ''2'' 0]" 1 "[]"] by simp

text \<open>
  C37: The memory account is the sum of the sizes of the items that are in the cache, as a 64-bit
  number, after every sequence of calls: insertion, overwriting, eviction, deletion and expiry all
  keep it exact.
\<close>

theorem cache_memory_account:
  assumes "\<forall>a \<in> set as. good_pick a"
  shows "\<exists>rs c. runs as (NewCache cap ms) = Some (rs, c) \<and>
    currentMemoryBytes c =
      i64 (\<Sum>k \<in> dom (gget (data c)). calculateItemSize k (value (the (gget (data c) k))))"
proof -
  obtain c where c: "runs as (NewCache cap ms) = Some (fst (spec_runs cap as (Map.empty, [])), c)"
    "represents c (snd (spec_runs cap as (Map.empty, [])))"
    using assms by (rule runs_from_new)
  then show ?thesis by (auto simp: represents_def cache_ok_def memory_of_def msum_def)
qed

theorem cache_memory_account_witness:
  "\<exists>rs c. runs [ASet 5 ''a'' ''1'' 10, ASet 6 ''a'' ''22'' 0] (NewCache 1 []) = Some (rs, c) \<and>
    currentMemoryBytes c =
      i64 (\<Sum>k \<in> dom (gget (data c)). calculateItemSize k (value (the (gget (data c) k))))"
  using cache_memory_account[of "[ASet 5 ''a'' ''1'' 10, ASet 6 ''a'' ''22'' 0]" 1 "[]"] by simp

text \<open>
  C7: The guarantee of the replacement policy: an entry that is written survives fewer than
  \<open>cap\<close> further calls of any kind that do not themselves overwrite or delete it or find it
  expired, whatever happened before.
\<close>

theorem lru_guarantee:
  assumes "\<forall>a \<in> set (before @ after). good_pick a" and "int (length after) < cap"
    and "\<forall>a \<in> set after. leaves k (expiry now ttl) a"
  shows "\<exists>rs c. runs (before @ ASet now k v ttl # after) (NewCache cap ms) = Some (rs, c) \<and>
    entries c k = Some (v, expiry now ttl)"
proof -
  let ?as = "before @ ASet now k v ttl # after"
  let ?V = "snd (spec_runs cap before (Map.empty, []))"
  have "\<forall>a \<in> set ?as. good_pick a" using assms(1) by auto
  then obtain c where c: "runs ?as (NewCache cap ms) = Some (fst (spec_runs cap ?as (Map.empty, [])), c)"
    "represents c (snd (spec_runs cap ?as (Map.empty, [])))"
    by (rule runs_from_new)
  have ok: "view_ok cap ?V" by (rule view_ok_runs) (simp add: view_ok_def)
  obtain m ks where W: "spec_set cap now k v ttl ?V = (m, ks)" by fastforce
  have "m k = Some (v, expiry now ttl)" "k \<in> set ks" "age k ks = 0"
    using W by (auto simp: spec_set_def Let_def age_Cons split: if_splits prod.splits)
  with survives_runs[of k ks m v "expiry now ttl" after cap] view_ok_set[OF ok, of now k v ttl] assms(2,3)
  have "fst (snd (spec_runs cap after (m, ks))) k = Some (v, expiry now ttl)"
    by (simp add: W)
  then have "fst (snd (spec_runs cap ?as (Map.empty, []))) k = Some (v, expiry now ttl)"
    by (simp add: spec_runs_append case_prod_unfold Let_def W)
  with c show ?thesis by (auto simp: represents_def)
qed

theorem lru_guarantee_witness:
  "\<exists>rs c. runs ([ASet 1 ''x'' ''0'' 0, ASet 2 ''y'' ''0'' 0] @ ASet 3 ''k'' ''v'' 100 # [ASet 4 ''z'' ''0'' 0])
     (NewCache 2 []) = Some (rs, c) \<and> entries c ''k'' = Some (''v'', 103)"
  using lru_guarantee[of "[ASet 1 ''x'' ''0'' 0, ASet 2 ''y'' ''0'' 0]" "[ASet 4 ''z'' ''0'' 0]" 2 "''k''" 3 100 "''v''" "[]"]
  by (simp add: expiry_def)

text \<open>
  Reading back what was written: until the expiry time the value, from then on nothing; a
  value written with no or a negative lifetime never expires.
\<close>

lemma get_after_set:
  assumes "represents c V" and "\<not> mu c"
  shows "\<exists>c1 c2. Set now k v ttl c = Some c1 \<and>
    Get now' k c1 = Some (if ttl > 0 \<and> now + ttl \<noteq> 0 \<and> now + ttl < now' then None else Some v, c2)"
proof -
  obtain m ks where V: "V = (m, ks)" by (cases V)
  obtain c1 where c1: "Set now k v ttl c = Some c1" "represents c1 (spec_set (maxSize c) now k v ttl V)" "\<not> mu c1"
    using Set_refines_lemma[OF assms, of now k v ttl] by auto
  moreover obtain c2 where "Get now' k c1 = Some (fst (spec_get now' k (spec_set (maxSize c) now k v ttl V)), c2)"
    using Get_refines_lemma[OF c1(2,3), of now' k] by auto
  moreover have "fst (spec_get now' k (spec_set (maxSize c) now k v ttl V)) =
      (if ttl > 0 \<and> now + ttl \<noteq> 0 \<and> now + ttl < now' then None else Some v)"
    by (auto simp: V spec_get_def spec_set_def expired_def expiry_def IsZero_def Let_def)
  ultimately show ?thesis by auto
qed

lemma get_after_set_witness:
  "\<exists>c1 c2. Set 7 ''k'' ''v'' 5 (NewCache 1 []) = Some c1 \<and> Get 13 ''k'' c1 = Some (None, c2)"
  using get_after_set[OF NewCache_represents, of 1 "[]" 7 "''k''" "''v''" 5 13]
  by (simp add: NewCache_def)

text \<open>
  \<open>Set\<close>, \<open>Get\<close> and \<open>Delete\<close> are their unlocked variants inside the lock: the same items, the
  same order, the same account and the same metrics; a caller that holds the lock does not return.
\<close>

lemma locked_operations:
  "Set now k v ttl c =
     (if mu c then None else map_option Unlock (SetInternal now k v ttl (c\<lparr>mu := True\<rparr>))) \<and>
   Get now k c =
     (if mu c then None else map_option (map_prod id Unlock) (GetInternal now k (c\<lparr>mu := True\<rparr>))) \<and>
   Delete k c =
     (if mu c then None else map_option Unlock (DeleteInternal k (c\<lparr>mu := True\<rparr>)))"
  by (simp only: Set_locks Get_locks Delete_locks)

text \<open>
  Enumerating by hash value: a range and its complement on the ring (\<open>[s, e)\<close> and \<open>[e, s)\<close>)
  share no key and together give every key, and counting agrees with listing.
\<close>

lemma hash_range_partition:
  assumes "is_range ord (data c)" and "\<not> mu c" and "s \<noteq> e"
  shows "\<exists>ks ks'. GetKeysInHashRange ord s e H c = Some ks \<and> GetKeysInHashRange ord e s H c = Some ks' \<and>
    set ks \<union> set ks' = dom (gget (data c)) \<and> set ks \<inter> set ks' = {} \<and>
    CountKeysInRange ord s e H c = Some (length ks)"
  using is_range_keys[OF assms(1)] assms(2) hashInRange_complement[OF assms(3)]
  by (auto simp: GetKeysInHashRange_def CountKeysInRange_def RLock_def count_fold)

lemma hash_range_partition_witness:
  "let c = (NewCache 1 [])\<lparr>data := [(''k'', \<lparr>value = ''v'', expiresAt = 9, node = 0\<rparr>)]\<rparr>
   in \<exists>ks ks'. GetKeysInHashRange (data c) 9 3 (\<lambda>_. 5) c = Some ks \<and>
    GetKeysInHashRange (data c) 3 9 (\<lambda>_. 5) c = Some ks' \<and> set ks \<union> set ks' = {''k''} \<and> set ks \<inter> set ks' = {} \<and>
    CountKeysInRange (data c) 9 3 (\<lambda>_. 5) c = Some (length ks)"
  using hash_range_partition[of "[(''k'', \<lparr>value = ''v'', expiresAt = 9, node = 0\<rparr>)]"
      "(NewCache 1 [])\<lparr>data := [(''k'', \<lparr>value = ''v'', expiresAt = 9, node = 0\<rparr>)]\<rparr>" 9 3 "\<lambda>_. 5"]
  by (simp add: NewCache_def gmap_ok_def)

text \<open>
  The values handed out for a hash range are those of exactly the keys in the range that
  have not expired when the loop reaches them.
\<close>

lemma range_values:
  assumes "is_range ord (data c)" and "\<not> mu c"
  shows "\<exists>res. GetKeysWithValues ord clock s e H c = Some res \<and>
    (\<forall>k. gget res k = (case entries c k of
       None \<Rightarrow> None
     | Some (v, t) \<Rightarrow> if \<not> expired (clock k) t \<and> hashInRange (H k) s e then Some v else None))"
proof -
  have "gmap_ok ord" "gget ord = gget (data c)" using assms(1) by (auto simp: is_range_def)
  with assms(2) show ?thesis
    by (auto simp: GetKeysWithValues_def RLock_def entries_def select_fold split: option.splits)
qed

lemma range_values_witness:
  "\<exists>res. GetKeysWithValues [(''k'', \<lparr>value = ''v'', expiresAt = 9, node = 0\<rparr>)] (\<lambda>_. 8) 9 3 (\<lambda>_. 1)
      ((NewCache 1 [])\<lparr>data := [(''k'', \<lparr>value = ''v'', expiresAt = 9, node = 0\<rparr>)]\<rparr>) = Some res \<and>
    gget res ''k'' = Some ''v''"
  using range_values[of "[(''k'', \<lparr>value = ''v'', expiresAt = 9, node = 0\<rparr>)]"
      "(NewCache 1 [])\<lparr>data := [(''k'', \<lparr>value = ''v'', expiresAt = 9, node = 0\<rparr>)]\<rparr>" "\<lambda>_. 8" 9 3 "\<lambda>_. 1"]
  by (auto simp: NewCache_def gmap_ok_def entries_def expired_def IsZero_def hashInRange_def)

end
