(* ===== verification/Metrics.thy ===== *)
theory Metrics
  imports Cache_Laws
begin

text \<open>
  The metrics collector (\<open>internal/metrics/metrics.go\<close>). The instruments and the registry are those of
  the Prometheus client library: their operations are the parameter \<open>p\<close>. The calls that the cache makes
  are recorded in its field \<open>metrics\<close>; here they are carried out. The theory shows that the collector
  can be created once, and that the instruments agree with the cache after every sequence of calls.
\<close>

section \<open>The client library\<close>

text \<open>
  \<open>'i\<close> is an instrument, \<open>'v\<close> a family of counters with a label, \<open>'r\<close> the registry. A constructor panics
  when the name is in use. The operations read an instrument last: its value, and the names in use.
\<close>

record ('i, 'v, 'r) prometheus =
  prom_NewCounterVec :: "string \<Rightarrow> string \<Rightarrow> string list \<Rightarrow> 'r \<Rightarrow> ('v \<times> 'r) option"
  prom_NewCounter :: "string \<Rightarrow> string \<Rightarrow> 'r \<Rightarrow> ('i \<times> 'r) option"
  prom_NewHistogram :: "string \<Rightarrow> string \<Rightarrow> duration list \<Rightarrow> 'r \<Rightarrow> ('i \<times> 'r) option"
  prom_NewGauge :: "string \<Rightarrow> string \<Rightarrow> 'r \<Rightarrow> ('i \<times> 'r) option"
  prom_IncLabel :: "string \<Rightarrow> 'v \<Rightarrow> 'v"
  prom_Inc :: "'i \<Rightarrow> 'i"
  prom_Dec :: "'i \<Rightarrow> 'i"
  prom_Set :: "int \<Rightarrow> 'i \<Rightarrow> 'i"
  prom_Observe :: "duration \<Rightarrow> 'i \<Rightarrow> 'i"
  prom_label :: "string \<Rightarrow> 'v \<Rightarrow> int"
  prom_value :: "'i \<Rightarrow> int"
  prom_names :: "'r \<Rightarrow> string list"

text \<open>The conversion to \<open>float64\<close>: 53 bits, rounded to the nearest, to the even one of two.\<close>

definition f64 :: "int \<Rightarrow> int" where
  "f64 n =
     (let e = 2 ^ (length (takeWhile (\<lambda>i. (2 :: int) ^ (53 + i) \<le> \<bar>n\<bar>) [0..<11]));
          q = \<bar>n\<bar> div e; m = \<bar>n\<bar> mod e;
          q = (if 2 * m > e \<or> (2 * m = e \<and> odd q) then q + 1 else q)
      in sgn n * (q * e))"

lemma f64_exact: "\<bar>n\<bar> < 2 ^ 53 \<Longrightarrow> f64 n = n"
  by (simp add: f64_def upt_rec Let_def sgn_mult_abs)

section \<open>The collector\<close>

record ('i, 'v) Collector =
  OperationsTotal :: 'v
  CacheHits :: 'i
  CacheMisses :: 'i
  OperationDuration :: 'i
  MemoryBytes :: 'i
  ItemsCount :: 'i
  EvictionsTotal :: 'i
  ExpirationsTotal :: 'i
  ActiveConnections :: 'i
  ReplicationLag :: 'i
  ConnectedFollowers :: 'i

text \<open>The bounds of the buckets are in seconds in the code and in nanoseconds here.\<close>

definition NewCollector :: "('i, 'v, 'r) prometheus \<Rightarrow> 'r \<Rightarrow> (('i, 'v) Collector \<times> 'r) option" where
  "NewCollector p r = do {
     (ops, r) \<leftarrow> prom_NewCounterVec p ''gocache_operations_total'' ''Total number of cache operations by type'' [''operation''] r;
     (hits, r) \<leftarrow> prom_NewCounter p ''gocache_cache_hits_total'' ''Total number of cache hits (successful lookups)'' r;
     (misses, r) \<leftarrow> prom_NewCounter p ''gocache_cache_misses_total'' ''Total number of cache misses (key not found)'' r;
     (dur, r) \<leftarrow> prom_NewHistogram p ''gocache_operation_duration_seconds'' ''Duration of cache operations in seconds''
       [100000, 1000000, 5000000, 10000000, 50000000, 100000000] r;
     (mem, r) \<leftarrow> prom_NewGauge p ''gocache_memory_bytes'' ''Current memory usage of the cache in bytes'' r;
     (items, r) \<leftarrow> prom_NewGauge p ''gocache_items_count'' ''Current number of items stored in cache'' r;
     (evictions, r) \<leftarrow> prom_NewCounter p ''gocache_evictions_total'' ''Total number of items evicted due to LRU policy'' r;
     (expirations, r) \<leftarrow> prom_NewCounter p ''gocache_expirations_total'' ''Total number of items expired due to TTL'' r;
     (active, r) \<leftarrow> prom_NewGauge p ''gocache_active_connections'' ''Number of currently active client connections'' r;
     (lag, r) \<leftarrow> prom_NewGauge p ''gocache_replication_lag_seconds'' ''Replication lag between leader and followers in seconds'' r;
     (followers, r) \<leftarrow> prom_NewGauge p ''gocache_connected_followers'' ''Number of followers currently connected to this leader'' r;
     Some (\<lparr>OperationsTotal = ops, CacheHits = hits, CacheMisses = misses, OperationDuration = dur, MemoryBytes = mem,
       ItemsCount = items, EvictionsTotal = evictions, ExpirationsTotal = expirations, ActiveConnections = active,
       ReplicationLag = lag, ConnectedFollowers = followers\<rparr>, r)
   }"

text \<open>The methods of the collector, one for each call.\<close>

definition collect :: "('i, 'v, 'r) prometheus \<Rightarrow> metric \<Rightarrow> ('i, 'v) Collector \<Rightarrow> ('i, 'v) Collector" where
  "collect p e c =
     (case e of
        RecordOperation operation \<Rightarrow> c\<lparr>OperationsTotal := prom_IncLabel p operation (OperationsTotal c)\<rparr>
      | RecordCacheHit \<Rightarrow> c\<lparr>CacheHits := prom_Inc p (CacheHits c)\<rparr>
      | RecordCacheMiss \<Rightarrow> c\<lparr>CacheMisses := prom_Inc p (CacheMisses c)\<rparr>
      | RecordOperationDuration d \<Rightarrow> c\<lparr>OperationDuration := prom_Observe p d (OperationDuration c)\<rparr>
      | UpdateMemoryUsage bytes \<Rightarrow> c\<lparr>MemoryBytes := prom_Set p (f64 bytes) (MemoryBytes c)\<rparr>
      | UpdateItemsCount count \<Rightarrow> c\<lparr>ItemsCount := prom_Set p (f64 count) (ItemsCount c)\<rparr>
      | RecordEviction \<Rightarrow> c\<lparr>EvictionsTotal := prom_Inc p (EvictionsTotal c)\<rparr>
      | RecordExpiration \<Rightarrow> c\<lparr>ExpirationsTotal := prom_Inc p (ExpirationsTotal c)\<rparr>
      | IncrementActiveConnections \<Rightarrow> c\<lparr>ActiveConnections := prom_Inc p (ActiveConnections c)\<rparr>
      | DecrementActiveConnections \<Rightarrow> c\<lparr>ActiveConnections := prom_Dec p (ActiveConnections c)\<rparr>
      | UpdateReplicationLag lag \<Rightarrow> c\<lparr>ReplicationLag := prom_Set p lag (ReplicationLag c)\<rparr>
      | UpdateConnectedFollowers count \<Rightarrow> c\<lparr>ConnectedFollowers := prom_Set p (f64 count) (ConnectedFollowers c)\<rparr>)"

text \<open>The collector that all servers of the process share; it is created by the first call.\<close>

definition getMetricsCollector ::
    "('i, 'v, 'r) prometheus \<Rightarrow> ('i, 'v) Collector option \<times> 'r \<Rightarrow> (('i, 'v) Collector \<times> ('i, 'v) Collector option \<times> 'r) option" where
  "getMetricsCollector p = (\<lambda>(shared, r).
     case shared of
       Some c \<Rightarrow> Some (c, shared, r)
     | None \<Rightarrow> do { (c, r) \<leftarrow> NewCollector p r; Some (c, Some c, r) })"

section \<open>Laws of the library\<close>

text \<open>A constructor takes a name that is not in use, and the new instrument counts from 0.\<close>

definition registers :: "('r \<Rightarrow> string list) \<Rightarrow> ('i \<Rightarrow> bool) \<Rightarrow> string \<Rightarrow> ('r \<Rightarrow> ('i \<times> 'r) option) \<Rightarrow> bool" where
  "registers names zero name new \<longleftrightarrow> (\<forall>r.
     if name \<in> set (names r) then new r = None
     else (\<exists>i r'. new r = Some (i, r') \<and> zero i \<and> set (names r') = insert name (set (names r))))"

text \<open>Values are floating-point numbers, so counting is exact up to 53 bits.\<close>

definition prom_laws :: "('i, 'v, 'r) prometheus \<Rightarrow> bool" where
  "prom_laws p \<longleftrightarrow>
     (\<forall>name help labels. registers (prom_names p) (\<lambda>v. \<forall>l. prom_label p l v = 0) name (prom_NewCounterVec p name help labels)) \<and>
     (\<forall>name help. registers (prom_names p) (\<lambda>i. prom_value p i = 0) name (prom_NewCounter p name help)) \<and>
     (\<forall>name help buckets. registers (prom_names p) (\<lambda>_. True) name (prom_NewHistogram p name help buckets)) \<and>
     (\<forall>name help. registers (prom_names p) (\<lambda>i. prom_value p i = 0) name (prom_NewGauge p name help)) \<and>
     (\<forall>l l' v. \<bar>prom_label p l v\<bar> < 2 ^ 53 \<longrightarrow> prom_label p l (prom_IncLabel p l' v) = prom_label p l v + (if l = l' then 1 else 0)) \<and>
     (\<forall>i. \<bar>prom_value p i\<bar> < 2 ^ 53 \<longrightarrow> prom_value p (prom_Inc p i) = prom_value p i + 1) \<and>
     (\<forall>i. \<bar>prom_value p i\<bar> < 2 ^ 53 \<longrightarrow> prom_value p (prom_Dec p i) = prom_value p i - 1) \<and>
     (\<forall>x i. prom_value p (prom_Set p x i) = x)"

definition gocache_names :: "string list" where
  "gocache_names = [''gocache_operations_total'', ''gocache_cache_hits_total'', ''gocache_cache_misses_total'',
     ''gocache_operation_duration_seconds'', ''gocache_memory_bytes'', ''gocache_items_count'', ''gocache_evictions_total'',
     ''gocache_expirations_total'', ''gocache_active_connections'', ''gocache_replication_lag_seconds'', ''gocache_connected_followers'']"

definition all_zero :: "('i, 'v, 'r) prometheus \<Rightarrow> ('i, 'v) Collector \<Rightarrow> bool" where
  "all_zero p c \<longleftrightarrow> (\<forall>l. prom_label p l (OperationsTotal c) = 0) \<and>
     (\<forall>i \<in> {CacheHits c, CacheMisses c, MemoryBytes c, ItemsCount c, EvictionsTotal c, ExpirationsTotal c, ActiveConnections c,
       ReplicationLag c, ConnectedFollowers c}. prom_value p i = 0)"

lemma registers_step:
  assumes "registers names zero name new" and "name \<notin> set (names r)"
    and "\<And>i r'. zero i \<Longrightarrow> set (names r') = insert name (set (names r)) \<Longrightarrow> \<exists>x. k (i, r') = Some x \<and> P x"
  shows "\<exists>x. (new r \<bind> k) = Some x \<and> P x"
  using assms unfolding registers_def by (metis bind.bind_lunit)

lemma NewCollector_registers:
  assumes "prom_laws p" and "set gocache_names \<inter> set (prom_names p r) = {}"
  shows "\<exists>x. NewCollector p r = Some x \<and> (all_zero p (fst x) \<and> set (prom_names p (snd x)) = set gocache_names \<union> set (prom_names p r))"
proof -
  have laws: "\<And>name help labels. registers (prom_names p) (\<lambda>v. \<forall>l. prom_label p l v = 0) name (prom_NewCounterVec p name help labels)"
    "\<And>name help. registers (prom_names p) (\<lambda>i. prom_value p i = 0) name (prom_NewCounter p name help)"
    "\<And>name help buckets. registers (prom_names p) (\<lambda>_. True) name (prom_NewHistogram p name help buckets)"
    "\<And>name help. registers (prom_names p) (\<lambda>i. prom_value p i = 0) name (prom_NewGauge p name help)"
    using assms(1) by (simp_all add: prom_laws_def)
  have new: "\<And>n. n \<in> set gocache_names \<Longrightarrow> n \<notin> set (prom_names p r)" using assms(2) by auto
  show ?thesis unfolding NewCollector_def
    by (rule registers_step, rule laws, simp add: new gocache_names_def, simp only: prod.case)+
      (auto simp: all_zero_def gocache_names_def)
qed

text \<open>A second collector cannot be created: its first name is in use.\<close>

lemma NewCollector_twice:
  assumes "prom_laws p" and "set gocache_names \<subseteq> set (prom_names p r)"
  shows "NewCollector p r = None"
proof -
  have "registers (prom_names p) (\<lambda>v. \<forall>l. prom_label p l v = 0) ''gocache_operations_total''
      (prom_NewCounterVec p ''gocache_operations_total'' h ls)" for h ls
    using assms(1) by (simp add: prom_laws_def)
  moreover have "''gocache_operations_total'' \<in> set (prom_names p r)" using assms(2) by (simp add: gocache_names_def)
  ultimately show ?thesis by (simp add: NewCollector_def registers_def)
qed

section \<open>Instruments after a sequence of calls\<close>

text \<open>An instrument that a call \<open>x\<close> increments counts the calls \<open>x\<close>; a gauge shows what was set last.\<close>

lemma fold_counts:
  assumes "\<And>e c. \<bar>g c\<bar> < 2 ^ 53 \<Longrightarrow> g (f e c) = g c + (if e = x then 1 else 0)"
    and "0 \<le> g c" and "g c + int (count_list ms x) < 2 ^ 53"
  shows "g (fold f ms c) = g c + int (count_list ms x)"
  using assms(2,3)
proof (induction ms arbitrary: c)
  case (Cons e ms)
  then have "g (f e c) = g c + (if e = x then 1 else 0)" using assms(1) by simp
  with Cons show ?case by (auto split: if_splits)
qed simp

fun items_set :: "metric \<Rightarrow> int option" where
  "items_set (UpdateItemsCount n) = Some n"
| "items_set _ = None"

fun memory_set :: "metric \<Rightarrow> int option" where
  "memory_set (UpdateMemoryUsage n) = Some n"
| "memory_set _ = None"

definition last_set :: "(metric \<Rightarrow> int option) \<Rightarrow> metric list \<Rightarrow> int" where
  "last_set sel ms = fold (\<lambda>e n. case sel e of None \<Rightarrow> n | Some m \<Rightarrow> m) ms 0"

lemma last_set_snoc [simp]:
  "last_set sel (ms @ es) = fold (\<lambda>e n. case sel e of None \<Rightarrow> n | Some m \<Rightarrow> m) es (last_set sel ms)" "last_set sel [] = 0"
  by (simp_all add: last_set_def)

lemma fold_gauge:
  assumes "\<And>e c. g (f e c) = (case sel e of None \<Rightarrow> g c | Some m \<Rightarrow> f64 m)" and "g c = 0"
  shows "g (fold f ms c) = f64 (last_set sel ms)"
  using assms(2) by (induction ms rule: rev_induct) (auto simp: assms(1) f64_exact split: option.split)

text \<open>The calls by which reads, writes and deletions are counted.\<close>

fun counted :: "metric \<Rightarrow> bool" where
  "counted (RecordOperation _) = True"
| "counted RecordCacheHit = True"
| "counted RecordCacheMiss = True"
| "counted _ = False"

fun calls_of :: "access \<Rightarrow> string option \<Rightarrow> metric list" where
  "calls_of (ASet now k v ttl) res = [RecordOperation ''set'']"
| "calls_of (AGet now k) res = [RecordOperation ''get'', if res = None then RecordCacheMiss else RecordCacheHit]"
| "calls_of (ADel k) res = [RecordOperation ''delete'']"
| "calls_of (AClean pick now) res = []"

definition gauges_ok :: "Cache \<Rightarrow> bool" where
  "gauges_ok c \<longleftrightarrow> last_set items_set (metrics c) = int (length (data c)) \<and> last_set memory_set (metrics c) = currentMemoryBytes c"

lemma evict_metrics: "evict c = Some c' \<Longrightarrow> filter counted (metrics c') = filter counted (metrics c)"
  by (auto simp: evict_def bind_eq_Some_conv record_metric_def add_memory_def Let_def split: option.splits)

lemma Set_metrics: "Set now k v ttl c = Some c' \<Longrightarrow> filter counted (metrics c') = filter counted (metrics c) @ [RecordOperation ''set''] \<and> gauges_ok c'"
  by (auto simp: Set_def bind_eq_Some_conv cache_small_defs gauges_ok_def Let_def dest!: evict_metrics split: option.splits if_splits)

lemma Get_metrics:
  "Get now k c = Some (res, c') \<Longrightarrow> filter counted (metrics c') = filter counted (metrics c) @ calls_of (AGet now k) res \<and> (gauges_ok c \<longrightarrow> gauges_ok c')"
  by (auto simp: Get_def bind_eq_Some_conv cache_small_defs gauges_ok_def Let_def split: option.splits if_splits)

lemma Delete_metrics:
  "Delete k c = Some c' \<Longrightarrow> filter counted (metrics c') = filter counted (metrics c) @ [RecordOperation ''delete''] \<and> (gauges_ok c \<longrightarrow> gauges_ok c')"
  by (cases "gget (data c) k") (auto simp: Delete_def bind_eq_Some_conv cache_small_defs gauges_ok_def Let_def split: if_splits)

text \<open>A clean-up that removes nothing leaves the gauges alone.\<close>

lemma cleanup_metrics:
  "foreach (cleanup_one now) ord (n, c) = Some (n', c') \<Longrightarrow>
     filter counted (metrics c') = filter counted (metrics c) \<and> n \<le> n' \<and> (n' = n \<longrightarrow> c' = c)"
proof (induction ord arbitrary: n c)
  case (Cons x ord)
  obtain k item where x: "x = (k, item)" by (cases x)
  obtain n1 c1 where s: "cleanup_one now (k, item) (n, c) = Some (n1, c1)" "foreach (cleanup_one now) ord (n1, c1) = Some (n', c')"
    using Cons.prems by (auto simp: x bind_eq_Some_conv)
  then have "filter counted (metrics c1) = filter counted (metrics c) \<and> n \<le> n1 \<and> (n1 = n \<longrightarrow> c1 = c)"
    by (auto simp: cleanup_one_def bind_eq_Some_conv cache_small_defs Let_def split: if_splits)
  with Cons.IH[OF s(2)] show ?case by auto
qed simp

lemma CleanupExpired_metrics:
  assumes "CleanupExpired ord now c = Some (n, c')"
  shows "filter counted (metrics c') = filter counted (metrics c) \<and> (gauges_ok c \<longrightarrow> gauges_ok c')"
proof -
  obtain n1 c1 where l: "foreach (cleanup_one now) ord (0, c\<lparr>mu := True\<rparr>) = Some (n1, c1)"
    "c' = Unlock (if 0 < n1 then report_size c1 else c1)"
    using assms by (auto simp: CleanupExpired_def Lock_def bind_eq_Some_conv Let_def split: if_splits)
  with cleanup_metrics[OF l(1)] show ?thesis by (cases n1) (auto simp: cache_small_defs gauges_ok_def)
qed

lemma perform_metrics:
  "perform a c = Some (res, c') \<Longrightarrow>
     filter counted (metrics c') = filter counted (metrics c) @ calls_of a res \<and> (gauges_ok c \<longrightarrow> gauges_ok c')"
  by (cases a) (auto dest!: Set_metrics Get_metrics Delete_metrics CleanupExpired_metrics)

lemma runs_metrics:
  "runs as c = Some (rs, c') \<Longrightarrow>
     filter counted (metrics c') = filter counted (metrics c) @ concat (map2 calls_of as rs) \<and> (gauges_ok c \<longrightarrow> gauges_ok c') \<and> length rs = length as"
proof (induction as arbitrary: c rs)
  case (Cons a as)
  then obtain res c1 rs1 where s: "perform a c = Some (res, c1)" "runs as c1 = Some (rs1, c')" "rs = res # rs1"
    by (auto simp: bind_eq_Some_conv)
  with perform_metrics[OF s(1)] Cons.IH[OF s(2)] show ?case by simp
qed simp

definition is_get :: "access \<Rightarrow> bool" where
  "is_get a \<longleftrightarrow> (case a of AGet _ _ \<Rightarrow> True | _ \<Rightarrow> False)"

definition is_set :: "access \<Rightarrow> bool" where
  "is_set a \<longleftrightarrow> (case a of ASet _ _ _ _ \<Rightarrow> True | _ \<Rightarrow> False)"

definition is_del :: "access \<Rightarrow> bool" where
  "is_del a \<longleftrightarrow> (case a of ADel _ \<Rightarrow> True | _ \<Rightarrow> False)"

lemma count_calls:
  assumes "length as = length rs"
  shows "count_list (concat (map2 calls_of as rs)) RecordCacheHit = length (filter (\<lambda>(a, res). is_get a \<and> res \<noteq> None) (zip as rs))"
    and "count_list (concat (map2 calls_of as rs)) RecordCacheMiss = length (filter (\<lambda>(a, res). is_get a \<and> res = None) (zip as rs))"
    and "count_list (concat (map2 calls_of as rs)) (RecordOperation ''get'') = length (filter is_get as)"
    and "count_list (concat (map2 calls_of as rs)) (RecordOperation ''set'') = length (filter is_set as)"
    and "count_list (concat (map2 calls_of as rs)) (RecordOperation ''delete'') = length (filter is_del as)"
  using assms by (induction as rs rule: list_induct2) (auto simp: is_get_def is_set_def is_del_def split: access.split)

lemma count_filter: "P x \<Longrightarrow> count_list (filter P ms) x = count_list ms x"
  by (induction ms) auto

lemma collect_laws:
  assumes "prom_laws p"
  shows "\<bar>prom_value p (CacheHits c)\<bar> < 2 ^ 53 \<Longrightarrow>
      prom_value p (CacheHits (collect p e c)) = prom_value p (CacheHits c) + (if e = RecordCacheHit then 1 else 0)"
    and "\<bar>prom_value p (CacheMisses c)\<bar> < 2 ^ 53 \<Longrightarrow>
      prom_value p (CacheMisses (collect p e c)) = prom_value p (CacheMisses c) + (if e = RecordCacheMiss then 1 else 0)"
    and "\<bar>prom_label p l (OperationsTotal c)\<bar> < 2 ^ 53 \<Longrightarrow>
      prom_label p l (OperationsTotal (collect p e c)) = prom_label p l (OperationsTotal c) + (if e = RecordOperation l then 1 else 0)"
    and "prom_value p (ItemsCount (collect p e c)) = (case items_set e of None \<Rightarrow> prom_value p (ItemsCount c) | Some m \<Rightarrow> f64 m)"
    and "prom_value p (MemoryBytes (collect p e c)) = (case memory_set e of None \<Rightarrow> prom_value p (MemoryBytes c) | Some m \<Rightarrow> f64 m)"
  using assms by (cases e; simp add: collect_def prom_laws_def)+


text \<open>A library that keeps its laws: integers as instruments, the names in use as the registry.\<close>

definition sample_new :: "'i \<Rightarrow> string \<Rightarrow> string list \<Rightarrow> ('i \<times> string list) option" where
  "sample_new i name r = (if name \<in> set r then None else Some (i, name # r))"

definition sample_prom :: "(int, string \<Rightarrow> int, string list) prometheus" where
  "sample_prom = \<lparr>prom_NewCounterVec = \<lambda>name _ _. sample_new (\<lambda>_. 0) name, prom_NewCounter = \<lambda>name _. sample_new 0 name,
     prom_NewHistogram = \<lambda>name _ _. sample_new 0 name, prom_NewGauge = \<lambda>name _. sample_new 0 name,
     prom_IncLabel = \<lambda>l v. v(l := v l + 1), prom_Inc = \<lambda>i. i + 1, prom_Dec = \<lambda>i. i - 1, prom_Set = \<lambda>x _. x,
     prom_Observe = \<lambda>_ i. i + 1, prom_label = \<lambda>l v. v l, prom_value = \<lambda>i. i, prom_names = \<lambda>r. r\<rparr>"

lemma sample_prom_laws: "prom_laws sample_prom"
  by (auto simp: prom_laws_def sample_prom_def registers_def sample_new_def)


text \<open>
  The counter of expirations does not count items: every read of an expired item counts it again, and
  so does its removal. Here one item is read twice and then removed.
\<close>

lemma expirations_count_reads:
  "map_option (\<lambda>(rs, c). count_list (metrics c) RecordExpiration)
     (runs [ASet 5 ''a'' ''1'' 10, AGet 20 ''a'', AGet 21 ''a'', AClean (\<lambda>m. m) 22] (NewCache 1 [])) = Some 3"
  by code_simp

end
