(* ===== verification/Sha256.thy ===== *)
theory Sha256
  imports Go_Lib "HOL-Library.Word"
begin

text \<open>
  SHA-256 (\<open>crypto/sha256\<close> of the Go library, FIPS 180-4), which places keys and virtual nodes on
  the ring of \<open>internal/cluster/hash.go\<close>: padding, message schedule and compression over 32-bit
  words.
\<close>

unbundle bit_operations_syntax

definition rotr :: "nat \<Rightarrow> 32 word \<Rightarrow> 32 word" where
  "rotr n x = drop_bit n x OR push_bit (32 - n) x"

text \<open>
  The constants: the first 32 bits of the fractional parts of the cube roots of the first 64 primes,
  and of the square roots of the first eight. A root is found bit by bit; \<open>36\<close> bits are enough for
  the roots of numbers below \<open>4096\<close> scaled by \<open>2 ^ 32\<close>.
\<close>

fun root_bits :: "nat \<Rightarrow> int \<Rightarrow> nat \<Rightarrow> int \<Rightarrow> int" where
  "root_bits k n 0 r = r"
| "root_bits k n (Suc i) r = root_bits k n i (if (r + 2 ^ i) ^ k \<le> n then r + 2 ^ i else r)"

definition frac_root :: "nat \<Rightarrow> int \<Rightarrow> 32 word" where
  "frac_root k p = word_of_int (root_bits k (p * 2 ^ (32 * k)) 36 0)"

definition sha_primes :: "int list" where
  "sha_primes =
    [2, 3, 5, 7, 11, 13, 17, 19, 23, 29, 31, 37, 41, 43, 47, 53, 59, 61, 67, 71, 73, 79, 83, 89, 97, 101,
     103, 107, 109, 113, 127, 131, 137, 139, 149, 151, 157, 163, 167, 173, 179, 181, 191, 193, 197, 199,
     211, 223, 227, 229, 233, 239, 241, 251, 257, 263, 269, 271, 277, 281, 283, 293, 307, 311]"

definition sha_k :: "32 word list" where
  "sha_k = map (frac_root 3) sha_primes"

definition sha_init :: "32 word list" where
  "sha_init = map (frac_root 2) (take 8 sha_primes)"

text \<open>The bits that are found are the integer part of the root, and two known constants.\<close>

lemma root_bits_correct:
  assumes "0 \<le> r" and "r ^ k \<le> n" and "n < (r + 2 ^ i) ^ k"
  shows "0 \<le> root_bits k n i r \<and> root_bits k n i r ^ k \<le> n \<and> n < (root_bits k n i r + 1) ^ k"
  using assms by (induction i arbitrary: r) (auto simp: not_le algebra_simps)

lemma frac_root_known: "frac_root 3 311 = 0xc67178f2" "frac_root 2 2 = 0x6a09e667"
  by code_simp+

lemma sha_primes_length: "length sha_primes = 64"
  by (simp add: sha_primes_def)

text \<open>The padding: a one bit, zeros up to 56 bytes modulo 64, and the length in bits.\<close>

fun be_bytes :: "nat \<Rightarrow> int \<Rightarrow> int list" where
  "be_bytes 0 n = []"
| "be_bytes (Suc k) n = be_bytes k (n div 256) @ [n mod 256]"

definition sha_pad :: "int list \<Rightarrow> int list" where
  "sha_pad bs = bs @ 128 # replicate ((119 - length bs mod 64) mod 64) 0 @ be_bytes 8 (8 * int (length bs))"

fun be_words :: "int list \<Rightarrow> 32 word list" where
  "be_words (a # b # c # d # bs) = word_of_int (a * 16777216 + b * 65536 + c * 256 + d) # be_words bs"
| "be_words _ = []"

text \<open>
  The message schedule is extended one word at a time from the sixteen words before it; the list
  holds them with the latest first.
\<close>

definition schedule_next :: "32 word list \<Rightarrow> 32 word" where
  "schedule_next ws =
     (let w15 = ws ! 14; w2 = ws ! 1;
          s0 = (rotr 7 w15 XOR rotr 18 w15) XOR drop_bit 3 w15;
          s1 = (rotr 17 w2 XOR rotr 19 w2) XOR drop_bit 10 w2
      in ws ! 15 + s0 + ws ! 6 + s1)"

fun schedule :: "nat \<Rightarrow> 32 word list \<Rightarrow> 32 word list" where
  "schedule 0 ws = rev ws"
| "schedule (Suc n) ws = schedule n (schedule_next ws # ws)"

fun sha_round :: "32 word \<times> 32 word \<Rightarrow> 32 word list \<Rightarrow> 32 word list" where
  "sha_round (k, w) [a, b, c, d, e, f, g, h] =
     (let s1 = (rotr 6 e XOR rotr 11 e) XOR rotr 25 e;
          ch = (e AND f) XOR ((NOT e) AND g);
          t1 = h + s1 + ch + k + w;
          s0 = (rotr 2 a XOR rotr 13 a) XOR rotr 22 a;
          maj = ((a AND b) XOR (a AND c)) XOR (b AND c);
          t2 = s0 + maj
      in [t1 + t2, a, b, c, d + t1, e, f, g])"
| "sha_round _ st = st"

definition sha_block :: "32 word list \<Rightarrow> 32 word list \<Rightarrow> 32 word list" where
  "sha_block st ws = map2 (+) st (fold sha_round (zip sha_k (schedule 48 (rev ws))) st)"

function sha_blocks :: "32 word list \<Rightarrow> 32 word list \<Rightarrow> 32 word list" where
  "sha_blocks st ws = (if length ws < 16 then st else sha_blocks (sha_block st (take 16 ws)) (drop 16 ws))"
  by pat_completeness auto
termination
  by (relation "measure (length \<circ> snd)") auto

declare sha_blocks.simps [simp del]

definition sha256 :: "string \<Rightarrow> 32 word list" where
  "sha256 s = sha_blocks sha_init (be_words (sha_pad (map of_char s)))"

end
