(* ===== verification/Hash_Ring.thy ===== *)
theory Hash_Ring
  imports Sha256 "HOL-Library.Multiset"
begin

text \<open>
  The consistent hash ring of \<open>internal/cluster/hash.go\<close>. The operations take the hash function as
  an argument; the code's own is \<open>hash\<close>. A range over a Go map takes its order as an argument.

  The theory shows that the binary search finds the first position clockwise from the key, that
  adding a shard moves keys to that shard only, that removing one moves its keys only, that
  removing undoes adding, and what happens to a shard that is added twice.
\<close>

section \<open>Operations\<close>

record HashRing =
  hashValues :: "32 word list"
  hashToShard :: "(32 word, string) gomap"
  nodeAddresses :: "(string, string) gomap"
  virtualNodes :: int
  shardToNodes :: "(string, string list) gomap"

definition NewHashRing :: "int \<Rightarrow> HashRing" where
  "NewHashRing vn =
     \<lparr>hashValues = [], hashToShard = [], nodeAddresses = [], virtualNodes = vn, shardToNodes = []\<rparr>"

text \<open>The first four bytes of the digest, big endian: its first word.\<close>

definition hash :: "string \<Rightarrow> 32 word" where
  "hash k = hd (sha256 k)"

definition virtualKey :: "string \<Rightarrow> nat \<Rightarrow> string" where
  "virtualKey shardID i = shardID @ ''-'' @ Itoa (int i)"

definition AddShard :: "(string \<Rightarrow> 32 word) \<Rightarrow> string \<Rightarrow> HashRing \<Rightarrow> HashRing" where
  "AddShard H shardID hr =
     (let hr1 = fold (\<lambda>i hr.
                  let hashValue = H (virtualKey shardID i)
                  in hr\<lparr>hashToShard := gset hashValue shardID (hashToShard hr),
                        hashValues := hashValues hr @ [hashValue]\<rparr>)
                [0..<nat (virtualNodes hr)] hr
      in hr1\<lparr>hashValues := sort (hashValues hr1)\<rparr>)"

definition RemoveShard :: "(string \<Rightarrow> 32 word) \<Rightarrow> string \<Rightarrow> HashRing \<Rightarrow> HashRing" where
  "RemoveShard H shardID hr =
     fold (\<lambda>i hr.
       let hashValue = H (virtualKey shardID i)
       in hr\<lparr>hashToShard := gdel hashValue (hashToShard hr),
             hashValues := remove1 hashValue (hashValues hr)\<rparr>)
     [0..<nat (virtualNodes hr)] hr"

text \<open>\<open>sort.Search(n, f)\<close>: the loop keeps \<open>f (i - 1) = False\<close> and \<open>f j = True\<close>.\<close>

function search_loop :: "(nat \<Rightarrow> bool) \<Rightarrow> nat \<Rightarrow> nat \<Rightarrow> nat" where
  "search_loop f i j =
     (if i < j
      then let h = (i + j) div 2 in if \<not> f h then search_loop f (h + 1) j else search_loop f i h
      else i)"
  by pat_completeness auto
termination
  by (relation "measure (\<lambda>(f, i, j). j - i)") auto

declare search_loop.simps [simp del]

definition Search :: "nat \<Rightarrow> (nat \<Rightarrow> bool) \<Rightarrow> nat" where
  "Search n f = search_loop f 0 n"

text \<open>A Go map yields the zero value, here the empty string, for a key that is not there.\<close>

definition get0 :: "('k, string) gomap \<Rightarrow> 'k \<Rightarrow> string" where
  "get0 m k = (case gget m k of None \<Rightarrow> [] | Some v \<Rightarrow> v)"

definition GetShard :: "(string \<Rightarrow> 32 word) \<Rightarrow> string \<Rightarrow> HashRing \<Rightarrow> gerror + string" where
  "GetShard H k hr =
     (if length (hashValues hr) = 0 then Inl (Err ''hash ring is empty'')
      else
        let keyHash = H k;
            idx = Search (length (hashValues hr)) (\<lambda>i. hashValues hr ! i \<ge> keyHash);
            idx = (if idx \<ge> length (hashValues hr) then 0 else idx);
            hashValue = hashValues hr ! idx
        in Inr (get0 (hashToShard hr) hashValue))"

definition GetNode :: "(string \<Rightarrow> 32 word) \<Rightarrow> string \<Rightarrow> HashRing \<Rightarrow> gerror + string" where
  "GetNode H k hr =
     (if length (hashValues hr) = 0 then Inl (Err ''hash ring is empty'')
      else
        let keyHash = H k;
            idx = Search (length (hashValues hr)) (\<lambda>i. hashValues hr ! i \<ge> keyHash);
            idx = (if idx \<ge> length (hashValues hr) then 0 else idx);
            hashValue = hashValues hr ! idx
        in Inr (get0 (hashToShard hr) hashValue))"

text \<open>
  \<open>GetNodes\<close> collects the values of a map as the keys of another; \<open>ord\<close> and \<open>ord'\<close> are the orders
  of the two loops, the second one a function of the set that the first one built.
\<close>

definition unique_nodes :: "(32 word, string) gomap \<Rightarrow> (string, bool) gomap" where
  "unique_nodes ord = fold (\<lambda>(_, nodeID) m. gset nodeID True m) ord []"

definition GetNodes ::
    "(32 word, string) gomap \<Rightarrow> ((string, bool) gomap \<Rightarrow> (string, bool) gomap) \<Rightarrow> string list" where
  "GetNodes ord ord' = map fst (ord' (unique_nodes ord))"

definition GetNodeCount ::
    "(32 word, string) gomap \<Rightarrow> ((string, bool) gomap \<Rightarrow> (string, bool) gomap) \<Rightarrow> int" where
  "GetNodeCount ord ord' = int (length (GetNodes ord ord'))"

definition GetAllShards ::
    "(32 word, string) gomap \<Rightarrow> ((string, bool) gomap \<Rightarrow> (string, bool) gomap) \<Rightarrow> string list" where
  "GetAllShards ord ord' = map fst (ord' (unique_nodes ord))"

definition GetNodeAddress :: "string \<Rightarrow> HashRing \<Rightarrow> string" where
  "GetNodeAddress nodeID hr = get0 (nodeAddresses hr) nodeID"

definition SetNodeAddress :: "string \<Rightarrow> string \<Rightarrow> HashRing \<Rightarrow> HashRing" where
  "SetNodeAddress nodeID address hr = hr\<lparr>nodeAddresses := gset nodeID address (nodeAddresses hr)\<rparr>"

definition SetShardNodes :: "string \<Rightarrow> string list \<Rightarrow> HashRing \<Rightarrow> HashRing" where
  "SetShardNodes shardID nodeIDs hr = hr\<lparr>shardToNodes := gset shardID nodeIDs (shardToNodes hr)\<rparr>"

definition GetShardNodes :: "string \<Rightarrow> HashRing \<Rightarrow> gerror + string list" where
  "GetShardNodes shardID hr =
     (case gget (shardToNodes hr) shardID of
        None \<Rightarrow> Inl (Err (''shard '' @ shardID @ '' not found''))
      | Some nodes \<Rightarrow> Inr nodes)"

definition GetShardLeader :: "string \<Rightarrow> HashRing \<Rightarrow> gerror + string" where
  "GetShardLeader shardID hr =
     (case GetShardNodes shardID hr of
        Inl err \<Rightarrow> Inl err
      | Inr nodes \<Rightarrow>
          (case nodes of
             [] \<Rightarrow> Inl (Err (''shard '' @ shardID @ '' has no nodes''))
           | n # _ \<Rightarrow> Inr n))"

definition GetShardFollowers :: "string \<Rightarrow> HashRing \<Rightarrow> gerror + string list" where
  "GetShardFollowers shardID hr =
     (case GetShardNodes shardID hr of
        Inl err \<Rightarrow> Inl err
      | Inr nodes \<Rightarrow> if length nodes \<le> 1 then Inr [] else Inr (drop 1 nodes))"

section \<open>Clockwise distance\<close>

text \<open>The distance from \<open>a\<close> clockwise to \<open>b\<close> on the ring of 32-bit values.\<close>

definition cw :: "32 word \<Rightarrow> 32 word \<Rightarrow> 32 word" where
  "cw a b = b - a"

lemma cw_self [simp]: "cw a a = 0"
  by (simp add: cw_def)

lemma cw_zero [simp]: "cw a b = 0 \<longleftrightarrow> a = b"
  by (auto simp: cw_def)

lemma cw_inj [simp]: "cw a b = cw a c \<longleftrightarrow> b = c"
  by (simp add: cw_def)

lemma cw_split:
  assumes "cw a b \<le> cw a c"
  shows "uint (cw a c) = uint (cw a b) + uint (cw b c)"
proof -
  have "cw b c = cw a c - cw a b" by (simp add: cw_def)
  moreover have "uint (cw a c - cw a b) = uint (cw a c) - uint (cw a b)"
    using assms by (simp add: uint_sub_lem[symmetric] word_le_def)
  ultimately show ?thesis by simp
qed

lemma cw_uint: "uint (cw a b) = (if a \<le> b then uint b - uint a else uint b - uint a + 4294967296)"
proof -
  have r: "0 \<le> uint a" "uint a < 4294967296" "0 \<le> uint b" "uint b < 4294967296"
    using uint_lt2p[of a] uint_lt2p[of b] by simp_all
  have "uint (cw a b) = (uint b - uint a) mod 4294967296"
    by (simp add: cw_def uint_word_ariths)
  also have "\<dots> = (if uint a \<le> uint b then uint b - uint a else uint b - uint a + 4294967296)"
  proof (cases "uint a \<le> uint b")
    case False
    have "(uint b - uint a) mod 4294967296 = (uint b - uint a + 4294967296) mod 4294967296" by simp
    also have "\<dots> = uint b - uint a + 4294967296" using r False by (intro mod_pos_pos_trivial) linarith+
    finally show ?thesis using False by simp
  next
    case True
    then have "(uint b - uint a) mod 4294967296 = uint b - uint a"
      using r by (intro mod_pos_pos_trivial) linarith+
    with True show ?thesis by simp
  qed
  finally show ?thesis by (simp add: word_le_def)
qed

lemma int_cw_le_iff:
  fixes a b h :: int
  assumes "0 \<le> a" "0 \<le> b" "0 \<le> h" "a < 4294967296" "b < 4294967296" "h < 4294967296"
  shows "(if h \<le> a then a - h else a - h + 4294967296) \<le> (if h \<le> b then b - h else b - h + 4294967296) \<longleftrightarrow>
    (if h \<le> a then a \<le> b \<or> b < h else \<not> h \<le> b \<and> a \<le> b)"
  using assms by auto

lemma cw_le_iff:
  "cw h a \<le> cw h b \<longleftrightarrow> (if h \<le> a then a \<le> b \<or> b < h else \<not> h \<le> b \<and> a \<le> b)"
  unfolding word_le_def word_less_def cw_uint
  by (rule int_cw_le_iff)
    (use uint_lt2p[of a] uint_lt2p[of b] uint_lt2p[of h] in simp_all)

section \<open>Binary search\<close>

lemma search_loop_threshold:
  "i \<le> t \<Longrightarrow> t \<le> j \<Longrightarrow> \<forall>k < t. \<not> f k \<Longrightarrow> \<forall>k. t \<le> k \<longrightarrow> k < j \<longrightarrow> f k \<Longrightarrow> search_loop f i j = t"
proof (induction f i j rule: search_loop.induct)
  case (1 f i j)
  let ?h = "(i + j) div 2"
  show ?case
  proof (cases "i < j")
    case True
    then have h: "?h < j" by simp
    show ?thesis
    proof (cases "f ?h")
      case True
      then have "t \<le> ?h" using "1.prems"(3) by (meson not_le)
      with "1.IH"(2)[OF \<open>i < j\<close> refl] True "1.prems" h show ?thesis
        by (subst search_loop.simps) simp
    next
      case False
      then have "?h + 1 \<le> t" using "1.prems"(4) h by (metis Suc_eq_plus1 not_less_eq_eq)
      with "1.IH"(1)[OF \<open>i < j\<close> refl False] False "1.prems" \<open>i < j\<close> show ?thesis
        by (subst search_loop.simps) simp
    qed
  next
    case False
    with "1.prems" show ?thesis by (subst search_loop.simps) simp
  qed
qed

text \<open>The reference for the search in a sorted slice.\<close>

lemma Search_sorted:
  fixes xs :: "'a::linorder list"
  assumes "sorted xs"
  shows "Search (length xs) (\<lambda>i. xs ! i \<ge> x) = length (takeWhile (\<lambda>y. y < x) xs)"
proof -
  let ?t = "length (takeWhile (\<lambda>y. y < x) xs)"
  have "xs ! k < x" if "k < ?t" for k
    using that set_takeWhileD[of "xs ! k" "\<lambda>y. y < x" xs] nth_mem[OF that] by (simp add: takeWhile_nth)
  moreover have "x \<le> xs ! k" if "?t \<le> k" "k < length xs" for k
  proof -
    have "\<not> xs ! ?t < x" using that by (intro nth_length_takeWhile) simp
    then show ?thesis using sorted_nth_mono[OF assms that] by simp
  qed
  ultimately show ?thesis
    unfolding Search_def by (intro search_loop_threshold) (auto simp: length_takeWhile_le not_le)
qed

definition succ_pos :: "32 word \<Rightarrow> 32 word list \<Rightarrow> 32 word" where
  "succ_pos h xs =
     (let idx = length (takeWhile (\<lambda>y. y < h) xs) in xs ! (if idx \<ge> length xs then 0 else idx))"

text \<open>It is the position nearest to \<open>h\<close> in clockwise direction.\<close>

lemma succ_pos_nearest:
  assumes "sorted xs" and "xs \<noteq> []"
  shows "succ_pos h xs \<in> set xs" and "q \<in> set xs \<Longrightarrow> cw h (succ_pos h xs) \<le> cw h q"
proof -
  let ?t = "length (takeWhile (\<lambda>y. y < h) xs)"
  show "succ_pos h xs \<in> set xs"
    using assms(2) by (auto simp: succ_pos_def Let_def intro: nth_mem)
  assume q: "q \<in> set xs"
  show "cw h (succ_pos h xs) \<le> cw h q"
  proof (cases "?t < length xs")
    case True
    have ge: "h \<le> xs ! ?t" using nth_length_takeWhile[OF True] by simp
    obtain i where i: "i < length xs" "xs ! i = q" using q by (metis in_set_conv_nth)
    have "xs ! ?t \<le> q \<or> q < h"
    proof (cases "i < ?t")
      case lt: True
      have "takeWhile (\<lambda>y. y < h) xs ! i \<in> set (takeWhile (\<lambda>y. y < h) xs)" using lt by (rule nth_mem)
      then have "q < h" using lt i(2) by (auto simp: takeWhile_nth dest: set_takeWhileD)
      then show ?thesis by simp
    next
      case False
      then show ?thesis using sorted_nth_mono[OF assms(1), of ?t i] i by simp
    qed
    then show ?thesis using True ge by (simp add: succ_pos_def cw_le_iff)
  next
    case False
    then have "length (takeWhile (\<lambda>y. y < h) xs) = length xs"
      using length_takeWhile_le[of "\<lambda>y. y < h" xs] by simp
    then have all: "\<forall>y \<in> set xs. y < h"
      by (metis takeWhile_eq_all_conv takeWhile_eq_take take_all_iff order_refl)
    have "xs ! 0 \<le> q" using assms q by (cases xs) auto
    then show ?thesis using False all q assms(2) by (auto simp: succ_pos_def cw_le_iff not_le)
  qed
qed

lemma succ_pos_unique:
  assumes "sorted xs" and "p \<in> set xs" and "\<And>q. q \<in> set xs \<Longrightarrow> cw h p \<le> cw h q"
  shows "succ_pos h xs = p"
proof -
  have ne: "xs \<noteq> []" using assms(2) by auto
  have "cw h (succ_pos h xs) = cw h p"
    using succ_pos_nearest[OF assms(1) ne] assms(2,3) by (intro antisym) auto
  then show ?thesis by simp
qed

lemma GetShard_succ:
  "sorted (hashValues hr) \<Longrightarrow> hashValues hr \<noteq> [] \<Longrightarrow>
   GetShard H k hr = Inr (get0 (hashToShard hr) (succ_pos (H k) (hashValues hr)))"
  by (simp add: GetShard_def Search_sorted succ_pos_def Let_def)

section \<open>Adding and removing\<close>

definition positions :: "(string \<Rightarrow> 32 word) \<Rightarrow> int \<Rightarrow> string \<Rightarrow> 32 word list" where
  "positions H vn s = map (\<lambda>i. H (virtualKey s i)) [0..<nat vn]"

lemma add_loop:
  "hashValues (fold (\<lambda>i hr. hr\<lparr>hashToShard := gset (f i) s (hashToShard hr), hashValues := hashValues hr @ [f i]\<rparr>) is hr)
     = hashValues hr @ map f is"
  "gget (hashToShard (fold (\<lambda>i hr. hr\<lparr>hashToShard := gset (f i) s (hashToShard hr), hashValues := hashValues hr @ [f i]\<rparr>) is hr)) p
     = (if p \<in> f ` set is then Some s else gget (hashToShard hr) p)"
  "virtualNodes (fold (\<lambda>i hr. hr\<lparr>hashToShard := gset (f i) s (hashToShard hr), hashValues := hashValues hr @ [f i]\<rparr>) is hr)
     = virtualNodes hr"
  by (induction "is" arbitrary: hr) (auto simp: gget_gset)

lemma AddShard_simps:
  "hashValues (AddShard H s hr) = sort (hashValues hr @ positions H (virtualNodes hr) s)"
  "gget (hashToShard (AddShard H s hr)) p =
     (if p \<in> set (positions H (virtualNodes hr) s) then Some s else gget (hashToShard hr) p)"
  "virtualNodes (AddShard H s hr) = virtualNodes hr"
  by (simp_all add: AddShard_def Let_def add_loop positions_def)

lemma remove_loop:
  "hashValues (fold (\<lambda>i hr. hr\<lparr>hashToShard := gdel (f i) (hashToShard hr), hashValues := remove1 (f i) (hashValues hr)\<rparr>) is hr)
     = fold remove1 (map f is) (hashValues hr)"
  "gget (hashToShard (fold (\<lambda>i hr. hr\<lparr>hashToShard := gdel (f i) (hashToShard hr), hashValues := remove1 (f i) (hashValues hr)\<rparr>) is hr)) p
     = (if p \<in> f ` set is then None else gget (hashToShard hr) p)"
  "virtualNodes (fold (\<lambda>i hr. hr\<lparr>hashToShard := gdel (f i) (hashToShard hr), hashValues := remove1 (f i) (hashValues hr)\<rparr>) is hr)
     = virtualNodes hr"
  by (induction "is" arbitrary: hr) (auto simp: gget_gdel)

lemma RemoveShard_simps:
  "hashValues (RemoveShard H s hr) = fold remove1 (positions H (virtualNodes hr) s) (hashValues hr)"
  "gget (hashToShard (RemoveShard H s hr)) p =
     (if p \<in> set (positions H (virtualNodes hr) s) then None else gget (hashToShard hr) p)"
  "virtualNodes (RemoveShard H s hr) = virtualNodes hr"
  by (simp_all add: RemoveShard_def Let_def remove_loop positions_def)

lemma fold_remove1_sorted: "sorted xs \<Longrightarrow> sorted (fold remove1 ps xs)"
  by (induction ps arbitrary: xs) (simp_all add: sorted_remove1)

lemma fold_remove1_distinct:
  "distinct xs \<Longrightarrow> distinct (fold remove1 ps xs) \<and> set (fold remove1 ps xs) = set xs - set ps"
  by (induction ps arbitrary: xs) auto

lemma fold_remove1_mset: "mset (fold remove1 ps xs) = mset xs - mset ps"
  by (induction ps arbitrary: xs) (simp_all add: diff_diff_add_mset[symmetric])

text \<open>
  A ring without collisions: sorted, each position once, and every position owned by a shard.
\<close>

definition ring_ok :: "HashRing \<Rightarrow> bool" where
  "ring_ok hr \<longleftrightarrow> sorted (hashValues hr) \<and> distinct (hashValues hr) \<and>
     dom (gget (hashToShard hr)) = set (hashValues hr)"

text \<open>The new positions of \<open>s\<close> are distinct and free.\<close>

definition free_for :: "(string \<Rightarrow> 32 word) \<Rightarrow> string \<Rightarrow> HashRing \<Rightarrow> bool" where
  "free_for H s hr \<longleftrightarrow> distinct (positions H (virtualNodes hr) s) \<and>
     set (positions H (virtualNodes hr) s) \<inter> set (hashValues hr) = {}"

text \<open>The positions computed for \<open>s\<close> are its own: nobody else owns one.\<close>

definition owns :: "(string \<Rightarrow> 32 word) \<Rightarrow> string \<Rightarrow> HashRing \<Rightarrow> bool" where
  "owns H s hr \<longleftrightarrow> (\<forall>p t. gget (hashToShard hr) p = Some t \<longrightarrow>
     (p \<in> set (positions H (virtualNodes hr) s) \<longleftrightarrow> t = s))"

lemma ring_ok_NewHashRing: "ring_ok (NewHashRing vn)"
  by (simp add: ring_ok_def NewHashRing_def)

lemma ring_ok_AddShard: "ring_ok hr \<Longrightarrow> free_for H s hr \<Longrightarrow> ring_ok (AddShard H s hr)"
  by (auto simp: ring_ok_def free_for_def AddShard_simps dom_def)

lemma ring_ok_RemoveShard: "ring_ok hr \<Longrightarrow> ring_ok (RemoveShard H s hr)"
  using fold_remove1_distinct[of "hashValues hr" "positions H (virtualNodes hr) s"]
  by (auto simp: ring_ok_def RemoveShard_simps fold_remove1_sorted dom_def)

lemma owns_AddShard:
  "ring_ok hr \<Longrightarrow> (\<And>p. gget (hashToShard hr) p \<noteq> Some s) \<Longrightarrow> free_for H s hr \<Longrightarrow> owns H s (AddShard H s hr)"
  by (force simp: owns_def AddShard_simps free_for_def ring_ok_def)

section \<open>Placement\<close>

text \<open>
  The contract of a placement of keys on shards, for the clients that only ask for the owner of
  a key: a shard that joins takes keys over, but no key changes between two other shards.
\<close>

locale placement =
  fixes owner :: "'r \<Rightarrow> 'k \<Rightarrow> 's"
    and add :: "'s \<Rightarrow> 'r \<Rightarrow> 'r"
    and ok :: "'r \<Rightarrow> bool"
  assumes add_owner: "ok r \<Longrightarrow> owner (add s r) k = s \<or> owner (add s r) k = owner r k"
    and add_ok: "ok r \<Longrightarrow> ok (add s r)"
begin

lemma adds_owner: "ok r \<Longrightarrow> owner (fold add ss r) k \<in> set ss \<union> {owner r k}"
proof (induction ss arbitrary: r)
  case (Cons s ss)
  have "owner (fold add ss (add s r)) k \<in> set ss \<union> {owner (add s r) k}"
    by (rule Cons.IH) (rule add_ok[OF Cons.prems])
  with add_owner[OF Cons.prems, of s k] show ?case by auto
qed simp

end

definition owner_of :: "(string \<Rightarrow> 32 word) \<Rightarrow> HashRing \<Rightarrow> string \<Rightarrow> string" where
  "owner_of H hr k = get0 (hashToShard hr) (succ_pos (H k) (hashValues hr))"

definition populated :: "HashRing \<Rightarrow> bool" where
  "populated hr \<longleftrightarrow> sorted (hashValues hr) \<and> hashValues hr \<noteq> []"

lemma GetShard_owner: "populated hr \<Longrightarrow> GetShard H k hr = Inr (owner_of H hr k)"
  by (simp add: populated_def owner_of_def GetShard_succ)

lemma populated_AddShard: "populated hr \<Longrightarrow> populated (AddShard H s hr)"
proof -
  assume "populated hr"
  then have "length (hashValues (AddShard H s hr)) \<noteq> 0"
    by (simp add: populated_def AddShard_simps)
  then have "hashValues (AddShard H s hr) \<noteq> []" by auto
  moreover have "sorted (hashValues (AddShard H s hr))" by (simp add: AddShard_simps)
  ultimately show ?thesis by (simp only: populated_def simp_thms)
qed

lemma owner_AddShard:
  assumes "populated hr"
  shows "owner_of H (AddShard H s hr) k = s \<or> owner_of H (AddShard H s hr) k = owner_of H hr k"
proof -
  let ?new = "set (positions H (virtualNodes hr) s)"
  let ?p = "succ_pos (H k) (hashValues (AddShard H s hr))"
  have set: "set (hashValues (AddShard H s hr)) = set (hashValues hr) \<union> ?new"
    by (simp add: AddShard_simps)
  have p: "?p \<in> set (hashValues (AddShard H s hr))"
    "q \<in> set (hashValues (AddShard H s hr)) \<Longrightarrow> cw (H k) ?p \<le> cw (H k) q" for q
    using succ_pos_nearest populated_AddShard[OF assms] unfolding populated_def by blast+
  show ?thesis
  proof (cases "?p \<in> ?new")
    case True
    then show ?thesis by (simp add: owner_of_def get0_def AddShard_simps(2))
  next
    case False
    then have "succ_pos (H k) (hashValues hr) = ?p"
      using p set assms by (intro succ_pos_unique) (auto simp: populated_def)
    with False show ?thesis by (simp add: owner_of_def get0_def AddShard_simps(2))
  qed
qed

interpretation ring: placement "owner_of H" "AddShard H" populated for H
  by unfold_locales (rule owner_AddShard populated_AddShard; assumption)+

lemma owner_RemoveShard:
  assumes ok: "ring_ok hr" and own: "owns H s hr" and ne: "hashValues hr \<noteq> []" and other: "owner_of H hr k \<noteq> s"
  shows "populated (RemoveShard H s hr) \<and> owner_of H (RemoveShard H s hr) k = owner_of H hr k"
proof -
  let ?gone = "set (positions H (virtualNodes hr) s)"
  let ?p = "succ_pos (H k) (hashValues hr)"
  have p: "?p \<in> set (hashValues hr)" "q \<in> set (hashValues hr) \<Longrightarrow> cw (H k) ?p \<le> cw (H k) q" for q
    using succ_pos_nearest[OF _ ne] ok by (auto simp: ring_ok_def)
  then obtain t where t: "gget (hashToShard hr) ?p = Some t" using ok by (auto simp: ring_ok_def)
  then have "?p \<notin> ?gone" using own other by (auto simp: owns_def owner_of_def get0_def)
  have set: "set (hashValues (RemoveShard H s hr)) = set (hashValues hr) - ?gone"
    and sorted: "sorted (hashValues (RemoveShard H s hr))"
    using ok fold_remove1_distinct[of "hashValues hr"] by (auto simp: ring_ok_def RemoveShard_simps fold_remove1_sorted)
  have "succ_pos (H k) (hashValues (RemoveShard H s hr)) = ?p"
    using sorted p set \<open>?p \<notin> ?gone\<close> by (intro succ_pos_unique) auto
  moreover have "hashValues (RemoveShard H s hr) \<noteq> []" using set p(1) \<open>?p \<notin> ?gone\<close> by auto
  ultimately show ?thesis
    using sorted \<open>?p \<notin> ?gone\<close> by (simp add: owner_of_def get0_def RemoveShard_simps populated_def)
qed

section \<open>What the ring promises\<close>

lemma virtualKey_0: "virtualKey s 0 = s @ ''-0''"
proof -
  have "Itoa 0 = ''0''" by code_simp
  then show ?thesis by (simp add: virtualKey_def)
qed

text \<open>A ring as the server makes it: shards join and leave an empty ring.\<close>

datatype membership = Join string | Leave string

fun member_step :: "(string \<Rightarrow> 32 word) \<Rightarrow> membership \<Rightarrow> HashRing \<Rightarrow> HashRing" where
  "member_step H (Join s) hr = AddShard H s hr"
| "member_step H (Leave s) hr = RemoveShard H s hr"

lemma member_steps_sorted:
  "sorted (hashValues hr) \<Longrightarrow> sorted (hashValues (fold (member_step H) ms hr))"
proof (induction ms arbitrary: hr)
  case (Cons m ms)
  have "sorted (hashValues (member_step H m hr))"
    using Cons.prems by (cases m) (simp_all add: AddShard_simps RemoveShard_simps fold_remove1_sorted)
  with Cons.IH show ?case by simp
qed simp

text \<open>
  C15: Lookup on any ring that joins and leaves produce: an error on the empty ring; otherwise the
  owner is the shard at the position nearest to the hash of the key in clockwise direction,
  around the end of the 32-bit range, and the other lookup, \<open>GetNode\<close>, agrees.
\<close>

theorem lookup_is_clockwise_successor:
  "let hr = fold (member_step H) ms (NewHashRing vn)
   in GetNode H k hr = GetShard H k hr \<and>
      (if hashValues hr = [] then GetShard H k hr = Inl (Err ''hash ring is empty'')
       else \<exists>p \<in> set (hashValues hr). GetShard H k hr = Inr (get0 (hashToShard hr) p) \<and>
              (\<forall>q \<in> set (hashValues hr). uint (p - H k) \<le> uint (q - H k)))"
proof -
  let ?hr = "fold (member_step H) ms (NewHashRing vn)"
  have s: "sorted (hashValues ?hr)"
    by (rule member_steps_sorted) (simp add: NewHashRing_def)
  have "GetNode H k ?hr = GetShard H k ?hr" by (simp only: GetNode_def GetShard_def)
  moreover have "GetShard H k ?hr = Inl (Err ''hash ring is empty'')" if "hashValues ?hr = []"
    using that by (simp add: GetShard_def)
  moreover have "\<exists>p \<in> set (hashValues ?hr). GetShard H k ?hr = Inr (get0 (hashToShard ?hr) p) \<and>
      (\<forall>q \<in> set (hashValues ?hr). uint (p - H k) \<le> uint (q - H k))" if "hashValues ?hr \<noteq> []"
    using succ_pos_nearest[OF s that, where h = "H k"] GetShard_succ[OF s that]
    by (auto simp: cw_def word_le_def intro!: bexI[of _ "succ_pos (H k) (hashValues ?hr)"])
  ultimately show ?thesis by (simp add: Let_def)
qed

theorem lookup_is_clockwise_successor_witness:
  "let hr = fold (member_step (\<lambda>k. if k = ''a-0'' then 10 else if k = ''b-0'' then 20 else 25))
              [Join ''a'', Join ''b''] (NewHashRing 1)
   in hashValues hr = [10, 20] \<and>
      GetShard (\<lambda>k. if k = ''a-0'' then 10 else if k = ''b-0'' then 20 else 25) ''key'' hr = Inr ''a''"
proof -
  let ?H = "\<lambda>k. if k = ''a-0'' then 10 else if k = ''b-0'' then 20 else (25 :: 32 word)"
  have "hashValues (fold (member_step ?H) [Join ''a'', Join ''b''] (NewHashRing 1)) = [10, 20]"
    "hashToShard (fold (member_step ?H) [Join ''a'', Join ''b''] (NewHashRing 1)) = [(10, ''a''), (20, ''b'')]"
    by (simp_all add: AddShard_def NewHashRing_def virtualKey_0)
  with lookup_is_clockwise_successor[of ?H "[Join ''a'', Join ''b'']" 1 "''key''"] show ?thesis
    by (auto simp: Let_def get0_def)
qed

text \<open>
  C22: Consistent hashing when shards join: after any number of joins the owner of a key is one of
  the new shards or the owner it had before.
\<close>

theorem join_moves_keys_to_new_shards:
  assumes "populated hr"
  shows "\<exists>t t'. GetShard H k hr = Inr t \<and> GetShard H k (fold (AddShard H) ss hr) = Inr t' \<and> (t' \<in> set ss \<or> t' = t)"
proof -
  have "populated (fold (AddShard H) ss hr)"
    using assms by (induction ss arbitrary: hr) (simp_all add: populated_AddShard)
  then show ?thesis
    using ring.adds_owner[OF assms, of H ss k] by (auto simp: GetShard_owner assms)
qed

theorem join_moves_keys_to_new_shards_witness:
  "\<exists>t t'. GetShard (\<lambda>_. 5) ''k'' \<lparr>hashValues = [7], hashToShard = [(7, ''a'')], nodeAddresses = [], virtualNodes = 1, shardToNodes = []\<rparr> = Inr t \<and>
     GetShard (\<lambda>_. 5) ''k'' (fold (AddShard (\<lambda>_. 5)) [''b''] \<lparr>hashValues = [7], hashToShard = [(7, ''a'')], nodeAddresses = [], virtualNodes = 1, shardToNodes = []\<rparr>) = Inr t' \<and>
     (t' \<in> set [''b''] \<or> t' = t)"
  by (rule join_moves_keys_to_new_shards) (simp add: populated_def)

text \<open>
  C23: Consistent hashing when a shard leaves a ring without collisions: a key of another shard
  keeps its owner.
\<close>

theorem leave_moves_own_keys_only:
  assumes "ring_ok hr" and "owns H s hr" and "GetShard H k hr = Inr t" and "t \<noteq> s"
  shows "GetShard H k (RemoveShard H s hr) = Inr t"
proof -
  have ne: "hashValues hr \<noteq> []" using assms(3) by (auto simp: GetShard_def)
  then have "populated hr" using assms(1) by (simp add: populated_def ring_ok_def)
  then have "owner_of H hr k = t" using assms(3) by (simp add: GetShard_owner)
  with owner_RemoveShard[OF assms(1,2) ne, of k] assms(4) show ?thesis by (simp add: GetShard_owner)
qed

theorem leave_moves_own_keys_only_witness:
  "GetShard (\<lambda>k. if k = ''b-0'' then 20 else 5) ''k'' (RemoveShard (\<lambda>k. if k = ''b-0'' then 20 else 5) ''b''
     \<lparr>hashValues = [7, 20], hashToShard = [(7, ''a''), (20, ''b'')], nodeAddresses = [], virtualNodes = 1, shardToNodes = []\<rparr>) = Inr ''a''"
  by (rule leave_moves_own_keys_only)
    (auto simp: ring_ok_def owns_def positions_def virtualKey_0
      GetShard_succ succ_pos_def get0_def split: if_splits)

text \<open>
  Leaving undoes joining: removing the shard that was just added, without collisions, restores
  the positions and their owners.
\<close>

lemma leave_undoes_join:
  assumes "ring_ok hr" and "free_for H s hr"
  shows "hashValues (RemoveShard H s (AddShard H s hr)) = hashValues hr \<and>
    gget (hashToShard (RemoveShard H s (AddShard H s hr))) = gget (hashToShard hr)"
proof -
  let ?ps = "positions H (virtualNodes hr) s"
  have "mset (hashValues (RemoveShard H s (AddShard H s hr))) = mset (hashValues hr)"
    by (simp add: RemoveShard_simps AddShard_simps fold_remove1_mset)
  moreover have "sorted (hashValues (RemoveShard H s (AddShard H s hr)))"
    by (simp add: RemoveShard_simps AddShard_simps fold_remove1_sorted)
  ultimately have "hashValues (RemoveShard H s (AddShard H s hr)) = hashValues hr"
    using assms(1) by (metis properties_for_sort ring_ok_def)
  moreover have "gget (hashToShard hr) p = None" if "p \<in> set ?ps" for p
    using assms that by (auto simp: free_for_def ring_ok_def)
  ultimately show ?thesis
    by (auto simp: RemoveShard_simps AddShard_simps fun_eq_iff)
qed

lemma leave_undoes_join_witness:
  "hashValues (RemoveShard (\<lambda>k. if k = ''b-0'' then 20 else 5) ''b'' (AddShard (\<lambda>k. if k = ''b-0'' then 20 else 5) ''b''
     \<lparr>hashValues = [7], hashToShard = [(7, ''a'')], nodeAddresses = [], virtualNodes = 1, shardToNodes = []\<rparr>)) = [7]"
  using leave_undoes_join[of "\<lparr>hashValues = [7], hashToShard = [(7, ''a'')], nodeAddresses = [], virtualNodes = 1, shardToNodes = []\<rparr>"
      "\<lambda>k. if k = ''b-0'' then 20 else 5" "''b''"]
  by (simp add: ring_ok_def free_for_def positions_def virtualKey_0)

text \<open>
  A shard that joins twice and leaves once leaves positions without an owner behind: on a ring
  that held nothing else, every lookup succeeds with the empty shard name.
\<close>

lemma double_join_leaves_orphans:
  assumes "vn \<ge> 1"
  shows "GetShard H k (RemoveShard H s (AddShard H s (AddShard H s (NewHashRing vn)))) = Inr []"
proof -
  let ?hr = "RemoveShard H s (AddShard H s (AddShard H s (NewHashRing vn)))"
  let ?ps = "positions H vn s"
  have "mset (hashValues ?hr) = mset ?ps"
    by (simp add: RemoveShard_simps AddShard_simps fold_remove1_mset NewHashRing_def)
  then have "length (hashValues ?hr) = length ?ps" by (metis size_mset)
  then have "hashValues ?hr \<noteq> []" using assms by (auto simp: positions_def)
  moreover have "sorted (hashValues ?hr)"
    by (simp add: RemoveShard_simps AddShard_simps fold_remove1_sorted)
  moreover have "gget (hashToShard ?hr) p = None" for p
    by (simp add: RemoveShard_simps AddShard_simps NewHashRing_def)
  ultimately show ?thesis by (simp add: GetShard_succ get0_def)
qed

lemma double_join_leaves_orphans_witness:
  "GetShard (\<lambda>_. 5) ''k'' (RemoveShard (\<lambda>_. 5) ''s'' (AddShard (\<lambda>_. 5) ''s'' (AddShard (\<lambda>_. 5) ''s'' (NewHashRing 3)))) = Inr []"
  by (rule double_join_leaves_orphans) simp

end
