(* ===== verification/Migration.thy ===== *)
theory Migration
  imports Hash_Ring
begin

text \<open>
  The ranges of keys that move when a node joins or leaves, \<open>internal/cluster/migration.go\<close>.
  \<open>None\<close> is an index out of range.

  The theory shows that the ranges computed for a join are, except for keys that hash to a
  position of the ring itself, exactly the keys the new node owns afterwards; that the ranges
  computed for a leave go to the right new owner; and where the calculation goes wrong: the source
  of a task is not the node that holds the keys, and ranges are left out when a node leaves.
\<close>

section \<open>Operations\<close>

record MigrationTask =
  FromNode :: string
  ToNode :: string
  KeyPattern :: string
  StartHash :: "32 word"
  EndHash :: "32 word"

text \<open>The body of the loop of \<open>CalculateMigrations\<close> for the virtual node \<open>i\<close>.\<close>

definition migration_step ::
    "(string \<Rightarrow> 32 word) \<Rightarrow> string \<Rightarrow> HashRing \<Rightarrow> nat \<Rightarrow> MigrationTask list \<Rightarrow> MigrationTask list option" where
  "migration_step H newNodeID hr i tasks = do {
     let vhash = H (virtualKey newNodeID i);
     let idx = Search (length (hashValues hr)) (\<lambda>i. hashValues hr ! i \<ge> vhash);
     let idx = (if idx = length (hashValues hr) then 0 else idx);
     prevHash \<leftarrow> (if idx = 0 then index (hashValues hr) (length (hashValues hr) - 1)
                 else index (hashValues hr) (idx - 1));
     let prevNode = get0 (hashToShard hr) prevHash;
     Some (if prevNode \<noteq> newNodeID
           then tasks @ [\<lparr>FromNode = prevNode, ToNode = newNodeID, KeyPattern = ''*'',
                          StartHash = prevHash, EndHash = vhash\<rparr>]
           else tasks)
   }"

definition CalculateMigrations ::
    "(string \<Rightarrow> 32 word) \<Rightarrow> string \<Rightarrow> HashRing \<Rightarrow> MigrationTask list option" where
  "CalculateMigrations H newNodeID hr =
     foreach (migration_step H newNodeID hr) [0..<nat (virtualNodes hr)] []"

definition removal_step ::
    "(string \<Rightarrow> 32 word) \<Rightarrow> string \<Rightarrow> HashRing \<Rightarrow> nat \<Rightarrow> MigrationTask list \<Rightarrow> MigrationTask list option" where
  "removal_step H removeNodeID hr i tasks = do {
     let vhash = H (virtualKey removeNodeID i);
     let idx = Search (length (hashValues hr)) (\<lambda>i. hashValues hr ! i \<ge> vhash);
     let nextIdx = (idx + 1) mod length (hashValues hr);
     nextHash \<leftarrow> index (hashValues hr) nextIdx;
     let nextNode = get0 (hashToShard hr) nextHash;
     if nextNode \<noteq> removeNodeID
     then do {
       prevHash \<leftarrow> (if idx = 0 then index (hashValues hr) (length (hashValues hr) - 1)
                   else index (hashValues hr) (idx - 1));
       Some (tasks @ [\<lparr>FromNode = removeNodeID, ToNode = nextNode, KeyPattern = ''*'',
                       StartHash = prevHash, EndHash = vhash\<rparr>])
     }
     else Some tasks
   }"

definition CalculateMigrationsForRemoval ::
    "(string \<Rightarrow> 32 word) \<Rightarrow> string \<Rightarrow> HashRing \<Rightarrow> MigrationTask list option" where
  "CalculateMigrationsForRemoval H removeNodeID hr =
     (if length (hashValues hr) = 0 then Some []
      else foreach (removal_step H removeNodeID hr) [0..<nat (virtualNodes hr)] [])"

text \<open>The method \<open>hashInRange\<close> of the ring.\<close>

definition ring_hashInRange :: "32 word \<Rightarrow> 32 word \<Rightarrow> 32 word \<Rightarrow> bool" where
  "ring_hashInRange h start en =
     (if start < en then start \<le> h \<and> h < en else start \<le> h \<or> h < en)"

definition KeyInRange :: "(string \<Rightarrow> 32 word) \<Rightarrow> string \<Rightarrow> 32 word \<Rightarrow> 32 word \<Rightarrow> bool" where
  "KeyInRange H k start en = ring_hashInRange (H k) start en"

section \<open>Ranges in terms of clockwise distance\<close>

lemma range_cw: "s \<noteq> e \<Longrightarrow> ring_hashInRange h s e \<longleftrightarrow> cw s h < cw s e"
  unfolding not_le[symmetric] cw_le_iff by (auto simp: ring_hashInRange_def)

lemma int_cw_le_left_iff:
  fixes a b v :: int
  assumes "0 \<le> a" "0 \<le> b" "0 \<le> v" "a < 4294967296" "b < 4294967296" "v < 4294967296"
  shows "(if a \<le> v then v - a else v - a + 4294967296) \<le> (if b \<le> v then v - b else v - b + 4294967296) \<longleftrightarrow>
    (if a \<le> v then b \<le> a \<or> v < b else v < b \<and> b \<le> a)"
  using assms by auto

lemma cw_le_left_iff:
  "cw a v \<le> cw b v \<longleftrightarrow> (if a \<le> v then b \<le> a \<or> v < b else v < b \<and> b \<le> a)"
  unfolding word_le_def word_less_def cw_uint
  by (rule int_cw_le_left_iff)
    (use uint_lt2p[of a] uint_lt2p[of b] uint_lt2p[of v] in simp_all)

lemma cw_rev:
  assumes "a \<noteq> b"
  shows "uint (cw a b) + uint (cw b a) = 4294967296"
proof -
  have "uint a \<noteq> uint b" using assms by (simp add: word_uint_eq_iff)
  then show ?thesis by (auto simp: cw_uint word_le_def)
qed

text \<open>The position before \<open>v\<close>, as both calculations find it.\<close>

definition prev_pos :: "32 word \<Rightarrow> 32 word list \<Rightarrow> 32 word" where
  "prev_pos v xs =
     (let idx = length (takeWhile (\<lambda>y. y < v) xs)
      in if idx = 0 then last xs else xs ! (idx - 1))"

lemma prev_pos_nearest:
  assumes "sorted xs" and "xs \<noteq> []"
  shows "prev_pos v xs \<in> set xs" and "q \<in> set xs \<Longrightarrow> q \<noteq> v \<Longrightarrow> prev_pos v xs \<noteq> v \<and> cw (prev_pos v xs) v \<le> cw q v"
proof -
  let ?t = "length (takeWhile (\<lambda>y. y < v) xs)"
  have tl: "?t \<le> length xs" by (rule length_takeWhile_le)
  have "0 < length xs" using assms(2) by simp
  then have "?t - 1 < length xs" using tl by arith
  then show "prev_pos v xs \<in> set xs"
    using assms(2) by (auto simp: prev_pos_def Let_def)
  assume "q \<in> set xs" and "q \<noteq> v"
  then obtain i where i: "i < length xs" "xs ! i = q" by (metis in_set_conv_nth)
  have less: "q < v" if "i < ?t"
  proof -
    have "takeWhile (\<lambda>y. y < v) xs ! i \<in> set (takeWhile (\<lambda>y. y < v) xs)" using that by (rule nth_mem)
    then show ?thesis using that i(2) by (auto simp: takeWhile_nth dest: set_takeWhileD)
  qed
  have greater: "v < q" if "?t \<le> i"
  proof -
    have "\<not> xs ! ?t < v" using that i(1) by (intro nth_length_takeWhile) simp
    then have "v \<le> q" using sorted_nth_mono[OF assms(1) that i(1)] i(2) by simp
    with \<open>q \<noteq> v\<close> show ?thesis by simp
  qed
  show "prev_pos v xs \<noteq> v \<and> cw (prev_pos v xs) v \<le> cw q v"
  proof (cases "?t = 0")
    case True
    have "q \<le> last xs"
      using i assms(1,2) sorted_nth_mono[OF assms(1), of i "length xs - 1"] by (simp add: last_conv_nth)
    then show ?thesis using True greater by (auto simp: prev_pos_def cw_le_left_iff)
  next
    case False
    have "takeWhile (\<lambda>y. y < v) xs ! (?t - 1) \<in> set (takeWhile (\<lambda>y. y < v) xs)"
      using False by (intro nth_mem) simp
    then have pv: "xs ! (?t - 1) < v" using False by (auto simp: takeWhile_nth dest: set_takeWhileD)
    moreover have "q \<le> xs ! (?t - 1)" if "i < ?t"
      using sorted_nth_mono[OF assms(1), of i "?t - 1"] that tl i(2) by simp
    ultimately show ?thesis
      using False greater by (cases "i < ?t") (auto simp: prev_pos_def Let_def cw_le_left_iff)
  qed
qed

text \<open>Between the previous position and \<open>v\<close>, going clockwise, lies no position of the ring.\<close>

lemma in_range_no_position:
  assumes q: "\<And>x. x \<in> P \<Longrightarrow> cw q v \<le> cw x v" and h: "cw q h < cw q v" "h \<noteq> q"
    and p: "p \<in> P"
  shows "\<not> cw h p \<le> cw h v"
proof
  assume le: "cw h p \<le> cw h v"
  have "uint (cw q v) = uint (cw q h) + uint (cw h v)" using h(1) by (intro cw_split) simp
  moreover have "uint (cw h v) = uint (cw h p) + uint (cw p v)" using le by (rule cw_split)
  moreover have "uint (cw q h) > 0" using h(2) by (auto simp: uint_0_iff less_le)
  moreover have "uint (cw q v) \<le> uint (cw p v)" using q[OF p] by (simp add: word_le_def)
  moreover have "0 \<le> uint (cw h p)" by simp
  ultimately show False by linarith
qed

lemma out_of_range_position:
  assumes "cw q v \<le> cw q h" and "h \<noteq> q" and "h \<noteq> v" and "q \<noteq> v"
  shows "cw h q < cw h v"
proof -
  have "uint (cw q h) = uint (cw q v) + uint (cw v h)" using assms(1) by (rule cw_split)
  moreover have "uint (cw q h) + uint (cw h q) = 4294967296" "uint (cw v h) + uint (cw h v) = 4294967296"
    using assms by (auto intro!: cw_rev)
  moreover have "uint (cw q v) > 0" using assms(4) by (auto simp: uint_0_iff less_le)
  ultimately show ?thesis unfolding word_less_def by linarith
qed

section \<open>The tasks for a join\<close>

definition join_task :: "(string \<Rightarrow> 32 word) \<Rightarrow> string \<Rightarrow> HashRing \<Rightarrow> 32 word \<Rightarrow> MigrationTask" where
  "join_task H s hr v =
     \<lparr>FromNode = get0 (hashToShard hr) (prev_pos v (hashValues hr)), ToNode = s, KeyPattern = ''*'',
      StartHash = prev_pos v (hashValues hr), EndHash = v\<rparr>"

lemma migration_step_task:
  assumes "populated hr" and "H (virtualKey s i) \<notin> set (hashValues hr)"
    and "\<And>p. gget (hashToShard hr) p \<noteq> Some s" and "s \<noteq> []"
  shows "migration_step H s hr i tasks = Some (tasks @ [join_task H s hr (H (virtualKey s i))])"
proof -
  let ?xs = "hashValues hr" and ?v = "H (virtualKey s i)"
  let ?t = "length (takeWhile (\<lambda>y. y < ?v) ?xs)"
  have ne: "?xs \<noteq> []" "sorted ?xs" using assms(1) by (auto simp: populated_def)
  have "?t \<le> length ?xs" by (rule length_takeWhile_le)
  moreover have "last ?xs = ?xs ! (length ?xs - 1)" using ne by (simp add: last_conv_nth)
  moreover have "get0 (hashToShard hr) p \<noteq> s" for p
    using assms(3)[of p] assms(4) by (auto simp: get0_def split: option.splits)
  ultimately show ?thesis
    using ne by (auto simp: migration_step_def Search_sorted index_def join_task_def prev_pos_def Let_def)
qed

lemma CalculateMigrations_tasks:
  assumes "populated hr" and "free_for H s hr"
    and "\<And>p. gget (hashToShard hr) p \<noteq> Some s" and "s \<noteq> []"
  shows "CalculateMigrations H s hr = Some (map (join_task H s hr) (positions H (virtualNodes hr) s))"
proof -
  have "foreach (migration_step H s hr) is tasks = Some (tasks @ map (\<lambda>i. join_task H s hr (H (virtualKey s i))) is)"
    if "\<forall>i \<in> set is. H (virtualKey s i) \<notin> set (hashValues hr)" for "is" tasks
    using that by (induction "is" arbitrary: tasks) (simp_all add: migration_step_task assms)
  moreover have "\<forall>i \<in> set [0..<nat (virtualNodes hr)]. H (virtualKey s i) \<notin> set (hashValues hr)"
    using assms(2) by (auto simp: free_for_def positions_def)
  ultimately show ?thesis by (simp add: CalculateMigrations_def positions_def)
qed

lemma join_range_owned:
  assumes ok: "populated hr" and free: "free_for H s hr"
    and v: "v \<in> set (positions H (virtualNodes hr) s)"
    and h: "ring_hashInRange (H k) (prev_pos v (hashValues hr)) v" "H k \<noteq> prev_pos v (hashValues hr)"
  shows "owner_of H (AddShard H s hr) k = s"
proof -
  let ?xs = "hashValues hr" and ?ys = "hashValues (AddShard H s hr)"
  let ?p = "succ_pos (H k) ?ys"
  have vn: "v \<notin> set ?xs" using free v by (auto simp: free_for_def)
  have pp: "prev_pos v ?xs \<in> set ?xs" "\<And>q. q \<in> set ?xs \<Longrightarrow> cw (prev_pos v ?xs) v \<le> cw q v"
    using prev_pos_nearest(1)[of ?xs v] prev_pos_nearest(2)[of ?xs _ v] ok vn unfolding populated_def by blast+
  have "cw (prev_pos v ?xs) (H k) < cw (prev_pos v ?xs) v"
    using h(1) range_cw pp(1) vn by metis
  note none = in_range_no_position[OF pp(2) this h(2)]
  have ys: "set ?ys = set ?xs \<union> set (positions H (virtualNodes hr) s)" by (simp add: AddShard_simps)
  have p: "?p \<in> set ?ys" "cw (H k) ?p \<le> cw (H k) v"
    using succ_pos_nearest[of ?ys] populated_AddShard[OF ok, of H s] ys v by (auto simp: populated_def)
  then have "?p \<in> set (positions H (virtualNodes hr) s)" using none ys by blast
  then show ?thesis by (simp add: owner_of_def get0_def AddShard_simps(2))
qed

lemma join_owned_range:
  assumes ok: "ring_ok hr" "hashValues hr \<noteq> []" and free: "free_for H s hr"
    and new: "\<And>p. gget (hashToShard hr) p \<noteq> Some s"
    and own: "owner_of H (AddShard H s hr) k = s"
    and off: "H k \<notin> set (hashValues hr)" "H k \<notin> set (positions H (virtualNodes hr) s)"
  shows "\<exists>v \<in> set (positions H (virtualNodes hr) s). ring_hashInRange (H k) (prev_pos v (hashValues hr)) v"
proof -
  let ?xs = "hashValues hr" and ?ys = "hashValues (AddShard H s hr)"
  let ?v = "succ_pos (H k) ?ys"
  have pop: "populated hr" using ok by (simp add: ring_ok_def populated_def)
  have ys: "set ?ys = set ?xs \<union> set (positions H (virtualNodes hr) s)" by (simp add: AddShard_simps)
  have near: "?v \<in> set ?ys" "q \<in> set ?ys \<Longrightarrow> cw (H k) ?v \<le> cw (H k) q" for q
    using succ_pos_nearest[of ?ys] populated_AddShard[OF pop, of H s] by (auto simp: populated_def)
  have v: "?v \<in> set (positions H (virtualNodes hr) s)"
  proof (rule ccontr)
    assume "?v \<notin> set (positions H (virtualNodes hr) s)"
    moreover from this have "?v \<in> dom (gget (hashToShard hr))" using near(1) ys ok by (auto simp: ring_ok_def)
    ultimately show False using own new by (auto simp: owner_of_def get0_def AddShard_simps(2))
  qed
  then have vn: "?v \<notin> set ?xs" using free by (auto simp: free_for_def)
  have q: "prev_pos ?v ?xs \<in> set ?xs"
    using prev_pos_nearest(1)[OF _ ok(2)] ok(1) by (simp add: ring_ok_def)
  have "\<not> cw (H k) (prev_pos ?v ?xs) < cw (H k) ?v"
    using near(2)[of "prev_pos ?v ?xs"] q ys by auto
  then have "cw (prev_pos ?v ?xs) (H k) < cw (prev_pos ?v ?xs) ?v"
    using out_of_range_position[of "prev_pos ?v ?xs" ?v "H k"] off q v vn by (metis not_le)
  then show ?thesis using v range_cw q vn by metis
qed

section \<open>The tasks for a leave\<close>

definition next_pos :: "32 word \<Rightarrow> 32 word list \<Rightarrow> 32 word" where
  "next_pos v xs = xs ! ((length (takeWhile (\<lambda>y. y < v) xs) + 1) mod length xs)"

lemma next_pos_nearest:
  assumes "sorted xs" and "distinct xs" and "v \<in> set xs" and q: "q \<in> set xs" "q \<noteq> v"
  shows "next_pos v xs \<in> set xs" and "cw v (next_pos v xs) \<le> cw v q"
proof -
  let ?t = "length (takeWhile (\<lambda>y. y < v) xs)"
  obtain i where i: "i < length xs" "xs ! i = v" using assms(3) by (metis in_set_conv_nth)
  obtain j where j: "j < length xs" "xs ! j = q" using q(1) by (metis in_set_conv_nth)
  have less: "xs ! a < xs ! b" if "a < b" "b < length xs" for a b
    using that assms(1,2) sorted_nth_mono[OF assms(1), of a b] nth_eq_iff_index_eq[OF assms(2), of a b]
    by (simp add: le_less)
  have "?t = i"
  proof (rule antisym)
    show "?t \<le> i"
    proof (rule ccontr)
      assume "\<not> ?t \<le> i"
      then have "takeWhile (\<lambda>y. y < v) xs ! i \<in> set (takeWhile (\<lambda>y. y < v) xs)" by (intro nth_mem) simp
      then show False using \<open>\<not> ?t \<le> i\<close> i(2) by (auto simp: takeWhile_nth dest: set_takeWhileD)
    qed
    show "i \<le> ?t"
    proof (rule ccontr)
      assume "\<not> i \<le> ?t"
      moreover from this have "\<not> xs ! ?t < v" using i(1) by (intro nth_length_takeWhile) simp
      ultimately show False using less[of ?t i] i by simp
    qed
  qed
  then have nx: "next_pos v xs = xs ! ((i + 1) mod length xs)" by (simp add: next_pos_def)
  show "next_pos v xs \<in> set xs" using i(1) by (auto simp: nx intro!: nth_mem mod_less_divisor)
  have ij: "i \<noteq> j" using i j q(2) by auto
  show "cw v (next_pos v xs) \<le> cw v q"
  proof (cases "i + 1 < length xs")
    case True
    have "xs ! (i + 1) \<le> q \<or> q < v"
      using ij i j less[of j i] sorted_nth_mono[OF assms(1), of "i + 1" j] by (cases "j < i") auto
    then show ?thesis using True less[of i "i + 1"] i by (auto simp: nx cw_le_iff)
  next
    case False
    then have "i + 1 = length xs" "j < i" using i j ij by auto
    then show ?thesis
      using i j less[of j i] less[of 0 i] sorted_nth_mono[OF assms(1), of 0 j] by (auto simp: nx cw_le_iff)
  qed
qed

text \<open>The shard \<open>s\<close> is on the ring with all its positions.\<close>

definition member :: "(string \<Rightarrow> 32 word) \<Rightarrow> string \<Rightarrow> HashRing \<Rightarrow> bool" where
  "member H s hr \<longleftrightarrow> (\<forall>p. gget (hashToShard hr) p = Some s \<longleftrightarrow> p \<in> set (positions H (virtualNodes hr) s))"

definition leave_task :: "string \<Rightarrow> HashRing \<Rightarrow> 32 word \<Rightarrow> MigrationTask" where
  "leave_task s hr v =
     \<lparr>FromNode = s, ToNode = get0 (hashToShard hr) (next_pos v (hashValues hr)), KeyPattern = ''*'',
      StartHash = prev_pos v (hashValues hr), EndHash = v\<rparr>"

lemma removal_step_task:
  assumes "sorted (hashValues hr)" and "hashValues hr \<noteq> []" and "H (virtualKey s i) \<in> set (hashValues hr)"
  shows "removal_step H s hr i tasks =
    Some (tasks @ filter (\<lambda>t. ToNode t \<noteq> s) [leave_task s hr (H (virtualKey s i))])"
proof -
  let ?xs = "hashValues hr" and ?v = "H (virtualKey s i)"
  let ?t = "length (takeWhile (\<lambda>y. y < ?v) ?xs)"
  have "?t \<le> length ?xs" by (rule length_takeWhile_le)
  moreover have "0 < length ?xs" using assms(2) by simp
  moreover have "(?t + 1) mod length ?xs < length ?xs" using \<open>0 < length ?xs\<close> by (rule mod_less_divisor)
  moreover have "last ?xs = ?xs ! (length ?xs - 1)" using assms(2) by (simp add: last_conv_nth)
  moreover have "?t - 1 < length ?xs" using calculation(1,2) by arith
  ultimately show ?thesis
    using assms by (simp add: removal_step_def Search_sorted index_def leave_task_def prev_pos_def next_pos_def Let_def)
qed

lemma CalculateMigrationsForRemoval_tasks:
  assumes "ring_ok hr" and "hashValues hr \<noteq> []" and "member H s hr"
  shows "CalculateMigrationsForRemoval H s hr =
    Some (filter (\<lambda>t. ToNode t \<noteq> s) (map (leave_task s hr) (positions H (virtualNodes hr) s)))"
proof -
  have "foreach (removal_step H s hr) is tasks =
      Some (tasks @ filter (\<lambda>t. ToNode t \<noteq> s) (map (\<lambda>i. leave_task s hr (H (virtualKey s i))) is))"
    if "\<forall>i \<in> set is. H (virtualKey s i) \<in> set (hashValues hr)" for "is" tasks
    using that assms by (induction "is" arbitrary: tasks) (simp_all add: removal_step_task ring_ok_def)
  moreover have "\<forall>i \<in> set [0..<nat (virtualNodes hr)]. H (virtualKey s i) \<in> set (hashValues hr)"
    using assms(1,3) by (auto simp: member_def ring_ok_def positions_def)
  ultimately show ?thesis using assms(2) by (simp add: CalculateMigrationsForRemoval_def positions_def o_def)
qed

lemma leave_range_owner:
  assumes ok: "ring_ok hr" and mem: "member H s hr" and v: "v \<in> set (positions H (virtualNodes hr) s)"
    and other: "get0 (hashToShard hr) (next_pos v (hashValues hr)) \<noteq> s" and ne: "s \<noteq> []"
    and h: "ring_hashInRange (H k) (prev_pos v (hashValues hr)) v" "H k \<noteq> prev_pos v (hashValues hr)"
  shows "owner_of H hr k = s"
    and "owner_of H (RemoveShard H s hr) k = get0 (hashToShard hr) (next_pos v (hashValues hr))"
    and "populated (RemoveShard H s hr)"
proof -
  let ?xs = "hashValues hr" and ?nx = "next_pos v (hashValues hr)" and ?ys = "hashValues (RemoveShard H s hr)"
  have vs: "gget (hashToShard hr) v = Some s" using mem v by (auto simp: member_def)
  then have vx: "v \<in> set ?xs" using ok by (auto simp: ring_ok_def)
  then have xne: "?xs \<noteq> []" by auto
  have so: "sorted ?xs" "distinct ?xs" using ok by (auto simp: ring_ok_def)
  have nv: "?nx \<noteq> v" using other vs by (auto simp: get0_def)
  have nx: "?nx \<in> set ?xs"
    using vx by (auto simp: next_pos_def intro!: nth_mem mod_less_divisor)
  have pv: "prev_pos v ?xs \<noteq> v" and near: "q \<in> set ?xs - {v} \<Longrightarrow> cw (prev_pos v ?xs) v \<le> cw q v" for q
    using prev_pos_nearest(2)[OF so(1) xne] nx nv by blast+
  have in_range: "cw (prev_pos v ?xs) (H k) < cw (prev_pos v ?xs) v" using h(1) range_cw[OF pv] by simp
  have after: "cw (H k) v \<le> cw (H k) q" if "q \<in> set ?xs" for q
  proof (cases "q = v")
    case False
    with that have "\<not> cw (H k) q \<le> cw (H k) v"
      by (intro in_range_no_position[where P = "set ?xs - {v}", OF near in_range h(2)]) auto
    then show ?thesis by (simp only: not_le less_imp_le)
  qed simp
  have "succ_pos (H k) ?xs = v" using so(1) vx after by (rule succ_pos_unique)
  then show "owner_of H hr k = s" using vs by (simp add: owner_of_def get0_def)
  have ys: "set ?ys = set ?xs - set (positions H (virtualNodes hr) s)" "sorted ?ys"
    using so fold_remove1_distinct[OF so(2)] by (auto simp: RemoveShard_simps fold_remove1_sorted)
  have nxy: "?nx \<notin> set (positions H (virtualNodes hr) s)"
  proof
    assume "?nx \<in> set (positions H (virtualNodes hr) s)"
    then have "gget (hashToShard hr) ?nx = Some s" using mem unfolding member_def by blast
    with other show False by (simp add: get0_def)
  qed
  have "cw (H k) ?nx \<le> cw (H k) q" if "q \<in> set ?ys" for q
  proof -
    have q: "q \<in> set ?xs" "q \<noteq> v" using that ys(1) v by auto
    have "uint (cw (H k) q) = uint (cw (H k) v) + uint (cw v q)" using after[OF q(1)] by (rule cw_split)
    moreover have "uint (cw (H k) ?nx) = uint (cw (H k) v) + uint (cw v ?nx)" using after[OF nx] by (rule cw_split)
    moreover have "uint (cw v ?nx) \<le> uint (cw v q)" using next_pos_nearest(2)[OF so vx q] by (simp add: word_le_def)
    ultimately show ?thesis by (simp add: word_le_def)
  qed
  then have "succ_pos (H k) ?ys = ?nx" using ys nx nxy by (intro succ_pos_unique) auto
  then show "owner_of H (RemoveShard H s hr) k = get0 (hashToShard hr) ?nx"
    using nxy by (simp add: owner_of_def get0_def RemoveShard_simps(2))
  show "populated (RemoveShard H s hr)" using ys nx nxy by (auto simp: populated_def)
qed

section \<open>What the calculation achieves\<close>

lemma join_tasks_ranges:
  assumes "ring_ok hr" and "hashValues hr \<noteq> []" and "free_for H s hr"
    and "\<forall>p. gget (hashToShard hr) p \<noteq> Some s" and "s \<noteq> []"
    and "H k \<notin> set (hashValues hr) \<union> set (positions H (virtualNodes hr) s)"
  shows "\<exists>tasks. CalculateMigrations H s hr = Some tasks \<and> (\<forall>t \<in> set tasks. ToNode t = s) \<and>
    ((\<exists>t \<in> set tasks. KeyInRange H k (StartHash t) (EndHash t)) \<longleftrightarrow> GetShard H k (AddShard H s hr) = Inr s)"
proof -
  have pop: "populated hr" using assms(1,2) by (simp add: ring_ok_def populated_def)
  have "prev_pos v (hashValues hr) \<in> set (hashValues hr)" for v
    using prev_pos_nearest(1) assms(1,2) by (simp add: ring_ok_def)
  then have off: "H k \<noteq> prev_pos v (hashValues hr)" for v using assms(6) by auto
  have "(\<exists>v \<in> set (positions H (virtualNodes hr) s). ring_hashInRange (H k) (prev_pos v (hashValues hr)) v) \<longleftrightarrow>
      owner_of H (AddShard H s hr) k = s"
    using join_range_owned[OF pop assms(3) _ _ off] join_owned_range[OF assms(1-3), of k] assms(4,6) by blast
  then show ?thesis
    using CalculateMigrations_tasks[OF pop assms(3) _ assms(5)] assms(4) populated_AddShard[OF pop, of H s]
    by (simp add: join_task_def KeyInRange_def GetShard_owner)
qed



text \<open>
  The ranges for a leave are sound: on a ring without collisions, a key in the range of a task
  (other than at its start) belongs to the leaving node, and once the node has left it belongs to
  the node that the task names as its target.
\<close>

lemma leave_tasks_sound:
  assumes "ring_ok hr" and "member H s hr" and "s \<noteq> []" and "hashValues hr \<noteq> []"
    and "CalculateMigrationsForRemoval H s hr = Some tasks" and "t \<in> set tasks"
    and "KeyInRange H k (StartHash t) (EndHash t)" and "H k \<noteq> StartHash t"
  shows "FromNode t = s \<and> GetShard H k hr = Inr s \<and> GetShard H k (RemoveShard H s hr) = Inr (ToNode t) \<and> ToNode t \<noteq> s"
proof -
  obtain v where v: "v \<in> set (positions H (virtualNodes hr) s)" "t = leave_task s hr v" "ToNode t \<noteq> s"
    using assms(5,6) CalculateMigrationsForRemoval_tasks[OF assms(1,4,2)] by auto
  note own = leave_range_owner[OF assms(1,2) v(1) _ assms(3), of k]
  have "populated hr" using assms(1,4) by (simp add: ring_ok_def populated_def)
  then show ?thesis using own v assms(7,8) by (simp add: leave_task_def KeyInRange_def GetShard_owner)
qed

lemma leave_tasks_sound_witness:
  "GetShard (\<lambda>k. if k = ''b-0'' then 20 else 15) ''k'' (RemoveShard (\<lambda>k. if k = ''b-0'' then 20 else 15) ''b''
     \<lparr>hashValues = [7, 20], hashToShard = [(7, ''a''), (20, ''b'')], nodeAddresses = [], virtualNodes = 1, shardToNodes = []\<rparr>) = Inr ''a''"
proof -
  let ?H = "\<lambda>k. if k = ''b-0'' then 20 else 15 :: 32 word"
  let ?hr = "\<lparr>hashValues = [7, 20], hashToShard = [(7, ''a''), (20, ''b'')], nodeAddresses = [], virtualNodes = 1, shardToNodes = []\<rparr>"
  let ?t = "\<lparr>FromNode = ''b'', ToNode = ''a'', KeyPattern = ''*'', StartHash = 7, EndHash = 20\<rparr>"
  have "ring_ok ?hr" "member ?H ''b'' ?hr"
    by (auto simp: ring_ok_def member_def positions_def virtualKey_0 split: if_splits)
  moreover from this have "CalculateMigrationsForRemoval ?H ''b'' ?hr = Some [?t]"
    by (simp add: CalculateMigrationsForRemoval_tasks positions_def virtualKey_0 leave_task_def next_pos_def prev_pos_def get0_def)
  ultimately show ?thesis
    using leave_tasks_sound[of ?hr ?H "''b''" "[?t]" ?t "''k''"] by (simp add: KeyInRange_def ring_hashInRange_def)
qed

text \<open>
  The source that a task for a join names is the node before the new position, not the node
  that holds the keys of the range: here the only task takes the keys from \<open>a\<close>, but the key in
  its range is stored at \<open>c\<close>.
\<close>

lemma join_task_wrong_source:
  "let H = (\<lambda>k. if k = ''b-0'' then 20 else (15 :: 32 word));
       hr = \<lparr>hashValues = [10, 30], hashToShard = [(10, ''a''), (30, ''c'')], nodeAddresses = [], virtualNodes = 1, shardToNodes = []\<rparr>
   in CalculateMigrations H ''b'' hr =
        Some [\<lparr>FromNode = ''a'', ToNode = ''b'', KeyPattern = ''*'', StartHash = 10, EndHash = 20\<rparr>] \<and>
      KeyInRange H ''k'' 10 20 \<and> GetShard H ''k'' hr = Inr ''c'' \<and> GetShard H ''k'' (AddShard H ''b'' hr) = Inr ''b''"
  by code_simp

text \<open>
  A range is left out when the next position belongs to the leaving node too: here the key \<open>k\<close>
  is stored at \<open>a\<close> and belongs to \<open>b\<close> once \<open>a\<close> has left, but no task moves it.
\<close>

lemma leave_tasks_incomplete:
  "let H = (\<lambda>k. if k = virtualKey ''a'' 0 then 10 else if k = virtualKey ''a'' 1 then 20 else (5 :: 32 word));
       hr = \<lparr>hashValues = [10, 20, 30], hashToShard = [(10, ''a''), (20, ''a''), (30, ''b'')],
             nodeAddresses = [], virtualNodes = 2, shardToNodes = []\<rparr>
   in CalculateMigrationsForRemoval H ''a'' hr =
        Some [\<lparr>FromNode = ''a'', ToNode = ''b'', KeyPattern = ''*'', StartHash = 10, EndHash = 20\<rparr>] \<and>
      \<not> KeyInRange H ''k'' 10 20 \<and> GetShard H ''k'' hr = Inr ''a'' \<and> GetShard H ''k'' (RemoveShard H ''a'' hr) = Inr ''b''"
  by code_simp

end
