(* ===== verification/Resp.thy ===== *)
theory Resp
  imports Go_Lib
begin

text \<open>
  The wire protocol of \<open>pkg/protocol\<close>: the parser (\<open>parser.go\<close>) and the encoders
  (\<open>encoder.go\<close>). A buffered reader is the list of bytes that are still to come, followed by the
  end of the stream. A parsing function returns its result and the number of bytes that it took,
  so the reader is afterwards at \<open>drop k s\<close>. \<open>None\<close> is a panic.

  The theory shows that the parser always returns or panics on one kind of length header, that it
  inverts the encoders, also in a stream of several requests, and that it takes no byte beyond the
  value it returns.
\<close>

section \<open>Encoders\<close>

definition crlf :: string where
  "crlf = [CHR 0x0D, CHR 0x0A]"

text \<open>The two characters of an escape sequence, as the error messages print it.\<close>

definition esc_r :: string where
  "esc_r = [CHR 0x5C, CHR ''r'']"

definition esc_n :: string where
  "esc_n = [CHR 0x5C, CHR ''n'']"

record RedirectResponse =
  LeaderHost :: string
  LeaderPort :: string

definition EncodeSimpleString :: "string \<Rightarrow> string" where
  "EncodeSimpleString s = ''+'' @ s @ crlf"

definition EncodeBulkString :: "string \<Rightarrow> bool \<Rightarrow> string" where
  "EncodeBulkString s isNull =
     (if isNull then ''$-1'' @ crlf else ''$'' @ Itoa (int (length s)) @ crlf @ s @ crlf)"

definition EncodeInteger :: "int \<Rightarrow> string" where
  "EncodeInteger n = '':'' @ Itoa n @ crlf"

definition EncodeError :: "string \<Rightarrow> string" where
  "EncodeError s = ''-'' @ s @ crlf"

text \<open>One element of \<open>EncodeArray\<close>: any other type panics.\<close>

fun encode_element :: "iface \<Rightarrow> string option" where
  "encode_element (Str v) = Some (EncodeBulkString v False)"
| "encode_element (IntV v) = Some (EncodeInteger v)"
| "encode_element (Int64 v) = Some (EncodeInteger v)"
| "encode_element _ = None"

definition EncodeArray :: "iface list \<Rightarrow> string option" where
  "EncodeArray elements =
     foreach (\<lambda>v result. do { e \<leftarrow> encode_element v; Some (result @ e) }) elements
       (''*'' @ Itoa (int (length elements)) @ crlf)"

definition EncodeRedirect :: "string \<Rightarrow> int \<Rightarrow> string" where
  "EncodeRedirect host port = ''-MOVED '' @ host @ '':'' @ Itoa port @ crlf"

definition IsRedirect :: "string \<Rightarrow> bool" where
  "IsRedirect response \<longleftrightarrow> HasPrefix response ''MOVED'' \<or> HasPrefix response ''-MOVED''"

definition ParseRedirect :: "string \<Rightarrow> gerror + RedirectResponse" where
  "ParseRedirect response =
     (if \<not> IsRedirect response then Inl (Err (''not a redirect response: '' @ response))
      else
        let withoutPrefix = TrimPrefix response ''-MOVED '';
            withoutPrefix2 = TrimPrefix withoutPrefix ''MOVED '';
            withoutSuffix = TrimSuffix withoutPrefix2 crlf
        in case Split withoutSuffix CHR '':'' of
             [host, port] \<Rightarrow>
               if host = [] then Inl (Err ''invalid redirect: empty host'')
               else if port = [] then Inl (Err ''invalid redirect: empty port'')
               else if Atoi port = None
                    then Inl (Err (''invalid redirect: port must be a number got '' @ port))
               else Inr \<lparr>LeaderHost = host, LeaderPort = port\<rparr>
           | _ \<Rightarrow> Inl (Err (''invalid redirect format, expected 'host:port' but got: '' @ withoutSuffix)))"

definition Address :: "RedirectResponse \<Rightarrow> string" where
  "Address r = LeaderHost r @ '':'' @ LeaderPort r"

definition EncodePubSubMessage :: "string \<Rightarrow> string \<Rightarrow> string option" where
  "EncodePubSubMessage channel message = EncodeArray [Str ''message'', Str channel, Str message]"

definition EncodeSubscribeConfirmation :: "string \<Rightarrow> int \<Rightarrow> string option" where
  "EncodeSubscribeConfirmation channel subscriptionCount =
     EncodeArray [Str ''subscribe'', Str channel, IntV subscriptionCount]"

definition EncodeUnsubscribeConfirmation :: "string \<Rightarrow> int \<Rightarrow> string option" where
  "EncodeUnsubscribeConfirmation channel remainingCount =
     (if channel = []
      then Some (''*3'' @ crlf @ EncodeBulkString ''unsubscribe'' False @ ''$-1'' @ crlf @
                 '':'' @ Itoa remainingCount @ crlf)
      else EncodeArray [Str ''unsubscribe'', Str channel, IntV remainingCount])"

definition EncodePublishResponse :: "int \<Rightarrow> string" where
  "EncodePublishResponse subscriberCount = EncodeInteger subscriberCount"

section \<open>Parser\<close>

type_synonym 'a read = "(gerror + 'a) \<times> nat"

text \<open>\<open>bufio.Reader.ReadString('\n')\<close>: up to and including the delimiter.\<close>

definition ReadString :: "string \<Rightarrow> string read" where
  "ReadString s =
     (if CHR 0x0A \<in> set s
      then let line = takeWhile (\<lambda>c. c \<noteq> CHR 0x0A) s @ [CHR 0x0A] in (Inr line, length line)
      else (Inl EOF, length s))"

definition readLine :: "string \<Rightarrow> string read" where
  "readLine r =
     (case ReadString r of
        (Inl err, k) \<Rightarrow> (Inl err, k)
      | (Inr line, k) \<Rightarrow>
          if \<not> HasSuffix line crlf then (Inl (Err (''invalid RESP: missing '' @ esc_r @ esc_n)), k)
          else (Inr (TrimSuffix line crlf), k))"

definition parseSimpleString :: "string \<Rightarrow> string read" where
  "parseSimpleString r = readLine r"

definition parseError :: "string \<Rightarrow> string read" where
  "parseError r = readLine r"

definition parseInteger :: "string \<Rightarrow> int read" where
  "parseInteger r =
     (case ReadString r of
        (Inl err, k) \<Rightarrow> (Inl err, k)
      | (Inr line, k) \<Rightarrow>
          if \<not> HasSuffix line crlf then (Inl (Err (''invalid RESP: missing '' @ esc_r @ esc_n)), k)
          else (case Atoi (TrimSuffix line crlf) of
                  None \<Rightarrow> (Inl (Err ''invalid RESP: not a valid integer''), k)
                | Some num \<Rightarrow> (Inr num, k)))"

text \<open>
  \<open>make([]byte, n)\<close> and \<open>make([]interface{}, 0, n)\<close> panic when the length is negative or when the
  memory would exceed the address space of \<open>2 ^ 48\<close> bytes of a 64-bit machine.
\<close>

definition make_ok :: "int \<Rightarrow> int \<Rightarrow> bool" where
  "make_ok elemSize n \<longleftrightarrow> 0 \<le> n \<and> elemSize * n \<le> 281474976710656"

text \<open>\<open>io.ReadFull\<close> of \<open>n\<close> bytes.\<close>

definition ReadFull :: "nat \<Rightarrow> string \<Rightarrow> string read" where
  "ReadFull n r =
     (if n \<le> length r then (Inr (take n r), n)
      else (Inl (if r = [] then EOF else UnexpectedEOF), length r))"

definition parseBulkString :: "string \<Rightarrow> string read option" where
  "parseBulkString r =
     (case readLine r of
        (Inl err, k) \<Rightarrow> Some (Inl err, k)
      | (Inr lengthStr, k) \<Rightarrow>
          (case Atoi lengthStr of
             None \<Rightarrow> Some (Inl (Err ''invalid bulk string length''), k)
           | Some n \<Rightarrow>
               if n = -1 then Some (Inr [], k)
               else if \<not> make_ok 1 n then None
               else (case ReadFull (nat n) (drop k r) of
                  (Inl err, j) \<Rightarrow> Some (Inl err, k + j)
                | (Inr d, j) \<Rightarrow>
                    (case drop (k + j) r of
                       [] \<Rightarrow> Some (Inl (Err (''expected '' @ esc_r @ '' after bulk string data'')), k + j)
                     | cr # r' \<Rightarrow>
                         if cr \<noteq> CHR 0x0D
                         then Some (Inl (Err (''expected '' @ esc_r @ '' after bulk string data'')), k + j + 1)
                         else (case r' of
                            [] \<Rightarrow> Some (Inl (Err (''expected '' @ esc_n @ '' after bulk string data'')), k + j + 1)
                          | lf # _ \<Rightarrow>
                              if lf \<noteq> CHR 0x0A
                              then Some (Inl (Err (''expected '' @ esc_n @ '' after bulk string data'')), k + j + 2)
                              else Some (Inr d, k + j + 2))))))"

text \<open>
  \<open>Parse\<close>, \<open>parseArray\<close> and its loop (\<open>n\<close> elements to come, \<open>res\<close> so far). Every recursive call
  is on a later part of the stream, or on the same part with fewer elements to come.
\<close>

function Parse :: "string \<Rightarrow> iface read option"
  and parseArray :: "string \<Rightarrow> iface read option"
  and parse_elements :: "nat \<Rightarrow> iface list \<Rightarrow> string \<Rightarrow> iface read option"
where
  "Parse r =
     (case r of
        [] \<Rightarrow> Some (Inl EOF, 0)
      | first # r' \<Rightarrow>
          map_option (\<lambda>(res, k). (res, Suc k))
           (if first = CHR ''+'' then Some (map_prod (map_sum id Str) id (parseSimpleString r'))
            else if first = CHR ''-'' then Some (map_prod (map_sum id Str) id (parseError r'))
            else if first = CHR '':'' then Some (map_prod (map_sum id IntV) id (parseInteger r'))
            else if first = CHR ''$'' then map_option (map_prod (map_sum id Str) id) (parseBulkString r')
            else if first = CHR ''*'' then parseArray r'
            else Some (Inl (Err ''unknown RESP type''), 0)))"
| "parseArray r =
     (case readLine r of
        (Inl err, k) \<Rightarrow> Some (Inl err, k)
      | (Inr lengthStr, k) \<Rightarrow>
          (case Atoi lengthStr of
             None \<Rightarrow> Some (Inl (Err ''invalid array length''), k)
           | Some n \<Rightarrow>
               if n = -1 then Some (Inr NilSlice, k)
               else if \<not> make_ok 16 n then None
               else map_option (\<lambda>(res, j). (res, k + j)) (parse_elements (nat n) [] (drop k r))))"
| "parse_elements n res r =
     (case n of
        0 \<Rightarrow> Some (Inr (Slice res), 0)
      | Suc m \<Rightarrow>
          (case Parse r of
             None \<Rightarrow> None
           | Some (Inl err, k) \<Rightarrow> Some (Inl err, k)
           | Some (Inr element, k) \<Rightarrow>
               map_option (\<lambda>(res, j). (res, k + j)) (parse_elements m (res @ [element]) (drop k r))))"
  by pat_completeness auto
termination
  by (relation "inv_image (less_than <*lex*> less_than <*lex*> less_than)
      (\<lambda>x. case x of Inl r \<Rightarrow> (length r, 0, 0) | Inr (Inl r) \<Rightarrow> (length r, 2, 0)
                   | Inr (Inr (n, _, r)) \<Rightarrow> (length r, 1, n))") auto

declare Parse.simps [simp del] parseArray.simps [simp del] parse_elements.simps [simp del]

section \<open>The parser inverts the encoders\<close>

lemma length_crlf [simp]: "length crlf = 2"
  by (simp add: crlf_def)

lemma case_crlf [simp]:
  "(case crlf @ rest of [] \<Rightarrow> a | c # r \<Rightarrow> f c r) = f (CHR 0x0D) (CHR 0x0A # rest)"
  by (simp add: crlf_def)

lemma takeWhile_line: "c \<notin> set s \<Longrightarrow> takeWhile (\<lambda>x. x \<noteq> c) (s @ c # t) = s"
  by (induction s) auto

lemma ReadString_line:
  "CHR 0x0A \<notin> set s \<Longrightarrow> ReadString (s @ CHR 0x0A # rest) = (Inr (s @ [CHR 0x0A]), Suc (length s))"
  by (simp add: ReadString_def takeWhile_line Let_def)

lemma readLine_line [simp]:
  "CHR 0x0A \<notin> set s \<Longrightarrow> readLine (s @ crlf @ rest) = (Inr s, length s + 2)"
  using ReadString_line[of "s @ [CHR 0x0D]" rest] TrimSuffix_append[of s crlf]
  by (simp add: readLine_def crlf_def HasSuffix_def suffix_def)

lemma parseInteger_line [simp]:
  "in_i64 n \<Longrightarrow> parseInteger (Itoa n @ crlf @ rest) = (Inr n, length (Itoa n) + 2)"
  using ReadString_line[of "Itoa n @ [CHR 0x0D]" rest] TrimSuffix_append[of "Itoa n" crlf]
  by (simp add: parseInteger_def crlf_def HasSuffix_def suffix_def Atoi_Itoa)

text \<open>The sizes that fit: strings and arrays that \<open>make\<close> can allocate, numbers of 64 bits.\<close>

definition small :: "string \<Rightarrow> bool" where
  "small s \<longleftrightarrow> int (length s) \<le> 281474976710656"

fun fits :: "iface \<Rightarrow> bool" where
  "fits (Str v) = (int (length v) \<le> 281474976710656)"
| "fits (IntV n) = in_i64 n"
| "fits (Int64 n) = in_i64 n"
| "fits _ = False"

text \<open>What comes back: the parser returns every integer as an \<open>int\<close>.\<close>

fun parsed :: "iface \<Rightarrow> iface" where
  "parsed (Int64 n) = IntV n"
| "parsed v = v"

lemma length_in_i64: "int n \<le> 281474976710656 \<Longrightarrow> in_i64 (int n)"
  by (simp add: in_i64_def)

lemma parseBulkString_line:
  assumes "int (length v) \<le> 281474976710656"
  shows "parseBulkString (Itoa (int (length v)) @ crlf @ v @ crlf @ rest) =
    Some (Inr v, length (Itoa (int (length v)) @ crlf @ v @ crlf))"
  using assms length_in_i64[OF assms]
  by (simp add: parseBulkString_def Atoi_Itoa make_ok_def ReadFull_def)

lemma Parse_element:
  assumes "encode_element v = Some e" and "fits v"
  shows "Parse (e @ rest) = Some (Inr (parsed v), length e)"
  using assms parseBulkString_line[of _ rest]
  by (cases v) (auto simp: Parse.simps EncodeBulkString_def EncodeInteger_def)

lemma parse_elements_0 [simp]: "parse_elements 0 res r = Some (Inr (Slice res), 0)"
  by (simp add: parse_elements.simps)

lemma parse_elements_Suc:
  "parse_elements (Suc n) res r =
     (case Parse r of
        None \<Rightarrow> None
      | Some (Inl err, k) \<Rightarrow> Some (Inl err, k)
      | Some (Inr element, k) \<Rightarrow>
          map_option (\<lambda>(res, j). (res, k + j)) (parse_elements n (res @ [element]) (drop k r)))"
  by (simp add: parse_elements.simps[of "Suc n"])

lemma parse_elements_encoded:
  assumes "list_all2 (\<lambda>v e. encode_element v = Some e \<and> fits v) vs es"
  shows "parse_elements (length vs) acc (concat es @ rest) =
    Some (Inr (Slice (acc @ map parsed vs)), length (concat es))"
  using assms
proof (induction vs es arbitrary: acc rule: list_all2_induct)
  case (Cons v vs e es)
  then show ?case
    using Parse_element[of v e "concat es @ rest"] by (simp add: parse_elements_Suc)
qed simp

lemma encode_fits: "fits v \<Longrightarrow> \<exists>e. encode_element v = Some e"
  by (cases v) auto

lemma encode_loop:
  assumes "list_all2 (\<lambda>v e. encode_element v = Some e \<and> fits v) vs es"
  shows "foreach (\<lambda>v result. do { e \<leftarrow> encode_element v; Some (result @ e) }) vs r = Some (r @ concat es)"
  using assms by (induction vs es arbitrary: r rule: list_all2_induct) auto

lemma EncodeArray_fits:
  assumes "\<forall>v \<in> set vs. fits v"
  obtains es where "list_all2 (\<lambda>v e. encode_element v = Some e \<and> fits v) vs es"
    "EncodeArray vs = Some (''*'' @ Itoa (int (length vs)) @ crlf @ concat es)"
proof -
  have es: "list_all2 (\<lambda>v e. encode_element v = Some e \<and> fits v) vs (map (the \<circ> encode_element) vs)"
    using assms encode_fits by (force simp: list_all2_map2 list_all2_same)
  with encode_loop[OF es] that show ?thesis by (simp add: EncodeArray_def)
qed

lemma Parse_EncodeArray:
  assumes "\<forall>v \<in> set vs. fits v" and "int (length vs) \<le> 17592186044416"
  shows "\<exists>e. EncodeArray vs = Some e \<and> Parse (e @ rest) = Some (Inr (Slice (map parsed vs)), length e)"
proof -
  obtain es where es: "list_all2 (\<lambda>v e. encode_element v = Some e \<and> fits v) vs es"
    "EncodeArray vs = Some (''*'' @ Itoa (int (length vs)) @ crlf @ concat es)"
    using assms(1) by (rule EncodeArray_fits)
  have "in_i64 (int (length vs))" using assms(2) by (simp add: in_i64_def)
  with es assms(2) show ?thesis
    by (simp add: Parse.simps parseArray.simps Atoi_Itoa make_ok_def parse_elements_encoded)
qed

section \<open>What the parser takes from the stream\<close>

lemma ReadString_SomeD:
  assumes "ReadString r = (Inr line, k)"
  shows "\<exists>s. line = s @ [CHR 0x0A] \<and> CHR 0x0A \<notin> set s \<and> k = length line \<and> r = line @ drop k r"
proof -
  let ?s = "takeWhile (\<lambda>c. c \<noteq> CHR 0x0A) r"
  have "CHR 0x0A \<in> set r" and line: "line = ?s @ [CHR 0x0A]" "k = length line"
    using assms by (auto simp: ReadString_def Let_def split: if_splits)
  then obtain c t where t: "dropWhile (\<lambda>c. c \<noteq> CHR 0x0A) r = c # t"
    by (cases "dropWhile (\<lambda>c. c \<noteq> CHR 0x0A) r") auto
  then have "c = CHR 0x0A" using hd_dropWhile[of "\<lambda>c. c \<noteq> CHR 0x0A" r] by simp
  then have "r = line @ t" using takeWhile_dropWhile_id[of "\<lambda>c. c \<noteq> CHR 0x0A" r] t line by simp
  moreover from this have "drop k r = t" using line(2) by (metis append_eq_conv_conj)
  moreover have "CHR 0x0A \<notin> set ?s" using set_takeWhileD by fast
  ultimately show ?thesis using line by simp
qed

lemma readLine_SomeD:
  assumes "readLine r = (Inr l, k)"
  shows "CHR 0x0A \<notin> set l \<and> k = length l + 2 \<and> r = l @ crlf @ drop k r"
proof -
  obtain line where line: "ReadString r = (Inr line, k)" "suffix crlf line" "l = TrimSuffix line crlf"
    using assms by (auto simp: readLine_def HasSuffix_def split: prod.splits sum.splits if_splits)
  then have ll: "line = l @ crlf" by (auto simp: suffix_def)
  obtain s where s: "line = s @ [CHR 0x0A]" "CHR 0x0A \<notin> set s" "k = length line" "r = line @ drop k r"
    using ReadString_SomeD[OF line(1)] by blast
  then have "s = l @ [CHR 0x0D]" using ll by (simp add: crlf_def)
  with s ll show ?thesis by simp
qed

lemma parseInteger_SomeD:
  assumes "parseInteger r = (Inr n, k)"
  shows "\<exists>l. CHR 0x0A \<notin> set l \<and> Atoi l = Some n \<and> k = length l + 2 \<and> r = l @ crlf @ drop k r"
proof -
  obtain line where line: "ReadString r = (Inr line, k)" "suffix crlf line" "Atoi (TrimSuffix line crlf) = Some n"
    using assms by (auto simp: parseInteger_def HasSuffix_def split: prod.splits sum.splits if_splits option.splits)
  then have "readLine r = (Inr (TrimSuffix line crlf), k)"
    by (simp add: readLine_def HasSuffix_def)
  from readLine_SomeD[OF this] line(3) show ?thesis by blast
qed

lemma parseInteger_line':
  "CHR 0x0A \<notin> set l \<Longrightarrow> Atoi l = Some n \<Longrightarrow> parseInteger (l @ crlf @ rest) = (Inr n, length l + 2)"
  using ReadString_line[of "l @ [CHR 0x0D]" rest] TrimSuffix_append[of l crlf]
  by (simp add: parseInteger_def crlf_def HasSuffix_def suffix_def)

lemma parseBulkString_SomeD:
  assumes "parseBulkString r = Some (Inr v, k)"
  shows "k \<le> length r \<and> parseBulkString (take k r @ t) = Some (Inr v, k)"
proof -
  obtain l j where l: "readLine r = (Inr l, j)"
    using assms by (auto simp: parseBulkString_def split: prod.splits sum.splits)
  have r: "CHR 0x0A \<notin> set l" "j = length l + 2" "r = l @ crlf @ drop j r" using readLine_SomeD[OF l] by auto
  obtain n where n: "Atoi l = Some n"
    using assms l by (auto simp: parseBulkString_def split: option.splits)
  show ?thesis
  proof (cases "n = -1")
    case True
    then have "k = j" "v = []" using assms l n by (auto simp: parseBulkString_def)
    moreover have "take j r = l @ crlf" using r by (metis add_diff_cancel_left' append_assoc append_eq_conv_conj length_append length_crlf)
    moreover have "j \<le> length r" by (subst r(3)) (simp add: r(2))
    ultimately show ?thesis using n True r(1,2) by (simp add: parseBulkString_def)
  next
    case False
    then have ok: "make_ok 1 n" using assms l n by (auto simp: parseBulkString_def split: if_splits)
    have len: "nat n \<le> length (drop j r)"
      using assms l n False ok by (auto simp: parseBulkString_def ReadFull_def split: if_splits)
    have k: "k = j + nat n + 2 \<and> v = take (nat n) (drop j r) \<and> (\<exists>u. drop (j + nat n) r = crlf @ u)"
      using assms l n False ok len
      by (auto simp: parseBulkString_def ReadFull_def crlf_def split: list.splits if_splits)
    then obtain u where "drop (j + nat n) r = crlf @ u" by blast
    then have dec: "r = l @ crlf @ v @ crlf @ u"
      using r(3) k append_take_drop_id[of "nat n" "drop j r"] by (simp add: add.commute)
    have v: "length v = nat n" using k len by simp
    have kl: "k = length (l @ crlf @ v @ crlf)" using k r(2) v by simp
    then have "take k r = l @ crlf @ v @ crlf" "k \<le> length r" unfolding dec by simp_all
    moreover have "parseBulkString ((l @ crlf @ v @ crlf) @ t) = Some (Inr v, k)"
      using r(1) n False ok v kl by (simp add: parseBulkString_def ReadFull_def)
    ultimately show ?thesis by simp
  qed
qed

text \<open>A successful parse needs the bytes it took and nothing after them.\<close>

lemma line_taken:
  assumes "r = l @ crlf @ drop j r" and "j = length l + 2" and "i \<le> length (drop j r)"
  shows "take (j + i) r = l @ crlf @ take i (drop j r)" "j + i \<le> length r"
proof -
  obtain u where "drop j r = u" and "r = l @ crlf @ u" using assms(1) by metis
  with assms(2,3) show "take (j + i) r = l @ crlf @ take i (drop j r)" "j + i \<le> length r"
    by simp_all
qed

lemma map_sum_eq_Inr: "map_sum f g x = Inr y \<longleftrightarrow> (\<exists>z. x = Inr z \<and> y = g z)"
  by (cases x) auto

definition stable :: "(string \<Rightarrow> iface read option) \<Rightarrow> string \<Rightarrow> bool" where
  "stable p r \<longleftrightarrow> (\<forall>v k. p r = Some (Inr v, k) \<longrightarrow> k \<le> length r \<and> (\<forall>t. p (take k r @ t) = Some (Inr v, k)))"

lemma stableI:
  "(\<And>v k. p r = Some (Inr v, k) \<Longrightarrow> k \<le> length r \<and> (\<forall>t. p (take k r @ t) = Some (Inr v, k))) \<Longrightarrow> stable p r"
  by (simp add: stable_def)

lemma stableD:
  "stable p r \<Longrightarrow> p r = Some (Inr v, k) \<Longrightarrow> k \<le> length r \<and> p (take k r @ t) = Some (Inr v, k)"
  by (simp add: stable_def)

lemma stable_bulk: "stable Parse (CHR ''$'' # r)"
  by (rule stableI) (auto simp: Parse.simps map_sum_eq_Inr dest: parseBulkString_SomeD)

lemma stable_integer: "stable Parse (CHR '':'' # r)"
proof (rule stableI)
  fix v k
  assume "Parse (CHR '':'' # r) = Some (Inr v, k)"
  then obtain j n where j: "parseInteger r = (Inr n, j)" "k = Suc j" "v = IntV n"
    by (cases "parseInteger r") (auto simp: Parse.simps map_sum_eq_Inr)
  obtain l where l: "CHR 0x0A \<notin> set l" "Atoi l = Some n" "j = length l + 2" "r = l @ crlf @ drop j r"
    using parseInteger_SomeD[OF j(1)] by blast
  have "take j r = l @ crlf" "j \<le> length r"
    using line_taken[OF l(4,3), of 0] by simp_all
  with j l(1-3) parseInteger_line'[OF l(1,2)]
  show "k \<le> length (CHR '':'' # r) \<and> (\<forall>t. Parse (take k (CHR '':'' # r) @ t) = Some (Inr v, k))"
    by (simp add: Parse.simps)
qed

lemma stable_line:
  assumes "c = CHR ''+'' \<or> c = CHR ''-''"
  shows "stable Parse (c # r)"
proof (rule stableI)
  fix v k
  assume "Parse (c # r) = Some (Inr v, k)"
  then obtain l j where j: "readLine r = (Inr l, j)" "k = Suc j" "v = Str l"
    using assms by (cases "readLine r")
      (auto simp: Parse.simps parseSimpleString_def parseError_def map_sum_eq_Inr)
  have l: "CHR 0x0A \<notin> set l" "j = length l + 2" "r = l @ crlf @ drop j r"
    using readLine_SomeD[OF j(1)] by auto
  have "take j r = l @ crlf" "j \<le> length r"
    using line_taken[OF l(3,2), of 0] by simp_all
  with j l(1,2) assms show "k \<le> length (c # r) \<and> (\<forall>t. Parse (take k (c # r) @ t) = Some (Inr v, k))"
    by (auto simp: Parse.simps parseSimpleString_def parseError_def)
qed

lemma stable_Parse:
  assumes "\<And>r'. r = CHR ''*'' # r' \<Longrightarrow> stable parseArray r'"
  shows "stable Parse r"
proof (cases r)
  case Nil
  then show ?thesis by (simp add: stable_def Parse.simps)
next
  case (Cons c r')
  consider "c = CHR ''*''" | "c = CHR ''$''" | "c = CHR '':''" | "c = CHR ''+'' \<or> c = CHR ''-''"
    | "c \<notin> {CHR ''*'', CHR ''$'', CHR '':'', CHR ''+'', CHR ''-''}" by blast
  then show ?thesis
  proof cases
    case 1
    have "Parse (c # u) = map_option (\<lambda>(res, k). (res, Suc k)) (parseArray u)" for u
      by (simp add: Parse.simps 1)
    then show ?thesis
      using assms[of r'] unfolding Cons 1 by (auto simp: stable_def)
  next
    case 2
    then show ?thesis using Cons stable_bulk by simp
  next
    case 3
    then show ?thesis using Cons stable_integer by simp
  next
    case 4
    then show ?thesis using Cons stable_line by simp
  next
    case 5
    then show ?thesis by (simp add: Cons stable_def Parse.simps[of "c # r'"])
  qed
qed

lemma stable_parseArray:
  assumes "\<And>l k n. readLine r = (Inr l, k) \<Longrightarrow> Atoi l = Some n \<Longrightarrow> n \<noteq> -1 \<Longrightarrow> make_ok 16 n \<Longrightarrow>
    stable (parse_elements (nat n) []) (drop k r)"
  shows "stable parseArray r"
proof (rule stableI)
  fix v k
  assume run: "parseArray r = Some (Inr v, k)"
  then obtain l j where l: "readLine r = (Inr l, j)"
    by (auto simp: parseArray.simps split: prod.splits sum.splits)
  then obtain n where n: "Atoi l = Some n"
    using run by (auto simp: parseArray.simps split: option.splits)
  have r: "CHR 0x0A \<notin> set l" "j = length l + 2" "r = l @ crlf @ drop j r"
    using readLine_SomeD[OF l] by auto
  show "k \<le> length r \<and> (\<forall>t. parseArray (take k r @ t) = Some (Inr v, k))"
  proof (cases "n = -1")
    case True
    then have "k = j" "v = NilSlice" using run l n by (auto simp: parseArray.simps)
    moreover have "take j r = l @ crlf" "j \<le> length r"
      using line_taken[OF r(3,2), of 0] by simp_all
    ultimately show ?thesis using n True r(1,2) by (simp add: parseArray.simps)
  next
    case False
    then have ok: "make_ok 16 n" using run l n by (auto simp: parseArray.simps split: if_splits)
    obtain i where i: "parse_elements (nat n) [] (drop j r) = Some (Inr v, i)" "k = j + i"
      using run l n False ok by (auto simp: parseArray.simps)
    have IH: "i \<le> length (drop j r)" "parse_elements (nat n) [] (take i (drop j r) @ t) = Some (Inr v, i)" for t
      using stableD[OF assms[OF l n False ok] i(1), of t] by auto
    have "take k r = l @ crlf @ take i (drop j r)" "k \<le> length r"
      using line_taken[OF r(3,2) IH(1)] by (simp_all add: i(2))
    with IH(2) r(1,2) n False ok i(2) show ?thesis by (simp add: parseArray.simps)
  qed
qed

lemma stable_parse_elements:
  assumes "stable Parse r" and "\<And>e j. Parse r = Some (Inr e, j) \<Longrightarrow> stable (parse_elements m (res @ [e])) (drop j r)"
  shows "stable (parse_elements (Suc m) res) r"
proof (rule stableI)
  fix v k
  assume run: "parse_elements (Suc m) res r = Some (Inr v, k)"
  obtain e j where e: "Parse r = Some (Inr e, j)"
    using run by (auto simp: parse_elements_Suc split: option.splits prod.splits sum.splits)
  then obtain i where i: "parse_elements m (res @ [e]) (drop j r) = Some (Inr v, i)" "k = j + i"
    using run by (auto simp: parse_elements_Suc)
  have IH: "j \<le> length r" "i \<le> length (drop j r)" "Parse (take j r @ t) = Some (Inr e, j)"
    "parse_elements m (res @ [e]) (take i (drop j r) @ t) = Some (Inr v, i)" for t
    using stableD[OF assms(1) e] stableD[OF assms(2)[OF e] i(1)] by auto
  have "take k r = take j r @ take i (drop j r)" by (simp add: i(2) take_add)
  then show "k \<le> length r \<and> (\<forall>t. parse_elements (Suc m) res (take k r @ t) = Some (Inr v, k))"
    using IH i(2) by (simp add: parse_elements_Suc)
qed

lemma parser_stable:
  "stable Parse r" "stable parseArray r" "stable (parse_elements n res) r"
proof (induction r and r and n res r rule: Parse_parseArray_parse_elements.induct)
  case (1 r)
  have "stable parseArray r'" if "r = CHR ''*'' # r'" for r'
    using 1[OF that] by simp
  then show ?case by (rule stable_Parse)
next
  case (2 r)
  have "stable (parse_elements (nat n) []) (drop k r)"
    if "readLine r = (Inr l, k)" "Atoi l = Some n" "n \<noteq> -1" "make_ok 16 n" for l k n
    using 2[OF that(1)[symmetric] refl that(2,3)] that(4) by simp
  then show ?case by (rule stable_parseArray)
next
  case (3 n res r)
  show ?case
  proof (cases n)
    case (Suc m)
    show ?thesis unfolding Suc
      using 3(1)[OF Suc] 3(2)[OF Suc _ refl refl] by (rule stable_parse_elements)
  qed (simp add: stable_def)
qed

lemma Parse_positive: "Parse r = Some (Inr v, k) \<Longrightarrow> 0 < k"
  by (cases r) (auto simp: Parse.simps)

text \<open>A length header that makes \<open>make\<close> panic stands somewhere in the bytes.\<close>

definition bad_header :: "string \<Rightarrow> bool" where
  "bad_header r \<longleftrightarrow> (\<exists>p l q n. r = p @ l @ crlf @ q \<and> Atoi l = Some n \<and> (n < -1 \<or> 17592186044416 < n))"

lemma bad_header_append: "bad_header q \<Longrightarrow> bad_header (p @ q)"
  unfolding bad_header_def by (metis append_assoc)

lemma bad_header_drop: "bad_header (drop k r) \<Longrightarrow> bad_header r"
  by (metis append_take_drop_id bad_header_append)

lemma bad_header_line:
  "readLine r = (Inr l, k) \<Longrightarrow> Atoi l = Some n \<Longrightarrow> n < -1 \<or> 17592186044416 < n \<Longrightarrow> bad_header r"
  unfolding bad_header_def using readLine_SomeD[of r l k] by (metis append_Nil)

lemma parseBulkString_panic:
  assumes "parseBulkString r = None"
  shows "bad_header r"
proof -
  obtain l k where l: "readLine r = (Inr l, k)"
    using assms by (auto simp: parseBulkString_def split: prod.splits sum.splits)
  then obtain n where n: "Atoi l = Some n"
    using assms by (auto simp: parseBulkString_def split: option.splits)
  have "n \<noteq> -1 \<and> \<not> make_ok 1 n"
    using assms l n by (auto simp: parseBulkString_def split: if_splits prod.splits sum.splits list.splits)
  then show ?thesis
    by (intro bad_header_line[OF l n]) (auto simp: make_ok_def)
qed

lemma parser_panics:
  "Parse r = None \<Longrightarrow> bad_header r"
  "parseArray r = None \<Longrightarrow> bad_header r"
  "parse_elements n res r = None \<Longrightarrow> bad_header r"
proof (induction r and r and n res r rule: Parse_parseArray_parse_elements.induct)
  case (1 r)
  then obtain c r' where r: "r = c # r'" by (auto simp: Parse.simps split: list.splits)
  have "bad_header r'"
    using 1 parseBulkString_panic[of r'] by (auto simp: r Parse.simps split: if_splits)
  then show ?case using bad_header_append[of r' "[c]"] by (simp add: r)
next
  case (2 r)
  then obtain l k where l: "readLine r = (Inr l, k)"
    by (auto simp: parseArray.simps split: prod.splits sum.splits)
  then obtain n where n: "Atoi l = Some n"
    using "2.prems" by (auto simp: parseArray.simps split: option.splits)
  have "n \<noteq> -1" using "2.prems" l n by (auto simp: parseArray.simps)
  show ?case
  proof (cases "make_ok 16 n")
    case True
    then have "parse_elements (nat n) [] (drop k r) = None"
      using "2.prems" l n \<open>n \<noteq> -1\<close> by (simp add: parseArray.simps)
    with "2.IH"[OF l[symmetric] refl n \<open>n \<noteq> -1\<close>] True show ?thesis
      using bad_header_drop by blast
  next
    case False
    with \<open>n \<noteq> -1\<close> show ?thesis
      by (intro bad_header_line[OF l n]) (auto simp: make_ok_def)
  qed
next
  case (3 n res r)
  obtain m where m: "n = Suc m" using "3.prems" by (cases n) auto
  show ?case
  proof (cases "Parse r")
    case None
    with "3.IH"(1)[OF m] show ?thesis by blast
  next
    case (Some x)
    then obtain e k where e: "Parse r = Some (Inr e, k)" "parse_elements m (res @ [e]) (drop k r) = None"
      using "3.prems" by (auto simp: m parse_elements_Suc split: prod.splits sum.splits)
    with "3.IH"(2)[OF m e(1) refl refl] show ?thesis
      using bad_header_drop by blast
  qed
qed

lemma Itoa_colon_split: "CHR '':'' \<notin> set h \<Longrightarrow> Split (h @ CHR '':'' # Itoa n) CHR '':'' = [h, Itoa n]"
  by (simp add: Split_append)

lemma suffix_crlf_Itoa: "\<not> suffix crlf (x @ Itoa n)"
proof
  assume "suffix crlf (x @ Itoa n)"
  then obtain zs where "x @ Itoa n = zs @ crlf" by (auto simp: suffix_def)
  from arg_cong[OF this, of last] have "last (Itoa n) = CHR 0x0A" by (simp add: crlf_def)
  moreover have "last (Itoa n) \<in> set (Itoa n)" by simp
  ultimately show False by simp
qed

lemma ParseRedirect_text:
  assumes "in_i64 port" and "CHR '':'' \<notin> set host" and "host \<noteq> []"
  shows "ParseRedirect (''MOVED '' @ host @ '':'' @ Itoa port) = Inr \<lparr>LeaderHost = host, LeaderPort = Itoa port\<rparr>"
proof -
  let ?a = "host @ '':'' @ Itoa port"
  have "TrimPrefix (''MOVED '' @ ?a) ''-MOVED '' = ''MOVED '' @ ?a" "TrimPrefix (''MOVED '' @ ?a) ''MOVED '' = ?a"
    by (simp_all add: TrimPrefix_def)
  moreover have "TrimSuffix ?a crlf = ?a"
    using suffix_crlf_Itoa[of "host @ '':''" port] by (simp add: TrimSuffix_def)
  ultimately show ?thesis
    using assms by (simp add: ParseRedirect_def IsRedirect_def HasPrefix_def Itoa_colon_split Atoi_Itoa)
qed

section \<open>What the protocol promises\<close>

text \<open>
  C14: Round trip of requests and replies: parsing what \<open>EncodeArray\<close> makes of strings and numbers
  gives them back, also when more bytes follow, and takes exactly the bytes of the encoding, so
  that the next request of a pipelined stream is read from its first byte.
\<close>

theorem resp_round_trip:
  assumes "\<forall>v \<in> set vs. fits v" and "int (length vs) \<le> 17592186044416"
  shows "\<exists>e. EncodeArray vs = Some e \<and> Parse (e @ rest) = Some (Inr (Slice (map parsed vs)), length e)"
  using assms by (rule Parse_EncodeArray)

theorem resp_round_trip_witness:
  "\<exists>e. EncodeArray [Str ''SET'', Str ''k'', Int64 7] = Some e \<and>
     Parse (e @ ''*1'') = Some (Inr (Slice [Str ''SET'', Str ''k'', IntV 7]), length e)"
  using resp_round_trip[of "[Str ''SET'', Str ''k'', Int64 7]" "''*1''"] by (simp add: in_i64_def)

text \<open>
  The replies of one value read back: a status or an error without line feeds as its text, a
  number as that number, a bulk string as its bytes, and the null bulk string as the empty string.
\<close>

lemma reply_round_trip:
  assumes "CHR 0x0A \<notin> set s" and "in_i64 n" and "int (length v) \<le> 281474976710656"
  shows "Parse (EncodeSimpleString s @ rest) = Some (Inr (Str s), length (EncodeSimpleString s))"
    and "Parse (EncodeError s @ rest) = Some (Inr (Str s), length (EncodeError s))"
    and "Parse (EncodeInteger n @ rest) = Some (Inr (IntV n), length (EncodeInteger n))"
    and "Parse (EncodeBulkString v False @ rest) = Some (Inr (Str v), length (EncodeBulkString v False))"
    and "Parse (EncodeBulkString v True @ rest) = Some (Inr (Str []), length (EncodeBulkString v True))"
proof -
  show "Parse (EncodeBulkString v True @ rest) = Some (Inr (Str []), length (EncodeBulkString v True))"
    using readLine_line[of "''-1''" rest]
    by (simp add: Parse.simps EncodeBulkString_def parseBulkString_def Atoi_def unsigned_val_def digit_val_def in_i64_def)
qed (use assms Parse_element[of "Str v" _ rest] Parse_element[of "IntV n" _ rest] in
    \<open>simp_all add: Parse.simps EncodeSimpleString_def EncodeError_def parseSimpleString_def parseError_def\<close>)

text \<open>
  A successful parse takes at least one byte, never more than there are, and depends on the
  bytes it took alone: whatever follows them later, the same value is read.
\<close>

lemma parse_takes_prefix:
  assumes "Parse r = Some (Inr v, k)"
  shows "0 < k \<and> k \<le> length r \<and> Parse (take k r @ t) = Some (Inr v, k)"
  using Parse_positive[OF assms] stableD[OF parser_stable(1) assms] by blast

lemma parse_takes_prefix_witness:
  "Parse (''+OK'' @ crlf @ ''+no'') = Some (Inr (Str ''OK''), 5) \<and>
   Parse (take 5 (''+OK'' @ crlf @ ''+no'') @ ''*'') = Some (Inr (Str ''OK''), 5)"
proof -
  have p: "Parse (''+OK'' @ crlf @ ''+no'') = Some (Inr (Str ''OK''), 5)"
    using readLine_line[of "''OK''" "''+no''"] by (simp add: Parse.simps parseSimpleString_def)
  with parse_takes_prefix[OF p, of "''*''"] show ?thesis by simp
qed


text \<open>
  Any client can make the parser panic: a bulk string or an array whose length header is a
  number below -1.
\<close>

lemma parse_negative_length_panics:
  assumes "n < -1" and "in_i64 n"
  shows "Parse (''$'' @ Itoa n @ crlf @ rest) = None \<and> Parse (''*'' @ Itoa n @ crlf @ rest) = None"
  using assms by (simp add: Parse.simps parseBulkString_def parseArray.simps Atoi_Itoa make_ok_def)

lemma parse_negative_length_panics_witness: "Parse (''$-2'' @ crlf) = None"
proof -
  have "Itoa (- 2) = ''-2''" by code_simp
  with parse_negative_length_panics[of "-2" "[]"] show ?thesis by (simp add: in_i64_def)
qed


text \<open>
  A redirect that the server encodes is recognised by the client and gives back the host and
  the port, for a host without colon and line feed.
\<close>

lemma redirect_round_trip:
  assumes "in_i64 port" and "CHR '':'' \<notin> set host" and "CHR 0x0A \<notin> set host" and "host \<noteq> []"
  shows "\<exists>s r k. Parse (EncodeRedirect host port) = Some (Inr (Str s), k) \<and> IsRedirect s \<and>
    ParseRedirect s = Inr r \<and> Address r = host @ '':'' @ Itoa port"
proof -
  have "EncodeRedirect host port = ''-'' @ (''MOVED '' @ host @ '':'' @ Itoa port) @ crlf @ []"
    by (simp add: EncodeRedirect_def)
  moreover have "CHR 0x0A \<notin> set (''MOVED '' @ host @ '':'' @ Itoa port)"
    using assms(3) by simp
  ultimately have "\<exists>k. Parse (EncodeRedirect host port) = Some (Inr (Str (''MOVED '' @ host @ '':'' @ Itoa port)), k)"
    using readLine_line[of "''MOVED '' @ host @ '':'' @ Itoa port" "[]"] by (simp add: Parse.simps parseError_def)
  then show ?thesis
    using ParseRedirect_text[OF assms(1,2,4)] by (force simp: Address_def IsRedirect_def HasPrefix_def)
qed

lemma redirect_round_trip_witness:
  "\<exists>s r k. Parse (EncodeRedirect ''db'' 7000) = Some (Inr (Str s), k) \<and> IsRedirect s \<and>
    ParseRedirect s = Inr r \<and> Address r = ''db:'' @ Itoa 7000"
  using redirect_round_trip[of 7000 "''db''"] by (simp add: in_i64_def)

end
