(* ===== verification/PubSub.thy ===== *)
theory PubSub
  imports Resp
begin

text \<open>
  Publish/subscribe, \<open>internal/pubsub/pubsub.go\<close>. A subscriber is reached through two maps, so the
  subscribers live in a store. A Go channel of messages is its queue and a flag that says whether
  it was closed; sending on or closing a closed channel is a panic (\<open>None\<close>), as is a write to a
  nil map. The operations hold the lock throughout, so each is one step; the goroutine that sends
  the queued messages of a subscriber is a step of its own. Connections are numbers, and
  \<open>wire\<close> holds the bytes written to each.

  The theory shows that the three maps stay consistent, that no operation panics in any
  interleaving with the senders, what each operation does to the relation between connections and
  channels, and what a publication delivers.
\<close>

section \<open>State\<close>

type_synonym conn = nat

record Message =
  Channel :: string
  Content :: string

record Subscriber =
  sub_conn :: conn
  messages :: "Message list"
  messages_closed :: bool
  done_closed :: bool
  sending :: bool

record PubSub =
  connectionToSubscriber :: "(conn, nat) gomap"
  subscribers :: "(string, (conn, nat) gomap) gomap"
  subscriptions :: "(conn, (string, bool) gomap) gomap"
  heap :: "nat \<Rightarrow> Subscriber option"
  fresh :: nat
  wire :: "conn \<Rightarrow> string"

definition NewPubSub :: PubSub where
  "NewPubSub = \<lparr>connectionToSubscriber = [], subscribers = [], subscriptions = [],
                heap = (\<lambda>_. None), fresh = 0, wire = (\<lambda>_. [])\<rparr>"

section \<open>Operations\<close>

definition set_sub :: "nat \<Rightarrow> Subscriber \<Rightarrow> PubSub \<Rightarrow> PubSub" where
  "set_sub a s ps = ps\<lparr>heap := (heap ps)(a \<mapsto> s)\<rparr>"

definition Subscribe :: "conn \<Rightarrow> string \<Rightarrow> PubSub \<Rightarrow> PubSub option" where
  "Subscribe con channel ps = do {
     let (subscriber, already, ps) =
       (case gget (connectionToSubscriber ps) con of
          None \<Rightarrow>
            let a = fresh ps;
                s = \<lparr>sub_conn = con, messages = [], messages_closed = False, done_closed = False, sending = True\<rparr>
            in (a, False,
                set_sub a s (ps\<lparr>fresh := Suc a,
                                connectionToSubscriber := gset con a (connectionToSubscriber ps),
                                subscriptions := gset con [] (subscriptions ps)\<rparr>))
        | Some a \<Rightarrow>
            (a,
             (case gget (subscriptions ps) con of
                None \<Rightarrow> False
              | Some chans \<Rightarrow> gget chans channel = Some True),
             ps));
     if already then Some ps
     else do {
       chans \<leftarrow> gget (subscriptions ps) con;
       let ps = ps\<lparr>subscriptions := gset con (gset channel True chans) (subscriptions ps)\<rparr>;
       let m = (case gget (subscribers ps) channel of None \<Rightarrow> [] | Some m \<Rightarrow> m);
       Some (ps\<lparr>subscribers := gset channel (gset con subscriber m) (subscribers ps)\<rparr>)
     }
   }"

text \<open>
  \<open>close(s.messages)\<close> and \<open>close(s.done)\<close>.
\<close>

definition close_messages :: "nat \<Rightarrow> PubSub \<Rightarrow> PubSub option" where
  "close_messages a ps = do {
     s \<leftarrow> heap ps a;
     if messages_closed s then None else Some (set_sub a (s\<lparr>messages_closed := True\<rparr>) ps)
   }"

definition close_done :: "nat \<Rightarrow> PubSub \<Rightarrow> PubSub option" where
  "close_done a ps = do {
     s \<leftarrow> heap ps a;
     if done_closed s then None else Some (set_sub a (s\<lparr>done_closed := True\<rparr>) ps)
   }"

definition cleanupConnection :: "conn \<Rightarrow> PubSub \<Rightarrow> PubSub option" where
  "cleanupConnection con ps =
     (case gget (connectionToSubscriber ps) con of
        None \<Rightarrow> Some ps
      | Some subscriber \<Rightarrow> do {
          ps \<leftarrow> close_messages subscriber ps;
          ps \<leftarrow> close_done subscriber ps;
          Some (ps\<lparr>subscriptions := gdel con (subscriptions ps),
                   connectionToSubscriber := gdel con (connectionToSubscriber ps)\<rparr>)
        })"

text \<open>Taking a connection out of the subscribers of a channel, and the channel with the last one.\<close>

definition drop_subscriber :: "conn \<Rightarrow> string \<Rightarrow> PubSub \<Rightarrow> PubSub" where
  "drop_subscriber con channel ps =
     (case gget (subscribers ps) channel of
        None \<Rightarrow> ps
      | Some subs \<Rightarrow>
          let subs = gdel con subs
          in if length subs = 0
             then ps\<lparr>subscribers := gdel channel (subscribers ps)\<rparr>
             else ps\<lparr>subscribers := gset channel subs (subscribers ps)\<rparr>)"

definition Unsubscribe :: "conn \<Rightarrow> string \<Rightarrow> PubSub \<Rightarrow> (gerror option \<times> PubSub) option" where
  "Unsubscribe con channel ps =
     (case gget (subscriptions ps) con of
        None \<Rightarrow> Some (Some (Err ''connection not subscribed to any channels''), ps)
      | Some channelSet \<Rightarrow>
          if gget channelSet channel \<noteq> Some True
          then Some (Some (Err (''connection not subscribed to channel: '' @ channel)), ps)
          else do {
            let channelSet = gdel channel channelSet;
            let ps = ps\<lparr>subscriptions := gset con channelSet (subscriptions ps)\<rparr>;
            let ps = drop_subscriber con channel ps;
            ps \<leftarrow> (if length channelSet = 0 then cleanupConnection con ps else Some ps);
            Some (None, ps)
          })"

text \<open>\<open>ord\<close>: the order in which the loop visits the channels of the connection.\<close>

definition RemoveConnection :: "(string, bool) gomap \<Rightarrow> conn \<Rightarrow> PubSub \<Rightarrow> PubSub option" where
  "RemoveConnection ord con ps =
     (case gget (connectionToSubscriber ps) con of
        None \<Rightarrow> Some ps
      | Some subscriber \<Rightarrow>
          (case gget (subscriptions ps) con of
             None \<Rightarrow> Some (ps\<lparr>connectionToSubscriber := gdel con (connectionToSubscriber ps)\<rparr>)
           | Some channelSet \<Rightarrow> do {
               let ps = fold (\<lambda>(channel, _). drop_subscriber con channel) ord ps;
               ps \<leftarrow> close_messages subscriber ps;
               ps \<leftarrow> close_done subscriber ps;
               Some (ps\<lparr>subscriptions := gdel con (subscriptions ps),
                        connectionToSubscriber := gdel con (connectionToSubscriber ps)\<rparr>)
             }))"

text \<open>
  The send of \<open>Publish\<close> to one subscriber: a send on a closed channel panics, a full buffer drops
  the message. \<open>ord\<close>: the order of the loop over the subscribers of the channel.
\<close>

definition publish_one :: "Message \<Rightarrow> conn \<times> nat \<Rightarrow> int \<times> PubSub \<Rightarrow> (int \<times> PubSub) option" where
  "publish_one msg = (\<lambda>(_, a) (count, ps). do {
     s \<leftarrow> heap ps a;
     if messages_closed s then None
     else if length (messages s) < 100
       then Some (count + 1, set_sub a (s\<lparr>messages := messages s @ [msg]\<rparr>) ps)
     else Some (count, ps)
   })"

definition Publish :: "(conn, nat) gomap \<Rightarrow> string \<Rightarrow> string \<Rightarrow> PubSub \<Rightarrow> (int \<times> PubSub) option" where
  "Publish ord channel message ps =
     (case gget (subscribers ps) channel of
        None \<Rightarrow> Some (0, ps)
      | Some subs \<Rightarrow>
          if length subs = 0 then Some (0, ps)
          else foreach (publish_one \<lparr>Channel = channel, Content = message\<rparr>) ord (0, ps))"

text \<open>
  One round of the loop of \<open>sendMessages\<close>. The \<open>select\<close> takes a message, finds the channel closed
  and empty, or sees the done signal; \<open>write_ok\<close> says whether the write to the connection succeeds.
  A round that cannot happen in the state is \<open>None\<close>.
\<close>

datatype select_case = ReceiveMessage | ReceiveDone

definition sendMessages :: "select_case \<Rightarrow> bool \<Rightarrow> nat \<Rightarrow> PubSub \<Rightarrow> PubSub option" where
  "sendMessages sel write_ok a ps = do {
     s \<leftarrow> heap ps a;
     if \<not> sending s then None
     else (case sel of
         ReceiveMessage \<Rightarrow>
           (case messages s of
              [] \<Rightarrow> if messages_closed s then Some (set_sub a (s\<lparr>sending := False\<rparr>) ps) else None
            | msg # rest \<Rightarrow> do {
                encoded \<leftarrow> EncodePubSubMessage (Channel msg) (Content msg);
                if write_ok
                then Some ((set_sub a (s\<lparr>messages := rest\<rparr>) ps)
                       \<lparr>wire := (wire ps)(sub_conn s := wire ps (sub_conn s) @ encoded)\<rparr>)
                else Some (set_sub a (s\<lparr>messages := rest, sending := False\<rparr>) ps)
              })
       | ReceiveDone \<Rightarrow> if done_closed s then Some (set_sub a (s\<lparr>sending := False\<rparr>) ps) else None)
   }"

definition GetSubscriberCount :: "string \<Rightarrow> PubSub \<Rightarrow> nat" where
  "GetSubscriberCount channel ps =
     (case gget (subscribers ps) channel of None \<Rightarrow> 0 | Some subs \<Rightarrow> length subs)"

definition GetChannels :: "(string, (conn, nat) gomap) gomap \<Rightarrow> string list" where
  "GetChannels ord = map fst ord"

text \<open>\<open>pick\<close>: the order that the loop takes for a given map.\<close>

definition GetSubscribedChannels ::
    "((string, bool) gomap \<Rightarrow> (string, bool) gomap) \<Rightarrow> conn \<Rightarrow> PubSub \<Rightarrow> string list" where
  "GetSubscribedChannels pick con ps =
     (case gget (subscriptions ps) con of None \<Rightarrow> [] | Some channelSet \<Rightarrow> map fst (pick channelSet))"

section \<open>Consistency\<close>

text \<open>
  The lookups behind the nested maps: the subscriber of a connection on a channel, and whether a
  connection lists a channel.
\<close>

definition sub_at :: "PubSub \<Rightarrow> string \<Rightarrow> conn \<Rightarrow> nat option" where
  "sub_at ps ch con = (case gget (subscribers ps) ch of None \<Rightarrow> None | Some m \<Rightarrow> gget m con)"

definition lists :: "PubSub \<Rightarrow> conn \<Rightarrow> string \<Rightarrow> bool" where
  "lists ps con ch \<longleftrightarrow> (case gget (subscriptions ps) con of None \<Rightarrow> False | Some m \<Rightarrow> gget m ch \<noteq> None)"

text \<open>No empty or ill-formed inner maps.\<close>

definition channels_ok :: "(string, (conn, nat) gomap) gomap \<Rightarrow> bool" where
  "channels_ok ss \<longleftrightarrow> gmap_ok ss \<and> (\<forall>ch m. gget ss ch = Some m \<longrightarrow> gmap_ok m \<and> m \<noteq> [])"

definition sets_ok :: "(conn, (string, bool) gomap) gomap \<Rightarrow> bool" where
  "sets_ok ss \<longleftrightarrow> (\<forall>con m. gget ss con = Some m \<longrightarrow>
     gmap_ok m \<and> m \<noteq> [] \<and> (\<forall>ch. gget m ch \<noteq> Some False))"

text \<open>A subscriber that the maps reach is open, with a buffer of at most 100 messages.\<close>

definition live_sub :: "PubSub \<Rightarrow> conn \<Rightarrow> nat \<Rightarrow> bool" where
  "live_sub ps con a \<longleftrightarrow> (\<exists>s. heap ps a = Some s \<and> sub_conn s = con \<and>
     \<not> messages_closed s \<and> \<not> done_closed s \<and> length (messages s) \<le> 100)"

definition ps_ok :: "PubSub \<Rightarrow> bool" where
  "ps_ok ps \<longleftrightarrow> channels_ok (subscribers ps) \<and> sets_ok (subscriptions ps) \<and>
     (\<forall>con. gget (connectionToSubscriber ps) con = None \<longleftrightarrow> gget (subscriptions ps) con = None) \<and>
     (\<forall>ch con. sub_at ps ch con = (if lists ps con ch then gget (connectionToSubscriber ps) con else None)) \<and>
     (\<forall>con a. gget (connectionToSubscriber ps) con = Some a \<longrightarrow> live_sub ps con a) \<and>
     (\<forall>a. heap ps a \<noteq> None \<longrightarrow> a < fresh ps)"

lemma ps_okD:
  assumes "ps_ok ps"
  shows "channels_ok (subscribers ps)" "sets_ok (subscriptions ps)"
    "gget (connectionToSubscriber ps) con = None \<longleftrightarrow> gget (subscriptions ps) con = None"
    "sub_at ps ch con = (if lists ps con ch then gget (connectionToSubscriber ps) con else None)"
    "gget (connectionToSubscriber ps) con = Some a \<Longrightarrow> live_sub ps con a"
    "heap ps a \<noteq> None \<Longrightarrow> a < fresh ps"
  using assms by (auto simp: ps_ok_def)

lemma sub_at_iff:
  "ps_ok ps \<Longrightarrow> sub_at ps ch con = Some a \<longleftrightarrow> lists ps con ch \<and> gget (connectionToSubscriber ps) con = Some a"
  using ps_okD(4)[of ps ch con] by (simp split: if_splits)

lemma lists_subscriber: "ps_ok ps \<Longrightarrow> lists ps con ch \<Longrightarrow> \<exists>a. gget (connectionToSubscriber ps) con = Some a"
  using ps_okD(3)[of ps con] by (cases "gget (connectionToSubscriber ps) con") (auto simp: lists_def)

lemma ps_okI:
  assumes "channels_ok (subscribers ps)" "sets_ok (subscriptions ps)"
    "\<And>con. gget (connectionToSubscriber ps) con = None \<longleftrightarrow> gget (subscriptions ps) con = None"
    "\<And>ch con. sub_at ps ch con = (if lists ps con ch then gget (connectionToSubscriber ps) con else None)"
    "\<And>con a. gget (connectionToSubscriber ps) con = Some a \<Longrightarrow> live_sub ps con a"
    "\<And>a. heap ps a \<noteq> None \<Longrightarrow> a < fresh ps"
  shows "ps_ok ps"
  using assms by (simp add: ps_ok_def)

lemma ps_ok_New: "ps_ok NewPubSub"
  by (simp add: ps_ok_def NewPubSub_def channels_ok_def sets_ok_def sub_at_def lists_def)

lemma gset_not_Nil [simp]: "gset k v m \<noteq> []"
  by (cases m) auto

text \<open>Entering a connection into a channel and its set.\<close>

definition enter :: "conn \<Rightarrow> string \<Rightarrow> nat \<Rightarrow> (string, bool) gomap \<Rightarrow> PubSub \<Rightarrow> PubSub" where
  "enter con ch a chans ps =
     ps\<lparr>subscriptions := gset con (gset ch True chans) (subscriptions ps),
        subscribers := gset ch (gset con a (case gget (subscribers ps) ch of None \<Rightarrow> [] | Some m \<Rightarrow> m)) (subscribers ps)\<rparr>"

lemma sub_at_enter:
  "sub_at (enter con ch a chans ps) ch' con' = (if ch' = ch \<and> con' = con then Some a else sub_at ps ch' con')"
  by (auto simp: sub_at_def enter_def gget_gset split: option.splits)

lemma lists_enter:
  "lists (enter con ch a chans ps) con' ch' =
     (if con' = con then ch' = ch \<or> gget chans ch' \<noteq> None else lists ps con' ch')"
  by (auto simp: lists_def enter_def gget_gset)

lemma channels_ok_enter: "channels_ok (subscribers ps) \<Longrightarrow> channels_ok (subscribers (enter con ch a chans ps))"
  by (auto simp: channels_ok_def enter_def gget_gset split: option.splits if_splits)

lemma sets_ok_enter:
  "sets_ok (gdel con (subscriptions ps)) \<Longrightarrow> gmap_ok chans \<Longrightarrow> (\<forall>c. gget chans c \<noteq> Some False) \<Longrightarrow>
   sets_ok (subscriptions (enter con ch a chans ps))"
  by (auto simp: sets_ok_def enter_def gget_gset gget_gdel split: if_splits)

lemma enter_simps [simp]:
  "connectionToSubscriber (enter con ch a chans ps) = connectionToSubscriber ps"
  "heap (enter con ch a chans ps) = heap ps" "fresh (enter con ch a chans ps) = fresh ps"
  "wire (enter con ch a chans ps) = wire ps"
  "gget (subscriptions (enter con ch a chans ps)) = (gget (subscriptions ps))(con \<mapsto> gset ch True chans)"
  by (simp_all add: enter_def gget_gset)

lemma live_sub_cong: "heap ps' = heap ps \<Longrightarrow> live_sub ps' con a = live_sub ps con a"
  by (simp add: live_sub_def)

lemma sets_ok_gdel: "sets_ok ss \<Longrightarrow> sets_ok (gdel con ss)"
  by (auto simp: sets_ok_def gget_gdel split: if_splits)

text \<open>The new subscriber of a connection that had none.\<close>

definition admit :: "conn \<Rightarrow> PubSub \<Rightarrow> PubSub" where
  "admit con ps =
     set_sub (fresh ps) \<lparr>sub_conn = con, messages = [], messages_closed = False, done_closed = False, sending = True\<rparr>
       (ps\<lparr>fresh := Suc (fresh ps),
           connectionToSubscriber := gset con (fresh ps) (connectionToSubscriber ps),
           subscriptions := gset con [] (subscriptions ps)\<rparr>)"

lemma Subscribe_cases:
  assumes "ps_ok ps"
  shows "Subscribe con ch ps = Some (if lists ps con ch then ps
     else (case gget (connectionToSubscriber ps) con of
             None \<Rightarrow> enter con ch (fresh ps) [] (admit con ps)
           | Some a \<Rightarrow> enter con ch a (the (gget (subscriptions ps) con)) ps))"
proof (cases "gget (connectionToSubscriber ps) con")
  case None
  then have "gget (subscriptions ps) con = None" using ps_okD(3)[OF assms] by simp
  then have "\<not> lists ps con ch" by (simp add: lists_def)
  with None show ?thesis
    by (simp add: Subscribe_def Let_def admit_def enter_def set_sub_def gget_gset)
next
  case (Some a)
  then obtain m where m: "gget (subscriptions ps) con = Some m"
    using ps_okD(3)[OF assms, of con] by (cases "gget (subscriptions ps) con") auto
  have "gget m ch \<noteq> Some False"
    using ps_okD(2)[OF assms] m unfolding sets_ok_def by blast
  then have "gget m ch = Some True \<longleftrightarrow> lists ps con ch"
    using m by (cases "gget m ch") (auto simp: lists_def)
  with Some m show ?thesis by (simp add: Subscribe_def Let_def enter_def)
qed

lemma ps_ok_Subscribe_old:
  assumes ok: "ps_ok ps" and a: "gget (connectionToSubscriber ps) con = Some a" and m: "gget (subscriptions ps) con = Some m"
  shows "ps_ok (enter con ch a m ps)"
proof (rule ps_okI)
  have "gmap_ok m" "\<forall>c. gget m c \<noteq> Some False"
    using ps_okD(2)[OF ok] m by (auto simp: sets_ok_def)
  then show "sets_ok (subscriptions (enter con ch a m ps))"
    using ps_okD(2)[OF ok] by (intro sets_ok_enter sets_ok_gdel)
  show "channels_ok (subscribers (enter con ch a m ps))"
    using ps_okD(1)[OF ok] by (rule channels_ok_enter)
  have "lists ps con ch' \<longleftrightarrow> gget m ch' \<noteq> None" for ch' using m by (simp add: lists_def)
  then show "sub_at (enter con ch a m ps) ch' con' =
      (if lists (enter con ch a m ps) con' ch' then gget (connectionToSubscriber (enter con ch a m ps)) con' else None)" for ch' con'
    using ps_okD(4)[OF ok, of ch' con'] a by (auto simp: sub_at_enter lists_enter)
qed (use ok a m ps_okD(3,5,6)[OF ok] in \<open>auto simp: live_sub_cong[of "enter con ch a m ps" ps]\<close>)

lemma ps_ok_Subscribe_new:
  assumes ok: "ps_ok ps" and none: "gget (connectionToSubscriber ps) con = None"
  shows "ps_ok (enter con ch (fresh ps) [] (admit con ps))"
proof (rule ps_okI)
  let ?ps = "enter con ch (fresh ps) [] (admit con ps)"
  have ns: "gget (subscriptions ps) con = None" using ps_okD(3)[OF ok] none by simp
  have nl: "\<not> lists ps con ch'" for ch' using ns by (simp add: lists_def)
  have ad: "sub_at (admit con ps) = sub_at ps" "subscribers (admit con ps) = subscribers ps"
    "gget (connectionToSubscriber (admit con ps)) = (gget (connectionToSubscriber ps))(con \<mapsto> fresh ps)"
    "gget (subscriptions (admit con ps)) = (gget (subscriptions ps))(con \<mapsto> [])"
    "heap (admit con ps) = (heap ps)(fresh ps \<mapsto> \<lparr>sub_conn = con, messages = [], messages_closed = False, done_closed = False, sending = True\<rparr>)"
    "fresh (admit con ps) = Suc (fresh ps)"
    by (auto simp: admit_def set_sub_def sub_at_def gget_gset fun_eq_iff)
  have al: "lists (admit con ps) con' ch' = (con' \<noteq> con \<and> lists ps con' ch')" for con' ch'
    using nl by (auto simp: lists_def ad)
  show "channels_ok (subscribers ?ps)"
    using ps_okD(1)[OF ok] ad(2) by (intro channels_ok_enter) simp
  show "sets_ok (subscriptions ?ps)"
    using ps_okD(2)[OF ok] by (intro sets_ok_enter) (auto simp: sets_ok_def gget_gdel ad split: if_splits)
  show "gget (connectionToSubscriber ?ps) con' = None \<longleftrightarrow> gget (subscriptions ?ps) con' = None" for con'
    using ps_okD(3)[OF ok] by (simp add: ad)
  show "sub_at ?ps ch' con' = (if lists ?ps con' ch' then gget (connectionToSubscriber ?ps) con' else None)" for ch' con'
    using ps_okD(4)[OF ok, of ch' con'] nl[of ch'] by (auto simp: sub_at_enter lists_enter al ad)
  show "live_sub ?ps con' a" if "gget (connectionToSubscriber ?ps) con' = Some a" for con' a
  proof (cases "con' = con")
    case False
    then have "live_sub ps con' a" using that ps_okD(5)[OF ok] by (simp add: ad)
    moreover from this have "a < fresh ps" using ps_okD(6)[OF ok] by (auto simp: live_sub_def)
    ultimately show ?thesis by (simp add: live_sub_def ad)
  qed (use that in \<open>auto simp: live_sub_def ad\<close>)
  show "a < fresh ?ps" if "heap ?ps a \<noteq> None" for a
    using that ps_okD(6)[OF ok, of a] by (auto simp: ad less_Suc_eq split: if_splits)
qed

lemma Subscribe_ok:
  assumes "ps_ok ps"
  obtains ps' where "Subscribe con ch ps = Some ps'" "ps_ok ps'"
    "\<And>con' ch'. lists ps' con' ch' \<longleftrightarrow> lists ps con' ch' \<or> (con' = con \<and> ch' = ch)"
proof (cases "lists ps con ch")
  case True
  then show ?thesis using that[of ps] assms Subscribe_cases[OF assms, of con ch] by auto
next
  case False
  show ?thesis
  proof (cases "gget (connectionToSubscriber ps) con")
    case None
    then have "gget (subscriptions ps) con = None" using ps_okD(3)[OF assms] by simp
    then have "lists (enter con ch (fresh ps) [] (admit con ps)) con' ch' \<longleftrightarrow>
        lists ps con' ch' \<or> (con' = con \<and> ch' = ch)" for con' ch'
      by (auto simp: lists_enter) (auto simp: lists_def admit_def set_sub_def gget_gset)
    then show ?thesis
      using that None False ps_ok_Subscribe_new[OF assms None] Subscribe_cases[OF assms, of con ch] by simp
  next
    case (Some a)
    then obtain m where m: "gget (subscriptions ps) con = Some m"
      using ps_okD(3)[OF assms, of con] by (cases "gget (subscriptions ps) con") auto
    have "lists (enter con ch a m ps) con' ch' \<longleftrightarrow> lists ps con' ch' \<or> (con' = con \<and> ch' = ch)" for con' ch'
      using m by (auto simp: lists_def gget_gset)
    then show ?thesis
      using that Some m False ps_ok_Subscribe_old[OF assms Some m] Subscribe_cases[OF assms, of con ch] by simp
  qed
qed

lemma drop_subscriber_simps [simp]:
  "connectionToSubscriber (drop_subscriber con ch ps) = connectionToSubscriber ps"
  "subscriptions (drop_subscriber con ch ps) = subscriptions ps"
  "heap (drop_subscriber con ch ps) = heap ps" "fresh (drop_subscriber con ch ps) = fresh ps"
  "wire (drop_subscriber con ch ps) = wire ps"
  by (simp_all add: drop_subscriber_def Let_def split: option.splits)

lemma sub_at_drop:
  "channels_ok (subscribers ps) \<Longrightarrow>
   sub_at (drop_subscriber con ch ps) ch' con' = (if ch' = ch \<and> con' = con then None else sub_at ps ch' con')"
proof (cases "gget (subscribers ps) ch")
  case (Some m)
  have "gget m con' = None" if "gdel con m = []" "con' \<noteq> con" for con'
    using arg_cong[OF that(1), of gget] that(2) by (auto simp: gget_gdel fun_eq_iff split: if_splits)
  with Some show ?thesis
    by (auto simp: drop_subscriber_def sub_at_def gget_gset gget_gdel Let_def)
qed (auto simp: drop_subscriber_def sub_at_def)

lemma channels_ok_drop: "channels_ok (subscribers ps) \<Longrightarrow> channels_ok (subscribers (drop_subscriber con ch ps))"
  by (auto simp: drop_subscriber_def channels_ok_def gget_gset gget_gdel Let_def split: option.splits if_splits)

lemma drop_all:
  assumes "channels_ok (subscribers ps)"
  shows "channels_ok (subscribers (fold (\<lambda>(ch, _). drop_subscriber con ch) ord ps)) \<and>
    sub_at (fold (\<lambda>(ch, _). drop_subscriber con ch) ord ps) ch' con' =
      (if ch' \<in> fst ` set ord \<and> con' = con then None else sub_at ps ch' con') \<and>
    connectionToSubscriber (fold (\<lambda>(ch, _). drop_subscriber con ch) ord ps) = connectionToSubscriber ps \<and>
    subscriptions (fold (\<lambda>(ch, _). drop_subscriber con ch) ord ps) = subscriptions ps \<and>
    heap (fold (\<lambda>(ch, _). drop_subscriber con ch) ord ps) = heap ps \<and>
    fresh (fold (\<lambda>(ch, _). drop_subscriber con ch) ord ps) = fresh ps"
  using assms
proof (induction ord arbitrary: ps)
  case (Cons x ord)
  obtain ch b where "x = (ch, b)" by (cases x)
  with Cons.IH[OF channels_ok_drop[OF Cons.prems, of con ch]] sub_at_drop[OF Cons.prems, of con ch ch' con']
  show ?case by auto
qed simp

text \<open>Taking a connection out of the maps and closing its channels.\<close>

definition retire :: "conn \<Rightarrow> nat \<Rightarrow> PubSub \<Rightarrow> PubSub" where
  "retire con a ps = ps\<lparr>
     heap := (heap ps)(a := map_option (\<lambda>s. s\<lparr>messages_closed := True, done_closed := True\<rparr>) (heap ps a)),
     subscriptions := gdel con (subscriptions ps),
     connectionToSubscriber := gdel con (connectionToSubscriber ps)\<rparr>"

lemma close_both:
  "live_sub ps con a \<Longrightarrow>
   (do { ps \<leftarrow> close_messages a ps; ps \<leftarrow> close_done a ps;
         Some (ps\<lparr>subscriptions := gdel con (subscriptions ps),
                  connectionToSubscriber := gdel con (connectionToSubscriber ps)\<rparr>) }) = Some (retire con a ps)"
  by (auto simp: close_messages_def close_done_def live_sub_def retire_def set_sub_def)

lemma ps_ok_retire:
  assumes ok: "channels_ok (subscribers ps)" "sets_ok (gdel con (subscriptions ps))"
    and c2s: "\<And>con'. con' \<noteq> con \<Longrightarrow>
      gget (connectionToSubscriber ps) con' = None \<longleftrightarrow> gget (subscriptions ps) con' = None"
    and sub: "\<And>ch. sub_at ps ch con = None" "\<And>ch con'. con' \<noteq> con \<Longrightarrow>
      sub_at ps ch con' = (if lists ps con' ch then gget (connectionToSubscriber ps) con' else None)"
    and live: "\<And>con' a'. gget (connectionToSubscriber ps) con' = Some a' \<Longrightarrow> live_sub ps con' a'"
    and fr: "\<And>a'. heap ps a' \<noteq> None \<Longrightarrow> a' < fresh ps"
    and a: "gget (connectionToSubscriber ps) con = Some a"
  shows "ps_ok (retire con a ps)"
proof (rule ps_okI)
  show "live_sub (retire con a ps) con' a'" if "gget (connectionToSubscriber (retire con a ps)) con' = Some a'" for con' a'
  proof -
    have c: "con' \<noteq> con" "gget (connectionToSubscriber ps) con' = Some a'"
      using that by (auto simp: retire_def gget_gdel split: if_splits)
    then have "a' \<noteq> a" using live[OF c(2)] live[OF a] by (auto simp: live_sub_def)
    with live[OF c(2)] show ?thesis by (simp add: live_sub_def retire_def)
  qed
  show "sub_at (retire con a ps) ch con' =
      (if lists (retire con a ps) con' ch then gget (connectionToSubscriber (retire con a ps)) con' else None)" for ch con'
    using sub by (auto simp: retire_def sub_at_def lists_def gget_gdel)
qed (use ok c2s fr in \<open>auto simp: retire_def gget_gdel split: if_splits\<close>)

lemma lists_retire: "lists (retire con a ps) con' ch' \<longleftrightarrow> con' \<noteq> con \<and> lists ps con' ch'"
  by (auto simp: lists_def retire_def gget_gdel)

lemma RemoveConnection_ok:
  assumes ok: "ps_ok ps" and ord: "\<And>m. gget (subscriptions ps) con = Some m \<Longrightarrow> is_range ord m"
  obtains ps' where "RemoveConnection ord con ps = Some ps'" "ps_ok ps'"
    "\<And>con' ch'. lists ps' con' ch' \<longleftrightarrow> con' \<noteq> con \<and> lists ps con' ch'"
proof (cases "gget (connectionToSubscriber ps) con")
  case None
  then have "\<not> lists ps con ch" for ch using ps_okD(3)[OF ok, of con] by (simp add: lists_def)
  with None that[of ps] ok show ?thesis by (auto simp: RemoveConnection_def)
next
  case (Some a)
  then obtain m where m: "gget (subscriptions ps) con = Some m"
    using ps_okD(3)[OF ok, of con] by (cases "gget (subscriptions ps) con") auto
  let ?ps = "fold (\<lambda>(ch, _). drop_subscriber con ch) ord ps"
  note d = drop_all[OF ps_okD(1)[OF ok], of con ord]
  have keys: "ch \<in> fst ` set ord \<longleftrightarrow> lists ps con ch" for ch
    using is_range_keys[OF ord[OF m]] m by (auto simp: lists_def)
  have live: "live_sub ?ps con' a'" if "gget (connectionToSubscriber ps) con' = Some a'" for con' a'
    using ps_okD(5)[OF ok that] d by (simp add: live_sub_def)
  have "ps_ok (retire con a ?ps)"
  proof (rule ps_ok_retire)
    show "sub_at ?ps ch con = None" for ch
      using d[of ch con] keys ps_okD(4)[OF ok, of ch con] by auto
    show "sub_at ?ps ch con' = (if lists ?ps con' ch then gget (connectionToSubscriber ?ps) con' else None)" if "con' \<noteq> con" for ch con'
      using d[of ch con'] that ps_okD(4)[OF ok, of ch con'] by (auto simp: lists_def)
  qed (use d live Some ps_okD[OF ok] sets_ok_gdel in auto)
  moreover have "RemoveConnection ord con ps = Some (retire con a ?ps)"
    using Some m close_both[OF live[OF Some]] by (simp add: RemoveConnection_def)
  moreover have "lists (retire con a ?ps) con' ch' \<longleftrightarrow> con' \<noteq> con \<and> lists ps con' ch'" for con' ch'
    using d by (simp add: lists_retire) (simp add: lists_def)
  ultimately show ?thesis using that by blast
qed

text \<open>The maps after the connection was taken out of the channel and the channel out of its set.\<close>

definition left :: "conn \<Rightarrow> string \<Rightarrow> (string, bool) gomap \<Rightarrow> PubSub \<Rightarrow> PubSub" where
  "left con ch m ps = drop_subscriber con ch (ps\<lparr>subscriptions := gset con (gdel ch m) (subscriptions ps)\<rparr>)"

lemma left_simps:
  assumes "ps_ok ps" and "gget (subscriptions ps) con = Some m"
  shows "channels_ok (subscribers (left con ch m ps))"
    "sub_at (left con ch m ps) ch' con' = (if ch' = ch \<and> con' = con then None else sub_at ps ch' con')"
    "lists (left con ch m ps) con' ch' \<longleftrightarrow> lists ps con' ch' \<and> \<not> (con' = con \<and> ch' = ch)"
    "connectionToSubscriber (left con ch m ps) = connectionToSubscriber ps" "heap (left con ch m ps) = heap ps"
    "fresh (left con ch m ps) = fresh ps"
    "gget (subscriptions (left con ch m ps)) = (gget (subscriptions ps))(con \<mapsto> gdel ch m)"
    "gget (connectionToSubscriber ps) con' = Some a' \<Longrightarrow> live_sub (left con ch m ps) con' a'"
proof -
  let ?ps = "ps\<lparr>subscriptions := gset con (gdel ch m) (subscriptions ps)\<rparr>"
  show "channels_ok (subscribers (left con ch m ps))"
    unfolding left_def using ps_okD(1)[OF assms(1)] by (intro channels_ok_drop) simp
  show "sub_at (left con ch m ps) ch' con' = (if ch' = ch \<and> con' = con then None else sub_at ps ch' con')"
    using sub_at_drop[of ?ps con ch ch' con'] ps_okD(1)[OF assms(1)] by (simp add: left_def sub_at_def)
  show "lists (left con ch m ps) con' ch' \<longleftrightarrow> lists ps con' ch' \<and> \<not> (con' = con \<and> ch' = ch)"
    using assms(2) by (auto simp: left_def lists_def gget_gset gget_gdel)
  show "live_sub (left con ch m ps) con' a'" if "gget (connectionToSubscriber ps) con' = Some a'"
    using ps_okD(5)[OF assms(1) that] by (simp add: live_sub_def left_def)
qed (simp_all add: left_def gget_gset)

lemma Unsubscribe_listed:
  assumes ok: "ps_ok ps" and m: "gget (subscriptions ps) con = Some m" and "lists ps con ch"
  obtains ps' where "Unsubscribe con ch ps = Some (None, ps')" "ps_ok ps'"
    "\<And>con' ch'. lists ps' con' ch' \<longleftrightarrow> lists ps con' ch' \<and> \<not> (con' = con \<and> ch' = ch)"
proof -
  note l = left_simps[OF ok m]
  have vals: "\<forall>c. gget m c \<noteq> Some False" and gm: "gmap_ok m"
    using ps_okD(2)[OF ok] m unfolding sets_ok_def by blast+
  obtain b where b: "gget m ch = Some b" using m assms(3) by (auto simp: lists_def)
  then have yes: "gget m ch = Some True" using vals by (cases b) auto
  obtain a where a: "gget (connectionToSubscriber ps) con = Some a"
    using ps_okD(3)[OF ok, of con] m by (cases "gget (connectionToSubscriber ps) con") auto
  show ?thesis
  proof (cases "gdel ch m = []")
    case True
    have "gget m ch' = None" if "ch' \<noteq> ch" for ch'
      using arg_cong[OF True, of gget] that by (auto simp: gget_gdel fun_eq_iff split: if_splits)
    then have none: "\<not> lists ps con ch'" if "ch' \<noteq> ch" for ch' using m that by (auto simp: lists_def)
    have "ps_ok (retire con a (left con ch m ps))"
    proof (rule ps_ok_retire)
      show "sub_at (left con ch m ps) ch' con = None" for ch'
        using none ps_okD(4)[OF ok, of ch' con] by (simp add: l)
    qed (use a ps_okD[OF ok] in \<open>auto simp: l sets_ok_def gget_gdel split: if_splits\<close>)
    moreover have "cleanupConnection con (left con ch m ps) = Some (retire con a (left con ch m ps))"
      using a close_both[OF l(8)[OF a]] by (simp add: cleanupConnection_def l(4))
    moreover have "Unsubscribe con ch ps = do { ps \<leftarrow> cleanupConnection con (left con ch m ps); Some (None, ps) }"
      using m yes True by (simp add: Unsubscribe_def left_def Let_def)
    ultimately show ?thesis
      using none by (intro that[of "retire con a (left con ch m ps)"]) (auto simp: lists_retire l)
  next
    case False
    have "ps_ok (left con ch m ps)"
      by (rule ps_okI)
        (use a m gm vals False ps_okD[OF ok] in \<open>auto simp: l sets_ok_def gget_gdel gmap_ok_gdel split: if_splits\<close>)
    moreover have "Unsubscribe con ch ps = Some (None, left con ch m ps)"
      using m yes False by (simp add: Unsubscribe_def left_def Let_def)
    ultimately show ?thesis by (intro that[of "left con ch m ps"]) (auto simp: l)
  qed
qed

lemma Unsubscribe_ok:
  assumes ok: "ps_ok ps"
  obtains ps' where
    "Unsubscribe con ch ps = Some (if lists ps con ch then None
       else Some (if gget (subscriptions ps) con = None then Err ''connection not subscribed to any channels''
                  else Err (''connection not subscribed to channel: '' @ ch)), ps')" "ps_ok ps'"
    "\<And>con' ch'. lists ps' con' ch' \<longleftrightarrow> lists ps con' ch' \<and> \<not> (con' = con \<and> ch' = ch)"
proof (cases "lists ps con ch")
  case True
  then obtain m where m: "gget (subscriptions ps) con = Some m" by (auto simp: lists_def split: option.splits)
  show ?thesis by (rule Unsubscribe_listed[OF ok m True]) (rule that, simp_all add: True)
next
  case False
  then have "Unsubscribe con ch ps = Some (Some (if gget (subscriptions ps) con = None
      then Err ''connection not subscribed to any channels''
      else Err (''connection not subscribed to channel: '' @ ch)), ps)"
    by (auto simp: Unsubscribe_def lists_def split: option.splits)
  with False ok show ?thesis by (intro that[of ps]) auto
qed

section \<open>Publication\<close>

text \<open>The queue of a subscriber after a message was offered to it.\<close>

definition offered :: "Message \<Rightarrow> Subscriber \<Rightarrow> Subscriber" where
  "offered msg s = (if length (messages s) < 100 then s\<lparr>messages := messages s @ [msg]\<rparr> else s)"

definition accepts :: "PubSub \<Rightarrow> nat \<Rightarrow> bool" where
  "accepts ps a \<longleftrightarrow> (case heap ps a of None \<Rightarrow> False | Some s \<Rightarrow> length (messages s) < 100)"

lemma publish_loop:
  assumes "\<forall>(con, a) \<in> set ord. live_sub ps con a" and "distinct (map snd ord)"
  shows "foreach (publish_one msg) ord (n, ps) =
    Some (n + int (length (filter (\<lambda>x. accepts ps (snd x)) ord)),
          ps\<lparr>heap := \<lambda>a. if a \<in> snd ` set ord then map_option (offered msg) (heap ps a) else heap ps a\<rparr>)"
  using assms
proof (induction ord arbitrary: n ps)
  case (Cons x ord)
  obtain con a where x: "x = (con, a)" by (cases x)
  obtain s where s: "heap ps a = Some s" "\<not> messages_closed s"
    using Cons.prems by (auto simp: x live_sub_def)
  let ?ps = "set_sub a (offered msg s) ps"
  have nin: "a \<notin> snd ` set ord" using Cons.prems by (auto simp: x)
  have step: "publish_one msg x (n, ps) = Some (n + (if accepts ps a then 1 else 0), ?ps)"
    using s by (auto simp: x publish_one_def accepts_def offered_def set_sub_def fun_upd_idem)
  have live: "\<forall>(con', a') \<in> set ord. live_sub ?ps con' a'"
    using Cons.prems nin by (force simp: live_sub_def set_sub_def)
  have acc: "filter (\<lambda>x. accepts ?ps (snd x)) ord = filter (\<lambda>x. accepts ps (snd x)) ord"
    using nin by (intro filter_cong) (auto simp: accepts_def set_sub_def image_iff)
  have heap: "(\<lambda>a'. if a' \<in> snd ` set ord then map_option (offered msg) (heap ?ps a') else heap ?ps a') =
      (\<lambda>a'. if a' \<in> snd ` set (x # ord) then map_option (offered msg) (heap ps a') else heap ps a')"
    using nin s by (auto simp: x set_sub_def fun_eq_iff)
  have "foreach (publish_one msg) ord (n + (if accepts ps a then 1 else 0), ?ps) =
      Some (n + (if accepts ps a then 1 else 0) + int (length (filter (\<lambda>x. accepts ps (snd x)) ord)),
        ?ps\<lparr>heap := \<lambda>a'. if a' \<in> snd ` set (x # ord) then map_option (offered msg) (heap ps a') else heap ps a'\<rparr>)"
    using Cons.IH[OF live, of "n + (if accepts ps a then 1 else 0)"] Cons.prems(2) unfolding acc heap by simp
  with step show ?case by (simp add: x set_sub_def)
qed simp

lemma ps_ok_heap:
  assumes ok: "ps_ok ps" and "subscribers ps' = subscribers ps" "subscriptions ps' = subscriptions ps"
    "connectionToSubscriber ps' = connectionToSubscriber ps" "fresh ps' = fresh ps"
    and "\<And>con a. live_sub ps con a \<Longrightarrow> live_sub ps' con a" and "\<And>a. heap ps' a \<noteq> None \<Longrightarrow> heap ps a \<noteq> None"
  shows "ps_ok ps'"
  by (rule ps_okI) (use assms ps_okD[OF ok] in \<open>simp_all add: sub_at_def lists_def\<close>)

lemma sub_ids_distinct:
  assumes ok: "ps_ok ps" and m: "gget (subscribers ps) ch = Some m" and ord: "is_range ord m"
  shows "\<forall>(con, a) \<in> set ord. live_sub ps con a" and "distinct (map snd ord)"
proof -
  have at: "gget (connectionToSubscriber ps) con = Some a" if "(con, a) \<in> set ord" for con a
    using is_range_get[OF ord] that m ps_okD(4)[OF ok, of ch con] by (auto simp: sub_at_def split: if_splits)
  then show live: "\<forall>(con, a) \<in> set ord. live_sub ps con a" using ps_okD(5)[OF ok] by auto
  have "distinct ord" using ord by (simp add: is_range_def gmap_ok_def distinct_map)
  moreover have "inj_on snd (set ord)"
  proof (rule inj_onI)
    fix x y
    assume xy: "x \<in> set ord" "y \<in> set ord" "snd x = snd y"
    then have "live_sub ps (fst x) (snd x)" "live_sub ps (fst y) (snd x)"
      using live by (auto simp: case_prod_beta)
    then have "fst x = fst y" by (auto simp: live_sub_def)
    with xy(3) show "x = y" by (simp add: prod_eq_iff)
  qed
  ultimately show "distinct (map snd ord)" by (simp add: distinct_map)
qed

lemma Publish_ok:
  assumes ok: "ps_ok ps" and ord: "\<And>m. gget (subscribers ps) ch = Some m \<Longrightarrow> is_range ord m"
  shows "Publish ord ch msg ps =
    (let takers = (case gget (subscribers ps) ch of None \<Rightarrow> [] | Some m \<Rightarrow> ord)
     in Some (int (length (filter (\<lambda>x. accepts ps (snd x)) takers)),
              ps\<lparr>heap := \<lambda>a. if a \<in> snd ` set takers
                then map_option (offered \<lparr>Channel = ch, Content = msg\<rparr>) (heap ps a) else heap ps a\<rparr>))"
proof (cases "gget (subscribers ps) ch")
  case (Some m)
  then have "m \<noteq> []" using ps_okD(1)[OF ok] by (auto simp: channels_ok_def)
  with Some publish_loop[OF sub_ids_distinct[OF ok Some ord[OF Some]]] show ?thesis
    by (simp add: Publish_def)
qed (simp add: Publish_def)

lemma live_sub_offered:
  assumes "live_sub ps con a"
  shows "live_sub (ps\<lparr>heap := \<lambda>a. if a \<in> A then map_option (offered msg) (heap ps a) else heap ps a\<rparr>) con a"
proof -
  obtain s where "heap ps a = Some s" "sub_conn s = con" "\<not> messages_closed s" "\<not> done_closed s"
    "length (messages s) \<le> 100" using assms by (auto simp: live_sub_def)
  then show ?thesis
    unfolding live_sub_def by (intro exI[of _ "if a \<in> A then offered msg s else s"]) (auto simp: offered_def)
qed

lemma ps_ok_Publish:
  assumes ok: "ps_ok ps" and ord: "\<And>m. gget (subscribers ps) ch = Some m \<Longrightarrow> is_range ord m"
  shows "\<exists>n ps'. Publish ord ch msg ps = Some (n, ps') \<and> ps_ok ps' \<and> (\<forall>con ch'. lists ps' con ch' = lists ps con ch')"
proof -
  let ?takers = "case gget (subscribers ps) ch of None \<Rightarrow> [] | Some m \<Rightarrow> ord"
  let ?ps = "ps\<lparr>heap := \<lambda>a. if a \<in> snd ` set ?takers
    then map_option (offered \<lparr>Channel = ch, Content = msg\<rparr>) (heap ps a) else heap ps a\<rparr>"
  have "ps_ok ?ps"
    by (rule ps_ok_heap[OF ok]) (simp_all add: live_sub_offered split: if_splits)
  moreover have "lists ?ps con ch' = lists ps con ch'" for con ch' by (simp add: lists_def)
  moreover have "\<exists>n. Publish ord ch msg ps = Some (n, ?ps)"
    using Publish_ok[of ps ch ord msg, OF ok ord] unfolding Let_def by blast
  ultimately show ?thesis by blast
qed

lemma ps_ok_sendMessages:
  assumes ok: "ps_ok ps" and run: "sendMessages sel w a ps = Some ps'"
  shows "ps_ok ps' \<and> (\<forall>con ch. lists ps' con ch = lists ps con ch)"
proof -
  have "\<exists>s s'. heap ps a = Some s \<and> heap ps' a = Some s' \<and> heap ps' = (heap ps)(a := heap ps' a) \<and>
      sub_conn s' = sub_conn s \<and> messages_closed s' = messages_closed s \<and> done_closed s' = done_closed s \<and>
      length (messages s') \<le> length (messages s) \<and> subscribers ps' = subscribers ps \<and> fresh ps' = fresh ps \<and>
      subscriptions ps' = subscriptions ps \<and> connectionToSubscriber ps' = connectionToSubscriber ps"
    using run
    by (auto simp: sendMessages_def set_sub_def split: Option.bind_splits if_splits select_case.splits list.splits)
  then obtain s s' where h: "heap ps a = Some s" "heap ps' a = Some s'" "heap ps' = (heap ps)(a := heap ps' a)"
    "sub_conn s' = sub_conn s" "messages_closed s' = messages_closed s" "done_closed s' = done_closed s"
    "length (messages s') \<le> length (messages s)" "subscribers ps' = subscribers ps" "fresh ps' = fresh ps"
    "subscriptions ps' = subscriptions ps" "connectionToSubscriber ps' = connectionToSubscriber ps"
    by (elim exE conjE) (rule that)
  have "live_sub ps' con b" if "live_sub ps con b" for con b
    using that h by (cases "b = a") (auto simp: live_sub_def fun_eq_iff split: if_splits)
  moreover have "heap ps b \<noteq> None" if "heap ps' b \<noteq> None" for b
    using that h(1) fun_cong[OF h(3), of b] by (auto split: if_splits)
  ultimately have "ps_ok ps'" using h by (intro ps_ok_heap[OF ok]) auto
  with h show ?thesis by (simp add: lists_def)
qed

section \<open>Delivery\<close>

lemma EncodePubSubMessage_total:
  "\<exists>e. EncodePubSubMessage ch msg = Some e"
  by (simp add: EncodePubSubMessage_def EncodeArray_def)

definition encoded :: "Message \<Rightarrow> string" where
  "encoded m = the (EncodePubSubMessage (Channel m) (Content m))"

lemma send_one:
  assumes "heap ps a = Some s" "sending s" "messages s = m # ms"
  shows "sendMessages ReceiveMessage True a ps =
    Some ((set_sub a (s\<lparr>messages := ms\<rparr>) ps)\<lparr>wire := (wire ps)(sub_conn s := wire ps (sub_conn s) @ encoded m)\<rparr>)"
  using assms EncodePubSubMessage_total[of "Channel m" "Content m"] by (auto simp: sendMessages_def encoded_def)

lemma send_all:
  assumes "heap ps a = Some s" "sending s"
  shows "\<exists>ps'. foreach (\<lambda>_. sendMessages ReceiveMessage True a) (messages s) ps = Some ps' \<and>
    heap ps' a = Some (s\<lparr>messages := []\<rparr>) \<and>
    wire ps' = (wire ps)(sub_conn s := wire ps (sub_conn s) @ concat (map encoded (messages s)))"
  using assms
proof (induction "messages s" arbitrary: s ps)
  case Nil
  then have "s\<lparr>messages := []\<rparr> = s" by (metis Subscriber.surjective Subscriber.update_convs(2))
  with Nil show ?case by (simp flip: Nil.hyps)
next
  case (Cons m ms)
  let ?s = "s\<lparr>messages := ms\<rparr>"
  let ?ps = "(set_sub a ?s ps)\<lparr>wire := (wire ps)(sub_conn s := wire ps (sub_conn s) @ encoded m)\<rparr>"
  have step: "sendMessages ReceiveMessage True a ps = Some ?ps"
    using send_one Cons by metis
  have "heap ?ps a = Some ?s" by (simp add: set_sub_def)
  with Cons(1)[of ?s ?ps] Cons.prems(2) obtain ps' where
    "foreach (\<lambda>_. sendMessages ReceiveMessage True a) ms ?ps = Some ps'" "heap ps' a = Some (s\<lparr>messages := []\<rparr>)"
    "wire ps' = (wire ?ps)(sub_conn s := wire ?ps (sub_conn s) @ concat (map encoded ms))"
    by auto
  with step show ?case by (auto simp flip: Cons.hyps(2))
qed

section \<open>What publish/subscribe promises\<close>

text \<open>
  The steps of the server: calls of the operations in any order, interleaved with the senders.
\<close>

inductive ps_step :: "PubSub \<Rightarrow> PubSub \<Rightarrow> bool" where
  subscribe: "Subscribe con ch ps = Some ps' \<Longrightarrow> ps_step ps ps'"
| unsubscribe: "Unsubscribe con ch ps = Some (e, ps') \<Longrightarrow> ps_step ps ps'"
| remove: "(\<forall>m. gget (subscriptions ps) con = Some m \<longrightarrow> is_range ord m) \<Longrightarrow>
    RemoveConnection ord con ps = Some ps' \<Longrightarrow> ps_step ps ps'"
| publish: "(\<forall>m. gget (subscribers ps) ch = Some m \<longrightarrow> is_range ord m) \<Longrightarrow>
    Publish ord ch msg ps = Some (n, ps') \<Longrightarrow> ps_step ps ps'"
| send: "sendMessages sel w a ps = Some ps' \<Longrightarrow> ps_step ps ps'"

inductive_cases ps_stepE: "ps_step ps ps'"

lemma ps_step_ok:
  assumes "ps_step ps ps'" and ok: "ps_ok ps"
  shows "ps_ok ps'"
  using assms(1)
proof cases
  case (subscribe con ch)
  then show ?thesis using Subscribe_ok[OF ok, of con ch] by (metis option.inject)
next
  case (unsubscribe con ch e)
  then show ?thesis using Unsubscribe_ok[OF ok, of con ch] by (metis option.inject prod.inject)
next
  case (remove con ord)
  then show ?thesis using RemoveConnection_ok[OF ok, of con ord] by (metis option.inject)
next
  case (publish ch ord msg n)
  then show ?thesis using ps_ok_Publish[OF ok, of ch ord msg] by auto
next
  case (send sel w a)
  then show ?thesis using ps_ok_sendMessages[OF ok] by blast
qed

lemma ps_reachable_ok: "ps_step\<^sup>*\<^sup>* NewPubSub ps \<Longrightarrow> ps_ok ps"
  by (induction rule: rtranclp_induct) (use ps_ok_New ps_step_ok in auto)

text \<open>
  C26: In every state the server can reach, whatever the interleaving with the senders, no
  operation panics: no message is sent on a closed channel, no channel is closed twice and no nil
  map is written, whatever order the loops over maps take.
\<close>

theorem pubsub_never_panics:
  assumes "ps_step\<^sup>*\<^sup>* NewPubSub ps"
  shows "Subscribe con ch ps \<noteq> None \<and> Unsubscribe con ch ps \<noteq> None \<and>
    ((\<forall>m. gget (subscriptions ps) con = Some m \<longrightarrow> is_range ord m) \<longrightarrow> RemoveConnection ord con ps \<noteq> None) \<and>
    ((\<forall>m. gget (subscribers ps) ch = Some m \<longrightarrow> is_range ord' m) \<longrightarrow> Publish ord' ch msg ps \<noteq> None)"
proof -
  have ok: "ps_ok ps" using assms by (rule ps_reachable_ok)
  have "Subscribe con ch ps \<noteq> None" by (rule Subscribe_ok[OF ok, of con ch]) simp
  moreover have "Unsubscribe con ch ps \<noteq> None" by (rule Unsubscribe_ok[OF ok, of con ch]) simp
  moreover have "RemoveConnection ord con ps \<noteq> None" if "\<forall>m. gget (subscriptions ps) con = Some m \<longrightarrow> is_range ord m"
    by (rule RemoveConnection_ok[OF ok, of con ord]) (use that in auto)
  moreover have "Publish ord' ch msg ps \<noteq> None" if "\<forall>m. gget (subscribers ps) ch = Some m \<longrightarrow> is_range ord' m"
    using ps_ok_Publish[OF ok, of ch ord' msg] that by auto
  ultimately show ?thesis by blast
qed

lemma reach_subscribed:
  "ps_step\<^sup>*\<^sup>* NewPubSub (the (Subscribe 7 ''news'' NewPubSub))"
  by (rule r_into_rtranclp, rule subscribe[of 7 "''news''"]) (simp add: Subscribe_def NewPubSub_def Let_def set_sub_def)

theorem pubsub_never_panics_witness:
  "RemoveConnection [(''news'', True)] 7 (the (Subscribe 7 ''news'' NewPubSub)) \<noteq> None"
  using pubsub_never_panics[OF reach_subscribed, of 7 "''news''" "[(''news'', True)]"]
  by (simp add: Subscribe_def NewPubSub_def Let_def set_sub_def)



text \<open>
  C28: A publication reaches exactly the subscribers of the channel: the message is appended once
  to the queue of each connection that is subscribed and whose buffer of 100 has room, every other
  queue stays as it is, and the result is the number of queues that took the message.
\<close>

theorem publish_delivers:
  assumes "ps_step\<^sup>*\<^sup>* NewPubSub ps" and "\<forall>m. gget (subscribers ps) ch = Some m \<longrightarrow> is_range ord m"
  shows "\<exists>ps'. Publish ord ch msg ps =
      Some (int (card {con. lists ps con ch \<and> accepts ps (the (gget (connectionToSubscriber ps) con))}), ps') \<and>
    (\<forall>con a s. gget (connectionToSubscriber ps) con = Some a \<longrightarrow> heap ps a = Some s \<longrightarrow>
      heap ps' a = Some (if lists ps con ch \<and> length (messages s) < 100
        then s\<lparr>messages := messages s @ [\<lparr>Channel = ch, Content = msg\<rparr>]\<rparr> else s))"
proof -
  have ok: "ps_ok ps" using assms(1) by (rule ps_reachable_ok)
  define takers where "takers = (case gget (subscribers ps) ch of None \<Rightarrow> [] | Some m \<Rightarrow> ord)"
  define ps' where "ps' = ps\<lparr>heap := \<lambda>a. if a \<in> snd ` set takers
    then map_option (offered \<lparr>Channel = ch, Content = msg\<rparr>) (heap ps a) else heap ps a\<rparr>"
  have pub: "Publish ord ch msg ps = Some (int (length (filter (\<lambda>x. accepts ps (snd x)) takers)), ps')"
    unfolding ps'_def takers_def using Publish_ok[of ps ch ord msg, OF ok] assms(2) by (simp only: Let_def)
  have range: "(con, a) \<in> set takers \<longleftrightarrow> lists ps con ch \<and> gget (connectionToSubscriber ps) con = Some a" for con a
  proof -
    have "(con, a) \<in> set takers \<longleftrightarrow> sub_at ps ch con = Some a"
      using is_range_get[of ord _ con a] assms(2) by (simp add: takers_def sub_at_def split: option.splits)
    then show ?thesis by (simp only: sub_at_iff[OF ok])
  qed
  have "distinct (map fst takers)"
    using assms(2) by (auto simp: takers_def is_range_def gmap_ok_def split: option.splits)
  then have "length (filter (\<lambda>x. accepts ps (snd x)) takers) = card (fst ` set (filter (\<lambda>x. accepts ps (snd x)) takers))"
    by (metis distinct_card distinct_map_filter length_map list.set_map)
  moreover have "fst ` set (filter (\<lambda>x. accepts ps (snd x)) takers) =
      {con. lists ps con ch \<and> accepts ps (the (gget (connectionToSubscriber ps) con))}" (is "?L = ?R")
  proof (intro set_eqI iffI)
    fix con
    assume "con \<in> ?R"
    moreover from this obtain a where "gget (connectionToSubscriber ps) con = Some a" using lists_subscriber[OF ok] by blast
    ultimately have "(con, a) \<in> set (filter (\<lambda>x. accepts ps (snd x)) takers)" by (simp add: range)
    then show "con \<in> ?L" by (metis fst_conv image_eqI)
  qed (use range in auto)
  moreover have taken: "a \<in> snd ` set takers \<longleftrightarrow> lists ps con ch" if a: "gget (connectionToSubscriber ps) con = Some a" for con a
  proof
    assume "a \<in> snd ` set takers"
    then obtain con' where c: "lists ps con' ch" "gget (connectionToSubscriber ps) con' = Some a" using range by auto
    then show "lists ps con ch" using ps_okD(5)[OF ok a] ps_okD(5)[OF ok c(2)] by (auto simp: live_sub_def)
  next
    assume "lists ps con ch"
    then have "(con, a) \<in> set takers" using range a by simp
    then show "a \<in> snd ` set takers" by (metis image_eqI snd_conv)
  qed
  moreover have "heap ps' a = Some (if lists ps con ch \<and> length (messages s) < 100
      then s\<lparr>messages := messages s @ [\<lparr>Channel = ch, Content = msg\<rparr>]\<rparr> else s)"
    if "gget (connectionToSubscriber ps) con = Some a" "heap ps a = Some s" for con a s
    using taken[OF that(1)] that(2) by (simp add: ps'_def offered_def)
  ultimately show ?thesis using pub by auto
qed

theorem publish_delivers_witness:
  "\<exists>ps'. Publish [(7, 0)] ''news'' ''hi'' (the (Subscribe 7 ''news'' NewPubSub)) = Some (1, ps') \<and>
    map_option messages (heap ps' 0) = Some [\<lparr>Channel = ''news'', Content = ''hi''\<rparr>]"
proof -
  have "{con::nat. con = 7} = {7}" by auto
  then show ?thesis
    using publish_delivers[OF reach_subscribed, of "''news''" "[(7, 0)]" "''hi''"]
    by (auto simp: Subscribe_def NewPubSub_def Let_def set_sub_def lists_def accepts_def is_range_def
        split: if_splits cong: conj_cong)
qed

text \<open>
  The sender of a subscriber writes the queued messages in the order of publication, each
  once: when its writes succeed, as many rounds as there are messages empty the queue and append
  exactly their encodings to what the connection receives, and no other connection receives
  anything.
\<close>

lemma messages_sent_in_order:
  assumes "heap ps a = Some s" and "sending s"
  shows "\<exists>ps'. foreach (\<lambda>_. sendMessages ReceiveMessage True a) (messages s) ps = Some ps' \<and>
    heap ps' a = Some (s\<lparr>messages := []\<rparr>) \<and>
    wire ps' = (wire ps)(sub_conn s := wire ps (sub_conn s) @ concat (map encoded (messages s)))"
  using assms by (rule send_all)

lemma messages_sent_in_order_witness:
  "\<exists>ps'. foreach (\<lambda>_. sendMessages ReceiveMessage True 0) [\<lparr>Channel = ''c'', Content = ''x''\<rparr>]
     (NewPubSub\<lparr>heap := (\<lambda>_. Some \<lparr>sub_conn = 7, messages = [\<lparr>Channel = ''c'', Content = ''x''\<rparr>],
        messages_closed = False, done_closed = False, sending = True\<rparr>)\<rparr>) = Some ps' \<and>
     wire ps' 7 = encoded \<lparr>Channel = ''c'', Content = ''x''\<rparr>"
  using messages_sent_in_order[of "NewPubSub\<lparr>heap := (\<lambda>_. Some \<lparr>sub_conn = 7, messages = [\<lparr>Channel = ''c'', Content = ''x''\<rparr>],
        messages_closed = False, done_closed = False, sending = True\<rparr>)\<rparr>" 0
      "\<lparr>sub_conn = 7, messages = [\<lparr>Channel = ''c'', Content = ''x''\<rparr>], messages_closed = False, done_closed = False, sending = True\<rparr>"]
  by (auto simp: NewPubSub_def)

end
