(* ===== verification/Health.thy ===== *)
theory Health
  imports Hash_Ring Resp
begin

text \<open>
  The failure detector of \<open>internal/cluster/health.go\<close>. The network is the parameter \<open>net\<close>: what a
  node answers to a ping, or that it cannot be reached. A callback that is started in its own
  goroutine is a value in the list of events; the server decides what it does.

  The theory shows that a node is declared dead exactly after the threshold of failed checks in a
  row, that the two callbacks alternate, and that a node that answers is alive again after one
  check.
\<close>

section \<open>State\<close>

datatype NodeStatus = NodeStatusAlive | NodeStatusSuspected | NodeStatusDead

fun status_String :: "NodeStatus \<Rightarrow> string" where
  "status_String NodeStatusAlive = ''alive''"
| "status_String NodeStatusSuspected = ''suspected''"
| "status_String NodeStatusDead = ''dead''"

record NodeHealth =
  h_NodeID :: string
  h_Address :: string
  h_Status :: NodeStatus
  h_LastSuccessfulPing :: time
  h_LastFailedPing :: time
  h_ConsecutiveFailures :: int
  h_ConsecutiveSuccesses :: int

datatype health_event = NodeFailed string | NodeRecovered string

text \<open>\<open>callbacks\<close>: both callbacks are set.\<close>

record HealthChecker =
  nodeHealth :: "(string, NodeHealth) gomap"
  checkInterval :: duration
  failureThreshold :: int
  timeout :: duration
  callbacks :: bool
  events :: "health_event list"
  stopCh_closed :: bool

definition NewHealthChecker :: "duration \<Rightarrow> int \<Rightarrow> duration \<Rightarrow> HealthChecker" where
  "NewHealthChecker interval threshold tmo =
     \<lparr>nodeHealth = [], checkInterval = interval, failureThreshold = threshold, timeout = tmo,
      callbacks = False, events = [], stopCh_closed = False\<rparr>"

definition SetCallbacks :: "HealthChecker \<Rightarrow> HealthChecker" where
  "SetCallbacks hc = hc\<lparr>callbacks := True\<rparr>"

definition RegisterNode :: "time \<Rightarrow> string \<Rightarrow> string \<Rightarrow> HealthChecker \<Rightarrow> HealthChecker" where
  "RegisterNode now nodeID address hc =
     (case gget (nodeHealth hc) nodeID of
        Some _ \<Rightarrow> hc
      | None \<Rightarrow> hc\<lparr>nodeHealth := gset nodeID
          \<lparr>h_NodeID = nodeID, h_Address = address, h_Status = NodeStatusAlive, h_LastSuccessfulPing = now,
           h_LastFailedPing = 0, h_ConsecutiveFailures = 0, h_ConsecutiveSuccesses = 1\<rparr> (nodeHealth hc)\<rparr>)"

definition UnregisterNode :: "string \<Rightarrow> HealthChecker \<Rightarrow> HealthChecker" where
  "UnregisterNode nodeID hc = hc\<lparr>nodeHealth := gdel nodeID (nodeHealth hc)\<rparr>"

text \<open>Closing the channel \<open>stopCh\<close> a second time is a panic.\<close>

definition health_Stop :: "HealthChecker \<Rightarrow> HealthChecker option" where
  "health_Stop hc = (if stopCh_closed hc then None else Some (hc\<lparr>stopCh_closed := True\<rparr>))"

section \<open>Checking\<close>

text \<open>
  The answer of a node within the time limit: the connection fails, or the bytes that arrive. A
  panic of the parser ends the goroutine and with it the process.
\<close>

definition pingNode :: "(string \<Rightarrow> string option) \<Rightarrow> string \<Rightarrow> gerror option option" where
  "pingNode net address =
     (case net address of
        None \<Rightarrow> Some (Some (Err ''connection failed''))
      | Some bytes \<Rightarrow>
          (case Parse bytes of
             None \<Rightarrow> None
           | Some (Inl err, _) \<Rightarrow> Some (Some (Err ''read failed''))
           | Some (Inr (Str s), _) \<Rightarrow>
               Some (if s = ''PONG'' then None else Some (Err (''unexpected response: '' @ s)))
           | Some (Inr _, _) \<Rightarrow> Some (Some (Err ''invalid response type''))))"

definition emit :: "health_event \<Rightarrow> HealthChecker \<Rightarrow> HealthChecker" where
  "emit e hc = (if callbacks hc then hc\<lparr>events := events hc @ [e]\<rparr> else hc)"

text \<open>
  \<open>checkNode\<close> for the result of the ping. The entry is updated through the pointer taken before the
  ping; it is still the entry of the map unless the node was unregistered in between.
\<close>

definition check_failed :: "int \<Rightarrow> time \<Rightarrow> NodeHealth \<Rightarrow> NodeHealth" where
  "check_failed threshold now node =
     (let failures = i64 (h_ConsecutiveFailures node + 1);
          node = node\<lparr>h_ConsecutiveFailures := failures, h_ConsecutiveSuccesses := 0, h_LastFailedPing := now\<rparr>
      in if failures \<ge> threshold then node\<lparr>h_Status := NodeStatusDead\<rparr>
         else if failures > 0 then node\<lparr>h_Status := NodeStatusSuspected\<rparr>
         else node)"

definition check_succeeded :: "time \<Rightarrow> NodeHealth \<Rightarrow> NodeHealth" where
  "check_succeeded now node =
     node\<lparr>h_ConsecutiveSuccesses := i64 (h_ConsecutiveSuccesses node + 1), h_ConsecutiveFailures := 0,
          h_LastSuccessfulPing := now, h_Status := NodeStatusAlive\<rparr>"

definition put_node :: "string \<Rightarrow> NodeHealth \<Rightarrow> HealthChecker \<Rightarrow> HealthChecker" where
  "put_node k node hc =
     (if gget (nodeHealth hc) k = None then hc else hc\<lparr>nodeHealth := gset k node (nodeHealth hc)\<rparr>)"

definition checkNode ::
    "(string \<Rightarrow> string option) \<Rightarrow> time \<Rightarrow> string \<times> NodeHealth \<Rightarrow> HealthChecker \<Rightarrow> HealthChecker option" where
  "checkNode net now = (\<lambda>(k, node) hc. do {
     err \<leftarrow> pingNode net (h_Address node);
     let previousStatus = h_Status node;
     Some (case err of
        Some _ \<Rightarrow>
          let node = check_failed (failureThreshold hc) now node;
              hc = put_node k node hc
          in if previousStatus \<noteq> NodeStatusDead \<and> h_Status node = NodeStatusDead
             then emit (NodeFailed (h_NodeID node)) hc else hc
      | None \<Rightarrow>
          let node = check_succeeded now node;
              hc = put_node k node hc
          in if previousStatus = NodeStatusDead then emit (NodeRecovered (h_NodeID node)) hc else hc)
   })"

definition checkAllNodes ::
    "(string, NodeHealth) gomap \<Rightarrow> (string \<Rightarrow> string option) \<Rightarrow> time \<Rightarrow> HealthChecker \<Rightarrow> HealthChecker option" where
  "checkAllNodes ord net now hc = foreach (checkNode net now) ord hc"

text \<open>One turn of the loop; the second component says whether the loop goes on.\<close>

definition healthCheckLoop ::
    "((string, NodeHealth) gomap \<Rightarrow> (string, NodeHealth) gomap) \<Rightarrow> (string \<Rightarrow> string option) \<Rightarrow> time \<Rightarrow> HealthChecker \<Rightarrow>
     (HealthChecker \<times> bool) option" where
  "healthCheckLoop pick net now hc =
     (if stopCh_closed hc then Some (hc, False)
      else do { hc \<leftarrow> checkAllNodes (pick (nodeHealth hc)) net now hc; Some (hc, True) })"

section \<open>Queries\<close>

definition IsNodeHealthy :: "HealthChecker \<Rightarrow> string \<Rightarrow> bool" where
  "IsNodeHealthy hc nodeID =
     (case gget (nodeHealth hc) nodeID of None \<Rightarrow> False | Some h \<Rightarrow> h_Status h = NodeStatusAlive)"

definition GetHealthyNodes :: "(string, NodeHealth) gomap \<Rightarrow> string list" where
  "GetHealthyNodes ord =
     fold (\<lambda>(nodeID, h) healthy. if h_Status h = NodeStatusAlive then healthy @ [nodeID] else healthy) ord []"

definition GetNodeStatus :: "HealthChecker \<Rightarrow> string \<Rightarrow> NodeStatus" where
  "GetNodeStatus hc nodeID =
     (case gget (nodeHealth hc) nodeID of None \<Rightarrow> NodeStatusDead | Some h \<Rightarrow> h_Status h)"

definition GetAllNodeStatus :: "(string, NodeHealth) gomap \<Rightarrow> (string, NodeHealth) gomap" where
  "GetAllNodeStatus ord = fold (\<lambda>(nodeID, h) statusCopy. gset nodeID h statusCopy) ord []"

section \<open>Histories\<close>

text \<open>
  The specification of the detector for one node, given the outcomes of its checks: the status
  depends on the failures since the last success, and the callbacks are called where the count
  reaches the threshold and at the first success behind it.
\<close>

definition status_of :: "int \<Rightarrow> int \<Rightarrow> NodeStatus" where
  "status_of threshold f =
     (if f = 0 then NodeStatusAlive else if f \<ge> threshold then NodeStatusDead else NodeStatusSuspected)"

fun failures :: "int \<Rightarrow> bool list \<Rightarrow> int" where
  "failures f [] = f"
| "failures f (ok # oks) = failures (if ok then 0 else f + 1) oks"

fun calls :: "int \<Rightarrow> string \<Rightarrow> int \<Rightarrow> bool list \<Rightarrow> health_event list" where
  "calls threshold k f [] = []"
| "calls threshold k f (True # oks) = (if f \<ge> threshold then [NodeRecovered k] else []) @ calls threshold k 0 oks"
| "calls threshold k f (False # oks) =
     (if f < threshold \<and> f + 1 \<ge> threshold then [NodeFailed k] else []) @ calls threshold k (f + 1) oks"

definition ping_ok :: "(string \<Rightarrow> string option) \<Rightarrow> string \<Rightarrow> bool" where
  "ping_ok net address \<longleftrightarrow> pingNode net address = Some None"

fun about :: "string \<Rightarrow> health_event \<Rightarrow> bool" where
  "about k (NodeFailed x) = (x = k)"
| "about k (NodeRecovered x) = (x = k)"

definition ids_ok :: "HealthChecker \<Rightarrow> bool" where
  "ids_ok hc \<longleftrightarrow> gmap_ok (nodeHealth hc) \<and> (\<forall>k n. gget (nodeHealth hc) k = Some n \<longrightarrow> h_NodeID n = k)"

definition checked :: "int \<Rightarrow> time \<Rightarrow> bool \<Rightarrow> NodeHealth \<Rightarrow> NodeHealth" where
  "checked threshold now ok n = (if ok then check_succeeded now n else check_failed threshold now n)"

definition called :: "int \<Rightarrow> bool \<Rightarrow> NodeHealth \<Rightarrow> NodeHealth \<Rightarrow> health_event list" where
  "called threshold ok n n' =
     (if ok then if h_Status n = NodeStatusDead then [NodeRecovered (h_NodeID n)] else []
      else if h_Status n \<noteq> NodeStatusDead \<and> h_Status n' = NodeStatusDead then [NodeFailed (h_NodeID n)] else [])"

lemma h_NodeID_checked [simp]: "h_NodeID (checked th now ok n) = h_NodeID n" "h_Address (checked th now ok n) = h_Address n"
  by (simp_all add: checked_def check_succeeded_def check_failed_def Let_def)

lemma checkNode_eq:
  assumes "checkNode net now (k, n) hc = Some hc'" and "gget (nodeHealth hc) k = Some n" and "callbacks hc"
  shows "hc' = hc\<lparr>nodeHealth := gset k (checked (failureThreshold hc) now (ping_ok net (h_Address n)) n) (nodeHealth hc),
    events := events hc @ called (failureThreshold hc) (ping_ok net (h_Address n)) n
      (checked (failureThreshold hc) now (ping_ok net (h_Address n)) n)\<rparr>"
proof -
  obtain err where err: "pingNode net (h_Address n) = Some err"
    using assms(1) by (auto simp: checkNode_def split: Option.bind_splits)
  have "h_NodeID (check_failed th now n) = h_NodeID n" "h_NodeID (check_succeeded now n) = h_NodeID n" for th
    by (simp_all add: check_failed_def check_succeeded_def Let_def)
  with assms err show ?thesis
    by (cases err) (auto simp: checkNode_def ping_ok_def checked_def called_def put_node_def emit_def Let_def)
qed

text \<open>What a round does to one node, and that it leaves the others alone.\<close>

lemma round_frame:
  assumes "foreach (checkNode net now) ord hc = Some hc'" and "callbacks hc" and "ids_ok hc"
    and "gmap_ok ord" and "\<forall>(k, n) \<in> set ord. gget (nodeHealth hc) k = Some n"
  shows "ids_ok hc' \<and> callbacks hc' \<and> failureThreshold hc' = failureThreshold hc \<and>
    (\<forall>k. map_of ord k = None \<longrightarrow> gget (nodeHealth hc') k = gget (nodeHealth hc) k \<and>
         filter (about k) (events hc') = filter (about k) (events hc)) \<and>
    (\<forall>k n. map_of ord k = Some n \<longrightarrow>
       gget (nodeHealth hc') k = Some (checked (failureThreshold hc) now (ping_ok net (h_Address n)) n) \<and>
       filter (about k) (events hc') = filter (about k) (events hc) @
         called (failureThreshold hc) (ping_ok net (h_Address n)) n
           (checked (failureThreshold hc) now (ping_ok net (h_Address n)) n))"
  using assms
proof (induction ord arbitrary: hc)
  case (Cons x ord)
  obtain k0 n0 where x: "x = (k0, n0)" by (cases x)
  obtain hc1 where hc1: "checkNode net now (k0, n0) hc = Some hc1" "foreach (checkNode net now) ord hc1 = Some hc'"
    using Cons.prems(1) by (auto simp: x split: Option.bind_splits)
  have n0: "gget (nodeHealth hc) k0 = Some n0" using Cons.prems(5) by (simp add: x)
  have nk: "map_of ord k0 = None" "gmap_ok ord" using Cons.prems(4) by (auto simp: x gmap_ok_def map_of_eq_None_iff)
  have id0: "h_NodeID n0 = k0" using Cons.prems(3) n0 by (simp add: ids_ok_def)
  let ?n1 = "checked (failureThreshold hc) now (ping_ok net (h_Address n0)) n0"
  let ?ev = "called (failureThreshold hc) (ping_ok net (h_Address n0)) n0 ?n1"
  have eq: "hc1 = hc\<lparr>nodeHealth := gset k0 ?n1 (nodeHealth hc), events := events hc @ ?ev\<rparr>"
    using checkNode_eq[OF hc1(1) n0 Cons.prems(2)] .
  have ev: "filter (about k) ?ev = (if k = k0 then ?ev else [])" for k
    by (auto simp: called_def id0)
  have "ids_ok hc1" using Cons.prems(3) id0 by (auto simp: ids_ok_def eq gget_gset gmap_ok_gset)
  moreover have "\<forall>(k, n) \<in> set ord. gget (nodeHealth hc1) k = Some n"
    using Cons.prems(5) nk(1) by (force simp: eq gget_gset map_of_eq_None_iff x)
  moreover have "callbacks hc1" using Cons.prems(2) by (simp add: eq)
  ultimately have IH: "ids_ok hc' \<and> callbacks hc' \<and> failureThreshold hc' = failureThreshold hc1 \<and>
    (\<forall>k. map_of ord k = None \<longrightarrow> gget (nodeHealth hc') k = gget (nodeHealth hc1) k \<and>
         filter (about k) (events hc') = filter (about k) (events hc1)) \<and>
    (\<forall>k n. map_of ord k = Some n \<longrightarrow>
       gget (nodeHealth hc') k = Some (checked (failureThreshold hc1) now (ping_ok net (h_Address n)) n) \<and>
       filter (about k) (events hc') = filter (about k) (events hc1) @
         called (failureThreshold hc1) (ping_ok net (h_Address n)) n
           (checked (failureThreshold hc1) now (ping_ok net (h_Address n)) n))"
    using Cons.IH[OF hc1(2)] nk(2) by blast
  have th: "failureThreshold hc1 = failureThreshold hc"
    "filter (about k) (events hc1) = filter (about k) (events hc) @ (if k = k0 then ?ev else [])"
    "gget (nodeHealth hc1) k = (if k = k0 then Some ?n1 else gget (nodeHealth hc) k)" for k
    by (simp_all add: eq ev gget_gset)
  from IH nk(1) show ?case unfolding th by (simp add: x)
qed simp

definition round_of ::
    "((string, NodeHealth) gomap \<Rightarrow> (string, NodeHealth) gomap) \<times> (string \<Rightarrow> string option) \<times> time \<Rightarrow>
     HealthChecker \<Rightarrow> HealthChecker option" where
  "round_of = (\<lambda>(pick, net, now) hc. checkAllNodes (pick (nodeHealth hc)) net now hc)"

text \<open>The state of an entry after \<open>f\<close> failures in a row.\<close>

definition entry_ok :: "int \<Rightarrow> int \<Rightarrow> NodeHealth \<Rightarrow> bool" where
  "entry_ok threshold f n \<longleftrightarrow> h_ConsecutiveFailures n = f \<and> h_Status n = status_of threshold f \<and> 0 \<le> f"

lemma entry_ok_checked:
  assumes "entry_ok threshold f n" and "0 < threshold" and "f + 1 < 9223372036854775808"
  shows "entry_ok threshold (if ok then 0 else f + 1) (checked threshold now ok n)"
    and "called threshold ok n (checked threshold now ok n) @ calls threshold (h_NodeID n) (if ok then 0 else f + 1) oks =
      calls threshold (h_NodeID n) f (ok # oks)"
proof -
  have "i64 (f + 1) = f + 1" using assms by (intro i64_id) (simp add: in_i64_def entry_ok_def)
  then show "entry_ok threshold (if ok then 0 else f + 1) (checked threshold now ok n)"
    and "called threshold ok n (checked threshold now ok n) @ calls threshold (h_NodeID n) (if ok then 0 else f + 1) oks =
      calls threshold (h_NodeID n) f (ok # oks)"
    using assms
    by (cases ok; auto simp: entry_ok_def checked_def called_def check_succeeded_def check_failed_def status_of_def Let_def)+
qed

lemma rounds_entry:
  assumes "foreach round_of rs hc = Some hc'" and "callbacks hc" and "ids_ok hc" and "0 < failureThreshold hc"
    and "\<forall>(pick, net, now) \<in> set rs. \<forall>m. gmap_ok m \<longrightarrow> is_range (pick m) m"
    and "gget (nodeHealth hc) k = Some n" and "entry_ok (failureThreshold hc) f n"
    and "f + int (length rs) < 9223372036854775808"
  shows "\<exists>n'. gget (nodeHealth hc') k = Some n' \<and>
    entry_ok (failureThreshold hc) (failures f (map (\<lambda>(pick, net, now). ping_ok net (h_Address n)) rs)) n' \<and>
    filter (about k) (events hc') = filter (about k) (events hc) @
      calls (failureThreshold hc) k f (map (\<lambda>(pick, net, now). ping_ok net (h_Address n)) rs)"
  using assms
proof (induction rs arbitrary: hc n f)
  case (Cons r rs)
  obtain pick net now where r: "r = (pick, net, now)" by (cases r)
  obtain hc1 where hc1: "foreach (checkNode net now) (pick (nodeHealth hc)) hc = Some hc1" "foreach round_of rs hc1 = Some hc'"
    using Cons.prems(1) by (auto simp: r round_of_def checkAllNodes_def split: Option.bind_splits)
  have rg: "is_range (pick (nodeHealth hc)) (nodeHealth hc)" using Cons.prems(3,5) by (simp add: r ids_ok_def)
  then have ord: "gmap_ok (pick (nodeHealth hc))" "map_of (pick (nodeHealth hc)) = gget (nodeHealth hc)"
    "\<forall>(k, n) \<in> set (pick (nodeHealth hc)). gget (nodeHealth hc) k = Some n"
    using is_range_get[OF rg] by (auto simp: is_range_def)
  let ?th = "failureThreshold hc" and ?ok = "ping_ok net (h_Address n)"
  note F = round_frame[OF hc1(1) Cons.prems(2,3) ord(1,3), unfolded ord(2)]
  have hk: "h_NodeID n = k" using Cons.prems(3,6) by (simp add: ids_ok_def)
  have f1: "f + 1 < 9223372036854775808" using Cons.prems(8) by simp
  note E = entry_ok_checked[OF Cons.prems(7,4) f1, of ?ok now]
  have "0 \<le> f" using Cons.prems(7) by (simp add: entry_ok_def)
  then have len: "(if ?ok then 0 else f + 1) + int (length rs) < 9223372036854775808" using Cons.prems(8) by simp
  obtain n' where n': "gget (nodeHealth hc') k = Some n'"
    "entry_ok ?th (failures (if ?ok then 0 else f + 1) (map (\<lambda>(pick, net, now). ping_ok net (h_Address n)) rs)) n'"
    "filter (about k) (events hc') = filter (about k) (events hc1) @
      calls ?th k (if ?ok then 0 else f + 1) (map (\<lambda>(pick, net, now). ping_ok net (h_Address n)) rs)"
    using Cons.IH[OF hc1(2), of "checked ?th now ?ok n" "if ?ok then 0 else f + 1"] F E(1) Cons.prems(4,5,6) len by auto
  have "filter (about k) (events hc1) = filter (about k) (events hc) @ called ?th ?ok n (checked ?th now ?ok n)"
    using F Cons.prems(6) by blast
  with n' E(2)[of "map (\<lambda>(pick, net, now). ping_ok net (h_Address n)) rs"] show ?case by (simp add: r hk)
qed simp

lemma rounds_total:
  assumes "\<forall>(pick, net, now) \<in> set rs. \<forall>a. pingNode net a \<noteq> None"
  shows "\<exists>hc'. foreach round_of rs hc = Some hc'"
proof -
  have c: "\<exists>h'. checkNode net now x h = Some h'" if p: "\<forall>a. pingNode net a \<noteq> None" for net now x h
  proof -
    obtain k n where x: "x = (k, n)" by (cases x)
    obtain err where "pingNode net (h_Address n) = Some err" using p by blast
    then show ?thesis unfolding x checkNode_def Let_def by simp
  qed
  have "\<exists>h'. round_of r h = Some h'" if "r \<in> set rs" for r h
  proof -
    obtain pick net now where r: "r = (pick, net, now)" by (cases r)
    have p: "\<forall>a. pingNode net a \<noteq> None" using that assms by (auto simp: r)
    show ?thesis
      using foreach_inv[of "pick (nodeHealth h)" "\<lambda>_. True" "checkNode net now" h] c[OF p]
      by (simp add: r round_of_def checkAllNodes_def)
  qed
  then show ?thesis using foreach_inv[of rs "\<lambda>_. True" round_of hc] by blast
qed

lemma failures_append: "failures f (xs @ ys) = failures (failures f xs) ys"
  by (induction xs arbitrary: f) auto

lemma failures_replicate: "failures f (replicate m False) = f + int m"
  by (induction m arbitrary: f) auto

lemma calls_append: "calls th k f (xs @ ys) = calls th k f xs @ calls th k (failures f xs) ys"
proof (induction xs arbitrary: f)
  case (Cons x xs)
  then show ?case by (cases x) auto
qed simp

lemma calls_replicate:
  "0 < th \<Longrightarrow> 0 \<le> f \<Longrightarrow> calls th k f (replicate m False) = (if f < th \<and> th \<le> f + int m then [NodeFailed k] else [])"
  by (induction m arbitrary: f) auto

lemma RegisterNode_entry:
  assumes "ids_ok hc" and "gget (nodeHealth hc) k = None"
  shows "ids_ok (RegisterNode now k addr hc)" "gget (nodeHealth (RegisterNode now k addr hc)) k \<noteq> None"
    "callbacks (RegisterNode now k addr hc) = callbacks hc" "failureThreshold (RegisterNode now k addr hc) = failureThreshold hc"
    "events (RegisterNode now k addr hc) = events hc"
    "\<And>n. gget (nodeHealth (RegisterNode now k addr hc)) k = Some n \<Longrightarrow> h_Address n = addr \<and> entry_ok th 0 n"
  using assms by (auto simp: RegisterNode_def ids_ok_def gget_gset gmap_ok_gset entry_ok_def status_of_def)

lemma registered_rounds:
  assumes "ids_ok hc" and "callbacks hc" and "0 < failureThreshold hc" and "gget (nodeHealth hc) k = None"
    and "\<forall>(pick, net, now) \<in> set rs. (\<forall>m. gmap_ok m \<longrightarrow> is_range (pick m) m) \<and> (\<forall>a. pingNode net a \<noteq> None)"
    and "int (length rs) < 9223372036854775808"
  shows "\<exists>hc'. foreach round_of rs (RegisterNode now k addr hc) = Some hc' \<and>
    GetNodeStatus hc' k = status_of (failureThreshold hc) (failures 0 (map (\<lambda>(pick, net, now). ping_ok net addr) rs)) \<and>
    filter (about k) (events hc') = filter (about k) (events hc) @
      calls (failureThreshold hc) k 0 (map (\<lambda>(pick, net, now). ping_ok net addr) rs)"
proof -
  note R = RegisterNode_entry[OF assms(1,4), of now addr]
  obtain n where n: "gget (nodeHealth (RegisterNode now k addr hc)) k = Some n" using R(2) by auto
  have "\<exists>hc'. foreach round_of rs (RegisterNode now k addr hc) = Some hc'"
    using assms(5) by (intro rounds_total) auto
  then obtain hc' where hc': "foreach round_of rs (RegisterNode now k addr hc) = Some hc'" by blast
  have p: "\<forall>(pick, net, now) \<in> set rs. \<forall>m. gmap_ok m \<longrightarrow> is_range (pick m) m" using assms(5) by auto
  have a: "h_Address n = addr" "entry_ok (failureThreshold (RegisterNode now k addr hc)) 0 n" using R(6)[OF n] by auto
  from rounds_entry[OF hc' _ R(1) _ p n a(2)] hc' show ?thesis
    using assms(2,3,6) R(3,4,5) a(1) by (auto simp: GetNodeStatus_def entry_ok_def)
qed

text \<open>
  C33: The failure detector follows the history of its checks. After any number of rounds the status
  of a registered node is determined by its failed checks since the last answer: alive after an
  answer, suspected below the threshold, dead from the threshold on; and the callbacks were called
  exactly at the transitions to and from dead, whatever the order in which the nodes are visited.
\<close>

theorem health_follows_history:
  assumes "ids_ok hc" and "callbacks hc" and "0 < failureThreshold hc" and "gget (nodeHealth hc) k = None"
    and "\<forall>(pick, net, now) \<in> set rs. (\<forall>m. gmap_ok m \<longrightarrow> is_range (pick m) m) \<and> (\<forall>a. pingNode net a \<noteq> None)"
    and "int (length rs) < 9223372036854775808"
  shows "\<exists>hc'. foreach round_of rs (RegisterNode now k addr hc) = Some hc' \<and>
    GetNodeStatus hc' k = status_of (failureThreshold hc) (failures 0 (map (\<lambda>(pick, net, now). ping_ok net addr) rs)) \<and>
    filter (about k) (events hc') = filter (about k) (events hc) @
      calls (failureThreshold hc) k 0 (map (\<lambda>(pick, net, now). ping_ok net addr) rs)"
  using assms by (rule registered_rounds)

text \<open>The answer of a live server.\<close>

definition pong :: string where
  "pong = EncodeSimpleString ''PONG''"

lemma ping_pong: "ping_ok net a \<longleftrightarrow> True" "pingNode net a \<noteq> None" if "net a = Some pong"
  using that readLine_line[of "''PONG''" "[]"]
  by (simp_all add: ping_ok_def pingNode_def pong_def EncodeSimpleString_def Parse.simps parseSimpleString_def)

lemma ping_silent: "\<not> ping_ok net a" "pingNode net a \<noteq> None" if "net a = None"
  using that by (simp_all add: ping_ok_def pingNode_def)

definition ready_checker :: HealthChecker where
  "ready_checker = SetCallbacks (NewHealthChecker (5 * Second) 3 (2 * Second))"

lemma ready_checker_simps [simp]:
  "ids_ok ready_checker" "callbacks ready_checker" "failureThreshold ready_checker = 3"
  "nodeHealth ready_checker = []" "events ready_checker = []"
  by (simp_all add: ready_checker_def SetCallbacks_def NewHealthChecker_def ids_ok_def)

theorem health_follows_history_witness:
  "\<exists>hc'. foreach round_of [(id, \<lambda>_. Some pong, 5), (id, \<lambda>_. None, 10)] (RegisterNode 0 ''n'' ''h:1'' ready_checker) = Some hc' \<and>
    GetNodeStatus hc' ''n'' = NodeStatusSuspected"
proof -
  let ?rs = "[(id :: (string, NodeHealth) gomap \<Rightarrow> _, \<lambda>_ :: string. Some pong, 5 :: time), (id, \<lambda>_. None, 10)]"
  have "\<exists>hc'. foreach round_of ?rs (RegisterNode 0 ''n'' ''h:1'' ready_checker) = Some hc' \<and>
    GetNodeStatus hc' ''n'' = status_of (failureThreshold ready_checker) (failures 0 (map (\<lambda>(pick, net, now). ping_ok net ''h:1'') ?rs)) \<and>
    filter (about ''n'') (events hc') = filter (about ''n'') (events ready_checker) @
      calls (failureThreshold ready_checker) ''n'' 0 (map (\<lambda>(pick, net, now). ping_ok net ''h:1'') ?rs)"
    by (rule health_follows_history) (use ping_pong(2) ping_silent(2) in auto)
  then show ?thesis using ping_pong(1)[of "\<lambda>_. Some pong" "''h:1''"] ping_silent(1)[of "\<lambda>_. None" "''h:1''"]
    by (auto simp: status_of_def)
qed

text \<open>
  A crash is detected and so is the return. A node that stops answering for at least the
  threshold of rounds is dead, its failure callback is called exactly once however long the outage
  lasts, and the first answer afterwards makes it alive and calls the recovery callback once.
\<close>

lemma crash_detected_once:
  assumes "ids_ok hc" and "callbacks hc" and "0 < failureThreshold hc" and "gget (nodeHealth hc) k = None"
    and "\<forall>(pick, net, now) \<in> set (down @ [answered]). (\<forall>m. gmap_ok m \<longrightarrow> is_range (pick m) m) \<and> (\<forall>a. pingNode net a \<noteq> None)"
    and "int (length down) < 9223372036854775807" and "failureThreshold hc \<le> int (length down)"
    and "\<forall>(pick, net, now) \<in> set down. \<not> ping_ok net addr" and "ping_ok (fst (snd answered)) addr"
  shows "\<exists>hc1 hc2. foreach round_of down (RegisterNode now k addr hc) = Some hc1 \<and> GetNodeStatus hc1 k = NodeStatusDead \<and>
    filter (about k) (events hc1) = filter (about k) (events hc) @ [NodeFailed k] \<and>
    foreach round_of (down @ [answered]) (RegisterNode now k addr hc) = Some hc2 \<and> GetNodeStatus hc2 k = NodeStatusAlive \<and>
    filter (about k) (events hc2) = filter (about k) (events hc) @ [NodeFailed k, NodeRecovered k]"
proof -
  let ?ok = "\<lambda>(pick, net, now). ping_ok net addr"
  have d: "map ?ok down = replicate (length down) False"
    using assms(8) by (intro replicate_eqI) (auto simp: split_def)
  have b: "map ?ok [answered] = [True]" using assms(9) by (simp add: split_def)
  have "\<exists>hc1. foreach round_of down (RegisterNode now k addr hc) = Some hc1 \<and>
    GetNodeStatus hc1 k = status_of (failureThreshold hc) (failures 0 (map ?ok down)) \<and>
    filter (about k) (events hc1) = filter (about k) (events hc) @ calls (failureThreshold hc) k 0 (map ?ok down)"
    using assms(5,6) by (intro registered_rounds[OF assms(1-4)]) auto
  moreover have "\<exists>hc2. foreach round_of (down @ [answered]) (RegisterNode now k addr hc) = Some hc2 \<and>
    GetNodeStatus hc2 k = status_of (failureThreshold hc) (failures 0 (map ?ok (down @ [answered]))) \<and>
    filter (about k) (events hc2) = filter (about k) (events hc) @ calls (failureThreshold hc) k 0 (map ?ok (down @ [answered]))"
    using assms(5,6) by (intro registered_rounds[OF assms(1-4)]) auto
  moreover have "failures 0 (map ?ok down) = int (length down)" "failures 0 (map ?ok (down @ [answered])) = 0"
    "calls (failureThreshold hc) k 0 (map ?ok down) = [NodeFailed k]"
    "calls (failureThreshold hc) k 0 (map ?ok (down @ [answered])) = [NodeFailed k, NodeRecovered k]"
    unfolding map_append d b failures_append calls_append failures_replicate
    using assms(3,7) by (simp_all add: calls_replicate)
  ultimately show ?thesis using assms(3,7) by (auto simp: status_of_def)
qed

lemma crash_detected_once_witness:
  "\<exists>hc1. foreach round_of [(id, \<lambda>_. None, 5), (id, \<lambda>_. None, 10), (id, \<lambda>_. None, 15)]
      (RegisterNode 0 ''n'' ''h:1'' ready_checker) = Some hc1 \<and>
    GetNodeStatus hc1 ''n'' = NodeStatusDead \<and> filter (about ''n'') (events hc1) = [NodeFailed ''n'']"
proof -
  let ?down = "[(id :: (string, NodeHealth) gomap \<Rightarrow> _, \<lambda>_ :: string. None :: string option, 5 :: time), (id, \<lambda>_. None, 10), (id, \<lambda>_. None, 15)]"
    and ?answered = "(id :: (string, NodeHealth) gomap \<Rightarrow> _, \<lambda>_ :: string. Some pong, 20 :: time)"
  have "\<exists>hc1 hc2. foreach round_of ?down (RegisterNode 0 ''n'' ''h:1'' ready_checker) = Some hc1 \<and> GetNodeStatus hc1 ''n'' = NodeStatusDead \<and>
    filter (about ''n'') (events hc1) = filter (about ''n'') (events ready_checker) @ [NodeFailed ''n''] \<and>
    foreach round_of (?down @ [?answered]) (RegisterNode 0 ''n'' ''h:1'' ready_checker) = Some hc2 \<and> GetNodeStatus hc2 ''n'' = NodeStatusAlive \<and>
    filter (about ''n'') (events hc2) = filter (about ''n'') (events ready_checker) @ [NodeFailed ''n'', NodeRecovered ''n'']"
    by (rule crash_detected_once) (use ping_pong ping_silent in auto)
  then show ?thesis by auto
qed

text \<open>
  A node that the checker does not know counts as dead. A server does not register itself, so it
  reports its own status as dead.
\<close>

lemma unknown_node_is_dead: "gget (nodeHealth hc) k = None \<Longrightarrow> GetNodeStatus hc k = NodeStatusDead \<and> \<not> IsNodeHealthy hc k"
  by (simp add: GetNodeStatus_def IsNodeHealthy_def)

lemma GetHealthyNodes_filter: "GetHealthyNodes ord = map fst (filter (\<lambda>(k, h). h_Status h = NodeStatusAlive) ord)"
proof -
  have "fold (\<lambda>(nodeID, h) healthy. if h_Status h = NodeStatusAlive then healthy @ [nodeID] else healthy) ord acc =
      acc @ map fst (filter (\<lambda>(k, h). h_Status h = NodeStatusAlive) ord)" for acc
    by (induction ord arbitrary: acc) auto
  from this[of "[]"] show ?thesis by (simp add: GetHealthyNodes_def)
qed

lemma GetHealthyNodes_healthy:
  "is_range ord (nodeHealth hc) \<Longrightarrow> k \<in> set (GetHealthyNodes ord) \<longleftrightarrow> IsNodeHealthy hc k"
  unfolding GetHealthyNodes_filter IsNodeHealthy_def
  by (auto simp: is_range_get image_iff Bex_def split: option.splits)

end
