(* ===== verification/Replay.thy ===== *)
theory Replay
  imports Cache
begin

text \<open>
  Stores that are rebuilt from a list of operations: the log replayed after a restart, the commands
  a follower receives, the keys a shard takes over. The locale states what one step of such a store
  promises while the keys fit, and proves once that a run of steps ends in the map that the
  operations describe. The cache is the store of all of them.
\<close>

locale op_store =
  fixes step :: "'op \<Rightarrow> 's \<Rightarrow> 's option"
    and eff :: "'op \<Rightarrow> ('k \<Rightarrow> 'v option) \<Rightarrow> ('k \<Rightarrow> 'v option)"
    and keys :: "'op \<Rightarrow> 'k set"
    and look :: "'s \<Rightarrow> 'k \<Rightarrow> 'v option"
    and ok :: "'s \<Rightarrow> bool"
    and cap :: "'s \<Rightarrow> nat"
  assumes step_ok: "ok s \<Longrightarrow> finite K \<Longrightarrow> dom (look s) \<union> keys op \<subseteq> K \<Longrightarrow> card K \<le> cap s \<Longrightarrow>
      \<exists>s'. step op s = Some s' \<and> ok s' \<and> look s' = eff op (look s) \<and> cap s' = cap s"
    and eff_dom: "dom (eff op m) \<subseteq> dom m \<union> keys op"
begin

lemma replay:
  assumes "ok s" and "finite K" and "dom (look s) \<union> (\<Union>op \<in> set ops. keys op) \<subseteq> K" and "card K \<le> cap s"
  shows "\<exists>s'. foreach step ops s = Some s' \<and> ok s' \<and> look s' = fold eff ops (look s) \<and> cap s' = cap s"
  using assms
proof (induction ops arbitrary: s)
  case (Cons op ops)
  obtain s1 where s1: "step op s = Some s1" "ok s1" "look s1 = eff op (look s)" "cap s1 = cap s"
    using step_ok[OF Cons.prems(1,2), of op] Cons.prems(3,4) by auto
  have "dom (look s1) \<union> (\<Union>op \<in> set ops. keys op) \<subseteq> K"
    using eff_dom[of op "look s"] Cons.prems(3) unfolding s1(3) by auto
  then obtain s2 where "foreach step ops s1 = Some s2" "ok s2" "look s2 = fold eff ops (look s1)" "cap s2 = cap s1"
    using Cons.IH[OF s1(2) Cons.prems(2)] Cons.prems(4) s1(4) by auto
  with s1 show ?case by auto
qed simp

text \<open>Two stores that start alike and take the same steps end alike.\<close>

lemma replay_converges:
  assumes "ok s" "ok t" and "look s = look t" and "finite K"
    and "dom (look s) \<union> (\<Union>op \<in> set ops. keys op) \<subseteq> K" and "card K \<le> cap s" "card K \<le> cap t"
  shows "\<exists>s' t'. foreach step ops s = Some s' \<and> foreach step ops t = Some t' \<and> look s' = look t'"
  using replay[OF assms(1,4,5,6)] replay[OF assms(2,4), of ops] assms(3,5,7) by auto

end

section \<open>The cache as such a store\<close>

text \<open>A cache whose pointers are consistent and whose lock is free.\<close>

definition cache_ready :: "Cache \<Rightarrow> bool" where
  "cache_ready c \<longleftrightarrow> \<not> mu c \<and> (\<exists>V. represents c V)"

definition cache_room :: "Cache \<Rightarrow> nat" where
  "cache_room c = nat (maxSize c)"

lemma cache_ready_represents:
  "cache_ready c \<Longrightarrow> \<exists>ks. represents c (entries c, ks) \<and> set ks = dom (entries c) \<and> distinct ks"
  unfolding cache_ready_def represents_def using cache_ok_keys by blast

lemma represents_ready: "represents c V \<Longrightarrow> \<not> mu c \<Longrightarrow> cache_ready c \<and> entries c = fst V"
  by (auto simp: cache_ready_def represents_def)

lemma cache_ready_New: "cache_ready (NewCache cap ms) \<and> entries (NewCache cap ms) = Map.empty"
  using represents_ready[OF NewCache_represents] by (simp add: NewCache_def)

lemma Set_ready:
  assumes "cache_ready c" and "finite K" and "dom (entries c) \<union> {k} \<subseteq> K" and "card K \<le> cache_room c"
  shows "\<exists>c'. Set now k v ttl c = Some c' \<and> cache_ready c' \<and>
    entries c' = (entries c)(k \<mapsto> (v, expiry now ttl)) \<and> maxSize c' = maxSize c"
proof -
  obtain ks where ks: "represents c (entries c, ks)" "set ks = dom (entries c)" "distinct ks"
    using cache_ready_represents[OF assms(1)] by blast
  have "int (length ks) < maxSize c" if "k \<notin> set ks"
  proof -
    have "insert k (set ks) \<subseteq> K" using assms(3) ks(2) by auto
    from card_mono[OF assms(2) this] have "Suc (length ks) \<le> card K"
      using that distinct_card[OF ks(3)] by simp
    with assms(4) show ?thesis by (simp add: cache_room_def)
  qed
  then have "fst (spec_set (maxSize c) now k v ttl (entries c, ks)) = (entries c)(k \<mapsto> (v, expiry now ttl))"
    by (auto simp: spec_set_def Let_def)
  moreover obtain c' where "Set now k v ttl c = Some c'" "\<not> mu c'" "maxSize c' = maxSize c"
    "represents c' (spec_set (maxSize c) now k v ttl (entries c, ks))"
    using Set_refines_lemma[OF ks(1)] assms(1) unfolding cache_ready_def by blast
  ultimately show ?thesis using represents_ready by metis
qed

lemma Delete_ready:
  assumes "cache_ready c"
  shows "\<exists>c'. Delete k c = Some c' \<and> cache_ready c' \<and> entries c' = (entries c)(k := None) \<and> maxSize c' = maxSize c"
proof -
  obtain ks where ks: "represents c (entries c, ks)" using cache_ready_represents[OF assms] by blast
  obtain c' where c': "Delete k c = Some c'" "\<not> mu c'" "maxSize c' = maxSize c"
    "represents c' (spec_delete k (entries c, ks))"
    using Delete_refines_lemma[OF ks] assms unfolding cache_ready_def by blast
  from represents_ready[OF c'(4,2)] c' show ?thesis by (simp add: spec_delete_def)
qed

lemma Get_ready:
  assumes "cache_ready c"
  shows "\<exists>c'. Get now k c = Some ((case entries c k of None \<Rightarrow> None | Some (v, t) \<Rightarrow> if expired now t then None else Some v), c') \<and>
    cache_ready c' \<and> entries c' = entries c \<and> maxSize c' = maxSize c"
proof -
  obtain ks where ks: "represents c (entries c, ks)" using cache_ready_represents[OF assms] by blast
  obtain c' where c': "Get now k c = Some (fst (spec_get now k (entries c, ks)), c')" "\<not> mu c'"
    "maxSize c' = maxSize c" "represents c' (snd (spec_get now k (entries c, ks)))"
    using Get_refines_lemma[OF ks] assms unfolding cache_ready_def by blast
  have "fst (snd (spec_get now k (entries c, ks))) = entries c"
    by (auto simp: spec_get_def split: option.splits)
  with represents_ready[OF c'(4,2)] c' show ?thesis
    by (auto simp: spec_get_def split: option.splits)
qed

text \<open>Without room, a write evicts other keys, but it never fails and the cache stays consistent.\<close>

lemma Set_never_fails: "cache_ready c \<Longrightarrow> \<exists>c'. Set now k v ttl c = Some c' \<and> cache_ready c' \<and>
    entries c' k = Some (v, expiry now ttl) \<and> maxSize c' = maxSize c"
proof -
  assume c: "cache_ready c"
  obtain ks where ks: "represents c (entries c, ks)" using cache_ready_represents[OF c] by blast
  obtain c' where c': "Set now k v ttl c = Some c'" "\<not> mu c'" "maxSize c' = maxSize c"
    "represents c' (spec_set (maxSize c) now k v ttl (entries c, ks))"
    using Set_refines_lemma[OF ks] c unfolding cache_ready_def by blast
  from represents_ready[OF c'(4,2)] c' show ?thesis by (auto simp: spec_set_def Let_def split: if_splits)
qed

end
