(* ===== verification/Resp_Stream.thy ===== *)
theory Resp_Stream
  imports Resp
begin

text \<open>
  Streams of encoded requests that end early: a log whose last entry was torn by a crash, or a
  connection that breaks inside a request. Cutting the bytes of a value anywhere makes the parser
  report an error after it has taken all that was left, so nothing of the torn value is mistaken
  for the beginning of another one.
\<close>

definition torn :: "(string \<Rightarrow> iface read option) \<Rightarrow> string \<Rightarrow> bool" where
  "torn p r \<longleftrightarrow> (\<forall>v k n. p r = Some (Inr v, k) \<longrightarrow> n < k \<longrightarrow> (\<exists>err. p (take n r) = Some (Inl err, n)))"

lemma tornI:
  "(\<And>v k n. p r = Some (Inr v, k) \<Longrightarrow> n < k \<Longrightarrow> \<exists>err. p (take n r) = Some (Inl err, n)) \<Longrightarrow> torn p r"
  by (simp add: torn_def)

lemma tornD: "torn p r \<Longrightarrow> p r = Some (Inr v, k) \<Longrightarrow> n < k \<Longrightarrow> \<exists>err. p (take n r) = Some (Inl err, n)"
  by (simp add: torn_def)

lemma ReadString_torn: "CHR 0x0A \<notin> set r \<Longrightarrow> ReadString r = (Inl EOF, length r)"
  by (simp add: ReadString_def)

lemma no_lf_in_part:
  assumes "CHR 0x0A \<notin> set l" and "n < length l + 2"
  shows "CHR 0x0A \<notin> set (take n (l @ crlf @ u))"
proof -
  obtain x where x: "x = take (n - length l) (crlf @ u)" by blast
  have "n - length l \<le> 1" using assms(2) by simp
  then have "x = [] \<or> x = [CHR 0x0D]" unfolding x by (cases "n - length l") (auto simp: crlf_def)
  moreover have "take n (l @ crlf @ u) = take n l @ x" unfolding x by (rule take_append)
  ultimately show ?thesis using assms(1) by (auto dest: in_set_takeD)
qed

lemma readLine_torn:
  assumes "readLine r = (Inr l, k)" and "n < k"
  shows "readLine (take n r) = (Inl EOF, n)"
proof -
  have l: "CHR 0x0A \<notin> set l" "k = length l + 2" "r = l @ crlf @ drop k r"
    using readLine_SomeD[OF assms(1)] by auto
  have "k \<le> length r" using line_taken(2)[OF l(3,2), of 0] by simp
  moreover have "CHR 0x0A \<notin> set (take n r)"
    by (subst l(3)) (rule no_lf_in_part[OF l(1)], use l(2) assms(2) in simp)
  ultimately show ?thesis using assms(2) by (simp add: readLine_def ReadString_torn)
qed

lemma parseInteger_torn:
  assumes "parseInteger r = (Inr i, k)" and "n < k"
  shows "parseInteger (take n r) = (Inl EOF, n)"
proof -
  obtain l where l: "CHR 0x0A \<notin> set l" "k = length l + 2" "r = l @ crlf @ drop k r"
    using parseInteger_SomeD[OF assms(1)] by blast
  have "k \<le> length r" using line_taken(2)[OF l(3,2), of 0] by simp
  moreover have "CHR 0x0A \<notin> set (take n r)"
    by (subst l(3)) (rule no_lf_in_part[OF l(1)], use l(2) assms(2) in simp)
  ultimately show ?thesis using assms(2) by (simp add: parseInteger_def ReadString_torn)
qed

lemma parseBulkString_shape:
  assumes "parseBulkString r = Some (Inr v, k)"
  obtains l j where "readLine r = (Inr l, j)" "Atoi l = Some (-1)" "k = j"
  | l j n u where "readLine r = (Inr l, j)" "Atoi l = Some (int n)" "make_ok 1 (int n)"
      "length v = n" "k = j + n + 2" "drop j r = v @ crlf @ u"
proof -
  obtain l j where l: "readLine r = (Inr l, j)"
    using assms by (auto simp: parseBulkString_def split: prod.splits sum.splits)
  obtain n where n: "Atoi l = Some n"
    using assms l by (auto simp: parseBulkString_def split: option.splits)
  show ?thesis
  proof (cases "n = -1")
    case True
    then show ?thesis using that(1)[OF l] n assms l by (simp add: parseBulkString_def)
  next
    case False
    then have ok: "make_ok 1 n" using assms l n by (auto simp: parseBulkString_def split: if_splits)
    then obtain m where m: "n = int m" using make_ok_def by (metis nonneg_int_cases)
    have len: "m \<le> length r - j"
      using assms l n ok m by (auto simp: parseBulkString_def ReadFull_def split: if_splits)
    obtain c x where cx: "drop (j + m) r = CHR 0x0D # c # x" "c = CHR 0x0A" "k = j + m + 2" "v = take m (drop j r)"
    proof (cases "drop (j + m) r")
      case Nil
      then show ?thesis using assms l n ok len m by (simp add: parseBulkString_def ReadFull_def)
    next
      case (Cons c x)
      then show ?thesis using that assms l n ok len m
        by (cases x) (simp_all add: parseBulkString_def ReadFull_def split: if_splits)
    qed
    then have k: "k = j + m + 2" "v = take m (drop j r)" and u: "drop (j + m) r = crlf @ x"
      by (simp_all add: crlf_def)
    have "drop j r = take m (drop j r) @ drop m (drop j r)" by (rule append_take_drop_id[symmetric])
    also have "\<dots> = v @ crlf @ x" using k u by (simp add: add.commute)
    finally have "drop j r = v @ crlf @ x" .
    moreover have "length v = m" using k(2) len by simp
    ultimately show ?thesis using that(2)[OF l] n m ok k(1) by blast
  qed
qed

lemma take_line:
  assumes "r = l @ crlf @ drop j r" and "j = length l + 2" and "j \<le> n"
  shows "take n r = l @ crlf @ take (n - j) (drop j r)"
proof -
  have "take n r = take n (l @ crlf @ drop j r)" using arg_cong[OF assms(1), of "take n"] .
  also have "\<dots> = l @ crlf @ take (n - j) (drop j r)" using assms(2,3) by (auto simp: not_le)
  finally show ?thesis .
qed

lemma take_data:
  "i < length v + 2 \<Longrightarrow> take i (v @ crlf @ u) = take i v \<and> i < length v \<or> take i (v @ crlf @ u) = v \<and> i = length v \<or>
     take i (v @ crlf @ u) = v @ [CHR 0x0D] \<and> i = length v + 1"
  by (auto simp: crlf_def less_Suc_eq)

lemma parseBulkString_torn:
  assumes run: "parseBulkString r = Some (Inr v, k)" and n: "n < k"
  shows "\<exists>err. parseBulkString (take n r) = Some (Inl err, n)"
  using run
proof (cases rule: parseBulkString_shape)
  case (1 l j)
  then show ?thesis using readLine_torn[OF 1(1)] n by (simp add: parseBulkString_def)
next
  case (2 l j m u)
  have l: "CHR 0x0A \<notin> set l" "j = length l + 2" "r = l @ crlf @ drop j r"
    using readLine_SomeD[OF 2(1)] by auto
  show ?thesis
  proof (cases "n < j")
    case True
    then show ?thesis using readLine_torn[OF 2(1)] by (simp add: parseBulkString_def)
  next
    case False
    obtain x where x: "x = take (n - j) (v @ crlf @ u)" by blast
    have r: "take n r = l @ crlf @ x" using take_line[OF l(3,2)] False unfolding 2(6) x by simp
    have "n - j < length v + 2" using n False 2 by simp
    then have "x = take (n - j) v \<and> n - j < length v \<or> x = v \<and> n - j = length v \<or>
        x = v @ [CHR 0x0D] \<and> n - j = length v + 1"
      unfolding x by (rule take_data)
    then show ?thesis
      using l(1) 2(2,3,4) l(2) False
      by (elim disjE conjE) (simp_all add: parseBulkString_def ReadFull_def r)
  qed
qed

lemma torn_Parse:
  assumes "\<And>r'. r = CHR ''*'' # r' \<Longrightarrow> torn parseArray r'"
  shows "torn Parse r"
proof (rule tornI)
  fix v k n
  assume run: "Parse r = Some (Inr v, k)" and n: "n < k"
  obtain c r' where r: "r = c # r'" using run by (cases r) (auto simp: Parse.simps)
  show "\<exists>err. Parse (take n r) = Some (Inl err, n)"
  proof (cases n)
    case 0
    then show ?thesis by (simp add: Parse.simps)
  next
    case (Suc m)
    consider "c = CHR ''*''" | "c = CHR ''$''" | "c = CHR '':''" | "c = CHR ''+'' \<or> c = CHR ''-''"
      using run r by (auto simp: Parse.simps split: if_splits)
    then show ?thesis
    proof cases
      case 1
      then have "parseArray r' = Some (Inr v, k - 1)" using run r by (auto simp: Parse.simps)
      from tornD[OF assms[OF r[unfolded 1]] this, of m] show ?thesis
        using n Suc by (auto simp: r 1 Parse.simps)
    next
      case 2
      then obtain s where "parseBulkString r' = Some (Inr s, k - 1)"
        using run r by (auto simp: Parse.simps map_sum_eq_Inr)
      then obtain err where "parseBulkString (take m r') = Some (Inl err, m)"
        using parseBulkString_torn n Suc by fastforce
      then show ?thesis using n Suc by (simp add: r 2 Parse.simps)
    next
      case 3
      then obtain i where "parseInteger r' = (Inr i, k - 1)"
        using run r by (cases "parseInteger r'") (auto simp: Parse.simps map_sum_eq_Inr)
      from parseInteger_torn[OF this, of m] show ?thesis
        using n Suc by (simp add: r 3 Parse.simps)
    next
      case 4
      then obtain s where "readLine r' = (Inr s, k - 1)"
        using run r
        by (cases "readLine r'") (auto simp: Parse.simps parseSimpleString_def parseError_def map_sum_eq_Inr)
      from readLine_torn[OF this, of m] show ?thesis
        using n Suc 4 by (auto simp: r Parse.simps parseSimpleString_def parseError_def)
    qed
  qed
qed

lemma torn_parseArray:
  assumes "\<And>l k n. readLine r = (Inr l, k) \<Longrightarrow> Atoi l = Some n \<Longrightarrow> n \<noteq> -1 \<Longrightarrow> make_ok 16 n \<Longrightarrow>
    torn (parse_elements (nat n) []) (drop k r)"
  shows "torn parseArray r"
proof (rule tornI)
  fix v k m
  assume run: "parseArray r = Some (Inr v, k)" and m: "m < k"
  then obtain l j where l: "readLine r = (Inr l, j)"
    by (auto simp: parseArray.simps split: prod.splits sum.splits)
  then obtain n where n: "Atoi l = Some n"
    using run by (auto simp: parseArray.simps split: option.splits)
  have r: "CHR 0x0A \<notin> set l" "j = length l + 2" "r = l @ crlf @ drop j r"
    using readLine_SomeD[OF l] by auto
  show "\<exists>err. parseArray (take m r) = Some (Inl err, m)"
  proof (cases "m < j")
    case True
    from readLine_torn[OF l this] show ?thesis by (simp add: parseArray.simps)
  next
    case False
    then have n1: "n \<noteq> -1" using run l n m by (auto simp: parseArray.simps)
    then have ok: "make_ok 16 n" using run l n by (auto simp: parseArray.simps split: if_splits)
    obtain i where i: "parse_elements (nat n) [] (drop j r) = Some (Inr v, i)" "k = j + i"
      using run l n n1 ok by (auto simp: parseArray.simps)
    have t: "take m r = l @ crlf @ take (m - j) (drop j r)"
      using False by (intro take_line[OF r(3,2)]) simp
    have "m - j < i" using m False i(2) by simp
    from tornD[OF assms[OF l n n1 ok] i(1) this] r(1,2) n n1 ok False show ?thesis
      unfolding t by (auto simp: parseArray.simps)
  qed
qed

lemma torn_parse_elements:
  assumes "torn Parse r" and "\<And>e j. Parse r = Some (Inr e, j) \<Longrightarrow> torn (parse_elements m (res @ [e])) (drop j r)"
  shows "torn (parse_elements (Suc m) res) r"
proof (rule tornI)
  fix v k n
  assume run: "parse_elements (Suc m) res r = Some (Inr v, k)" and n: "n < k"
  obtain e j where e: "Parse r = Some (Inr e, j)"
    using run by (auto simp: parse_elements_Suc split: option.splits prod.splits sum.splits)
  then obtain i where i: "parse_elements m (res @ [e]) (drop j r) = Some (Inr v, i)" "k = j + i"
    using run by (auto simp: parse_elements_Suc)
  show "\<exists>err. parse_elements (Suc m) res (take n r) = Some (Inl err, n)"
  proof (cases "n < j")
    case True
    from tornD[OF assms(1) e this] show ?thesis by (auto simp: parse_elements_Suc)
  next
    case False
    have "n - j < i" using n False i(2) by simp
    then obtain err where "parse_elements m (res @ [e]) (take (n - j) (drop j r)) = Some (Inl err, n - j)"
      using tornD[OF assms(2)[OF e] i(1)] by blast
    moreover have "j \<le> length r" "Parse (take j r @ take (n - j) (drop j r)) = Some (Inr e, j)"
      using stableD[OF parser_stable(1) e] by auto
    moreover have "take n r = take j r @ take (n - j) (drop j r)" using False by (metis le_add_diff_inverse not_less take_add)
    ultimately show ?thesis using False by (simp add: parse_elements_Suc)
  qed
qed

lemma parser_torn:
  "torn Parse r" "torn parseArray r" "torn (parse_elements n res) r"
proof (induction r and r and n res r rule: Parse_parseArray_parse_elements.induct)
  case (1 r)
  have "torn parseArray r'" if "r = CHR ''*'' # r'" for r'
    using 1[OF that] by simp
  then show ?case by (rule torn_Parse)
next
  case (2 r)
  have "torn (parse_elements (nat n) []) (drop k r)"
    if "readLine r = (Inr l, k)" "Atoi l = Some n" "n \<noteq> -1" "make_ok 16 n" for l k n
    using 2[OF that(1)[symmetric] refl that(2,3)] that(4) by simp
  then show ?case by (rule torn_parseArray)
next
  case (3 n res r)
  show ?case
  proof (cases n)
    case (Suc m)
    show ?thesis unfolding Suc
      using 3(1)[OF Suc] 3(2)[OF Suc _ refl refl] by (rule torn_parse_elements)
  qed (simp add: torn_def)
qed

end
