(* ===== verification/Persistence.thy ===== *)
theory Persistence
  imports Replay Resp_Stream
begin

text \<open>
  The append-only log, the snapshots and the recovery of \<open>internal/persistence\<close> (\<open>aof.go\<close>,
  \<open>snapshot.go\<close>, \<open>recovery.go\<close>) over an explicit disk.

  A disk is a map from file names to contents. Every operation takes an argument \<open>io\<close> that says
  which system calls succeed, so a theorem that holds for every \<open>io\<close> covers all failures. \<open>stable\<close>
  counts the bytes of the log that a sync has put on the device; a crash may cut the log anywhere
  behind them. The time at which the \<open>i\<close>-th step of a loop reads the clock is \<open>clock i\<close>.
\<close>

section \<open>State\<close>

datatype SyncPolicy = SyncAlways | SyncEverySecond | SyncNo

datatype syscall =
    OpenLog | WriteLog | SyncLog | CloseLog | StatLog | OpenRead string
  | OpenTemp | WriteTemp nat | SyncTemp | CloseTemp | Rename | Truncate

text \<open>
  \<open>file_open\<close>: the handle \<open>file\<close> is open; it always belongs to the file \<open>fileName\<close>. \<open>wg\<close>: the
  goroutines that \<open>Close\<close> waits for. \<open>done_closed\<close>: the channel \<open>done\<close> is closed.
\<close>

record AOF =
  file_open :: bool
  fileName :: string
  snapshotName :: string
  policy :: SyncPolicy
  done_closed :: bool
  wg :: int
  growthFactor :: int
  lastRewriteSize :: int
  rewriting :: bool
  disk :: "(string, string) gomap"
  stable :: nat

record Operation =
  op_Type :: string
  op_Key :: string
  op_Value :: string
  op_TTL :: int

definition file_text :: "(string, string) gomap \<Rightarrow> string \<Rightarrow> string" where
  "file_text d name = (case gget d name of None \<Rightarrow> [] | Some s \<Rightarrow> s)"

abbreviation log_text :: "AOF \<Rightarrow> string" where
  "log_text a \<equiv> file_text (disk a) (fileName a)"

text \<open>\<open>os.OpenFile\<close> with \<open>O_CREATE\<close>: an existing file is kept as it is.\<close>

definition open_create :: "string \<Rightarrow> (string, string) gomap \<Rightarrow> (string, string) gomap" where
  "open_create name d = (if gget d name = None then gset name [] d else d)"

definition AofExists :: "(string, string) gomap \<Rightarrow> string \<Rightarrow> bool" where
  "AofExists d name \<longleftrightarrow> gget d name \<noteq> None"

definition SnapshotExists :: "(string, string) gomap \<Rightarrow> string \<Rightarrow> bool" where
  "SnapshotExists d name \<longleftrightarrow> gget d name \<noteq> None"

definition NewAOF ::
    "(syscall \<Rightarrow> bool) \<Rightarrow> string \<Rightarrow> string \<Rightarrow> SyncPolicy \<Rightarrow> int \<Rightarrow> (string, string) gomap \<Rightarrow> gerror + AOF" where
  "NewAOF io name snapName pol growth d =
     (if \<not> io OpenLog then Inl (Err ''open'')
      else let d = open_create name d
           in Inr \<lparr>file_open = True, fileName = name, snapshotName = snapName, policy = pol,
                done_closed = False, wg = (if pol = SyncEverySecond then 2 else 1),
                growthFactor = growth, lastRewriteSize = 0, rewriting = False,
                disk = d, stable = length (file_text d name)\<rparr>)"

section \<open>The log\<close>

definition write_log :: "string \<Rightarrow> AOF \<Rightarrow> AOF" where
  "write_log s a = a\<lparr>disk := gset (fileName a) (log_text a @ s) (disk a)\<rparr>"

definition sync_log :: "AOF \<Rightarrow> AOF" where
  "sync_log a = a\<lparr>stable := length (log_text a)\<rparr>"

text \<open>
  The quotient of the sizes is compared as floats in the code; for files below \<open>2 ^ 52\<close> bytes the
  comparison with the integer \<open>growthFactor\<close> is the exact one.
\<close>

definition checkRewriteTrigger :: "(syscall \<Rightarrow> bool) \<Rightarrow> AOF \<Rightarrow> AOF" where
  "checkRewriteTrigger io a =
     (if rewriting a then a
      else if \<not> (file_open a \<and> io StatLog) then a
      else let currentSize = int (length (log_text a))
           in if lastRewriteSize a = 0 then a\<lparr>lastRewriteSize := currentSize\<rparr>
              else if currentSize > growthFactor a * lastRewriteSize a
              then a\<lparr>rewriting := True, wg := wg a + 1\<rparr>
              else a)"

text \<open>A failed write may have written the first \<open>short\<close> bytes.\<close>

definition Append :: "(syscall \<Rightarrow> bool) \<Rightarrow> nat \<Rightarrow> string \<Rightarrow> AOF \<Rightarrow> gerror option \<times> AOF" where
  "Append io short s a =
     (if \<not> file_open a then (Some (Err ''file already closed''), a)
      else if \<not> io WriteLog then (Some (Err ''write''), write_log (take short s) a)
      else let a = write_log s a
           in if policy a = SyncAlways
              then if \<not> io SyncLog then (Some (Err ''fsync failed''), a)
                   else (None, checkRewriteTrigger io (sync_log a))
              else (None, checkRewriteTrigger io a))"

text \<open>One turn of the loop of \<open>periodicSync\<close>: a tick syncs, the closed channel ends the loop.\<close>

definition periodicSync :: "(syscall \<Rightarrow> bool) \<Rightarrow> AOF \<Rightarrow> AOF \<times> bool" where
  "periodicSync io a =
     (if done_closed a then (a\<lparr>wg := wg a - 1\<rparr>, False)
      else (if file_open a \<and> io SyncLog then sync_log a else a, True))"

text \<open>\<open>others\<close> is what the goroutines that \<open>Close\<close> waits for do until they end.\<close>

definition Close :: "(syscall \<Rightarrow> bool) \<Rightarrow> (AOF \<Rightarrow> AOF) \<Rightarrow> AOF \<Rightarrow> gerror option \<times> AOF" where
  "Close io others a =
     (let a = others (a\<lparr>done_closed := True\<rparr>);
          a = (if file_open a \<and> io SyncLog then sync_log a else a)
      in if \<not> file_open a then (Some (Err ''file already closed''), a)
         else if \<not> io CloseLog then (Some (Err ''close''), a\<lparr>file_open := False\<rparr>)
         else (None, a\<lparr>file_open := False\<rparr>))"

section \<open>Reading a file of requests\<close>

text \<open>
  The conversion to strings stops at the first element that is not a string; that element and
  those behind it stay empty.
\<close>

fun to_parts :: "iface list \<Rightarrow> string list" where
  "to_parts [] = []"
| "to_parts (Str s # vs) = s # to_parts vs"
| "to_parts (_ # vs) = replicate (Suc (length vs)) []"

lemma Parse_progress: "Parse r = Some (x, k) \<Longrightarrow> x \<noteq> Inl EOF \<Longrightarrow> 0 < k \<and> r \<noteq> []"
  by (cases r) (auto simp: Parse.simps)

text \<open>
  The loop that \<open>ReadOperations\<close> and \<open>LoadSnapshot\<close> share: the parts of every non-empty array in
  the file. A parse error other than the end of the file is skipped.
\<close>

function read_records :: "string \<Rightarrow> string list list option" where
  "read_records r =
     (case Parse r of
        None \<Rightarrow> None
      | Some (Inl err, k) \<Rightarrow> if err = EOF then Some [] else read_records (drop k r)
      | Some (Inr v, k) \<Rightarrow>
          (case as_slice v of
             None \<Rightarrow> read_records (drop k r)
           | Some vs \<Rightarrow>
               if vs = [] then read_records (drop k r)
               else do { rest \<leftarrow> read_records (drop k r); Some (to_parts vs # rest) }))"
  by pat_completeness auto
termination
  by (relation "measure length") (auto dest!: Parse_progress)

declare read_records.simps [simp del]

definition ttl_part :: "string list \<Rightarrow> int" where
  "ttl_part opt = (case opt of [] \<Rightarrow> 0 | s # _ \<Rightarrow> (case Atoi s of None \<Rightarrow> 0 | Some n \<Rightarrow> n))"

definition op_of_parts :: "string list \<Rightarrow> Operation" where
  "op_of_parts parts =
     (case parts of
        [] \<Rightarrow> \<lparr>op_Type = [], op_Key = [], op_Value = [], op_TTL = 0\<rparr>
      | t # args \<Rightarrow>
          (case args of
             k # v # opt \<Rightarrow>
               if t = ''SET'' then \<lparr>op_Type = t, op_Key = k, op_Value = v, op_TTL = ttl_part opt\<rparr>
               else \<lparr>op_Type = t, op_Key = (if t = ''DEL'' then k else []), op_Value = [], op_TTL = 0\<rparr>
           | [k] \<Rightarrow> \<lparr>op_Type = t, op_Key = (if t = ''DEL'' then k else []), op_Value = [], op_TTL = 0\<rparr>
           | [] \<Rightarrow> \<lparr>op_Type = t, op_Key = [], op_Value = [], op_TTL = 0\<rparr>))"

definition ReadOperations :: "(syscall \<Rightarrow> bool) \<Rightarrow> AOF \<Rightarrow> (gerror + Operation list) option" where
  "ReadOperations io a =
     (case gget (disk a) (fileName a) of
        None \<Rightarrow> Some (Inl (Err ''open''))
      | Some s \<Rightarrow>
          if \<not> io (OpenRead (fileName a)) then Some (Inl (Err ''open''))
          else do { records \<leftarrow> read_records s; Some (Inr (map op_of_parts records)) })"

section \<open>Snapshots and the rewriting of the log\<close>

text \<open>
  The loop over the captured entries in the order \<open>ord\<close>: what ends up in the temporary file, or
  \<open>None\<close> inside when a write fails.
\<close>

fun write_entries ::
    "(syscall \<Rightarrow> bool) \<Rightarrow> (nat \<Rightarrow> time) \<Rightarrow> nat \<Rightarrow> (string, SnapshotEntry) gomap \<Rightarrow> string \<Rightarrow> string option option"
where
  "write_entries io clock i [] out = Some (Some out)"
| "write_entries io clock i ((k, entry) # ord) out =
     (let ttl = (if IsZero (ExpiresAt entry) then 0 else Until (clock i) (ExpiresAt entry))
      in if ttl < 0 then write_entries io clock (Suc i) ord out
         else do {
           let ttlSeconds = Itoa (Seconds ttl);
           aofCommand \<leftarrow> EncodeArray [Str ''SET'', Str k, Str (Value entry), Str ttlSeconds];
           if \<not> io (WriteTemp i) then Some None
           else write_entries io clock (Suc i) ord (out @ aofCommand)
         })"

definition temp_aof :: "AOF \<Rightarrow> string" where
  "temp_aof a = fileName a @ ''_temp''"

definition temp_rdb :: "AOF \<Rightarrow> string" where
  "temp_rdb a = snapshotName a @ ''.temp.rdb''"

definition remove_file :: "string \<Rightarrow> AOF \<Rightarrow> AOF" where
  "remove_file name a = a\<lparr>disk := gdel name (disk a)\<rparr>"

definition rename_file :: "string \<Rightarrow> string \<Rightarrow> AOF \<Rightarrow> AOF" where
  "rename_file old new a = a\<lparr>disk := gset new (file_text (disk a) old) (gdel old (disk a))\<rparr>"

text \<open>
  The second half of \<open>rewriteAOF\<close>, under the lock of the log: close, rename, open again. The
  deferred removal of the temporary file follows on every error.
\<close>

definition swap_log :: "(syscall \<Rightarrow> bool) \<Rightarrow> AOF \<Rightarrow> gerror option \<times> AOF" where
  "swap_log io a =
     (if \<not> (file_open a \<and> io CloseLog)
      then (Some (Err ''closing file failed''), remove_file (temp_aof a) a)
      else let a = a\<lparr>file_open := False\<rparr>
           in if \<not> io Rename then (Some (Err ''renaming file failed''), remove_file (temp_aof a) a)
              else let a = rename_file (temp_aof a) (fileName a) a;
                       a = a\<lparr>stable := length (log_text a)\<rparr>
                   in if \<not> io OpenLog then (Some (Err ''failed to reopen new aof''), remove_file (temp_aof a) a)
                      else (None, a\<lparr>file_open := True, lastRewriteSize := int (length (log_text a))\<rparr>))"

text \<open>
  \<open>rewriteAOF\<close>. The log is locked for the second half only, so other goroutines may change the
  cache and append to the log in between; \<open>between\<close> is what they do.
\<close>

definition rewriteAOF ::
    "(syscall \<Rightarrow> bool) \<Rightarrow> (nat \<Rightarrow> time) \<Rightarrow> ((string, SnapshotEntry) gomap \<Rightarrow> (string, SnapshotEntry) gomap) \<Rightarrow>
     (Cache \<times> AOF \<Rightarrow> Cache \<times> AOF) \<Rightarrow> Cache \<Rightarrow> AOF \<Rightarrow> (gerror option \<times> Cache \<times> AOF) option" where
  "rewriteAOF io clock pick between c a =
     (if \<not> io OpenTemp then Some (Some (Err ''open''), c, a)
      else do {
        (snapshot, c) \<leftarrow> Snapshot c;
        written \<leftarrow> write_entries io clock 0 (pick snapshot) [];
        (case written of
           None \<Rightarrow> Some (Some (Err ''failed to write to temp AOF file''), c, remove_file (temp_aof a) a)
         | Some out \<Rightarrow>
             if \<not> io SyncTemp then Some (Some (Err ''fsync failed''), c, remove_file (temp_aof a) a)
             else if \<not> io CloseTemp then Some (Some (Err ''closing tempfile failed''), c, remove_file (temp_aof a) a)
             else let (c, a) = between (c, a\<lparr>disk := gset (temp_aof a) out (disk a)\<rparr>);
                      (err, a) = swap_log io a
                  in Some (err, c, a))
      })"

text \<open>The goroutine that \<open>checkRewriteTrigger\<close> starts.\<close>

definition rewrite_goroutine ::
    "(syscall \<Rightarrow> bool) \<Rightarrow> (nat \<Rightarrow> time) \<Rightarrow> ((string, SnapshotEntry) gomap \<Rightarrow> (string, SnapshotEntry) gomap) \<Rightarrow>
     (Cache \<times> AOF \<Rightarrow> Cache \<times> AOF) \<Rightarrow> Cache \<Rightarrow> AOF \<Rightarrow> (Cache \<times> AOF) option" where
  "rewrite_goroutine io clock pick between c a =
     (if done_closed a then Some (c, a\<lparr>rewriting := False, wg := wg a - 1\<rparr>)
      else do {
        (err, c, a) \<leftarrow> rewriteAOF io clock pick between c a;
        Some (c, a\<lparr>rewriting := False, wg := wg a - 1\<rparr>)
      })"

text \<open>The second half of \<open>CreateSnapshot\<close>, under the lock of the log.\<close>

definition swap_snapshot :: "(syscall \<Rightarrow> bool) \<Rightarrow> AOF \<Rightarrow> gerror option \<times> AOF" where
  "swap_snapshot io a =
     (if \<not> io Rename then (Some (Err ''renaming file failed''), remove_file (temp_rdb a) a)
      else let a = rename_file (temp_rdb a) (snapshotName a) a;
               a = a\<lparr>file_open := False\<rparr>
           in if \<not> io Truncate then (Some (Err ''truncating AOF failed''), remove_file (temp_rdb a) a)
              else let a = a\<lparr>disk := gset (fileName a) [] (disk a), stable := 0\<rparr>
                   in if \<not> io OpenLog then (Some (Err ''failed to reopen new aof''), remove_file (temp_rdb a) a)
                      else (None, a\<lparr>file_open := True\<rparr>))"

definition CreateSnapshot ::
    "(syscall \<Rightarrow> bool) \<Rightarrow> (nat \<Rightarrow> time) \<Rightarrow> ((string, SnapshotEntry) gomap \<Rightarrow> (string, SnapshotEntry) gomap) \<Rightarrow>
     (Cache \<times> AOF \<Rightarrow> Cache \<times> AOF) \<Rightarrow> Cache \<Rightarrow> AOF \<Rightarrow> (gerror option \<times> Cache \<times> AOF) option" where
  "CreateSnapshot io clock pick between c a =
     (if \<not> io OpenTemp then Some (Some (Err ''open''), c, a)
      else do {
        (snapshot, c) \<leftarrow> Snapshot c;
        written \<leftarrow> write_entries io clock 0 (pick snapshot) [];
        (case written of
           None \<Rightarrow> Some (Some (Err ''failed to write to temp AOF file''), c, remove_file (temp_rdb a) a)
         | Some out \<Rightarrow>
             if \<not> io SyncTemp then Some (Some (Err ''fsync failed''), c, remove_file (temp_rdb a) a)
             else if \<not> io CloseTemp then Some (Some (Err ''closing tempfile failed''), c, remove_file (temp_rdb a) a)
             else let (c, a) = between (c, a\<lparr>disk := gset (temp_rdb a) out (disk a)\<rparr>);
                      (err, a) = swap_snapshot io a
                  in Some (err, c, a))
      })"

text \<open>One turn of \<open>checkSnapshotTrigger\<close>.\<close>

definition checkSnapshotTrigger ::
    "(syscall \<Rightarrow> bool) \<Rightarrow> (nat \<Rightarrow> time) \<Rightarrow> ((string, SnapshotEntry) gomap \<Rightarrow> (string, SnapshotEntry) gomap) \<Rightarrow>
     (Cache \<times> AOF \<Rightarrow> Cache \<times> AOF) \<Rightarrow> Cache \<Rightarrow> AOF \<Rightarrow> (Cache \<times> AOF \<times> bool) option" where
  "checkSnapshotTrigger io clock pick between c a =
     (if done_closed a then Some (c, a\<lparr>wg := wg a - 1\<rparr>, False)
      else do {
        (err, c, a) \<leftarrow> CreateSnapshot io clock pick between c a;
        Some (c, a, True)
      })"

section \<open>Recovery\<close>

definition load_record :: "time \<times> string list \<Rightarrow> Cache \<Rightarrow> Cache option" where
  "load_record = (\<lambda>(now, parts) c.
     case parts of
       t # k # v # opt \<Rightarrow> if t = ''SET'' then Set now k v (seconds_dur (ttl_part opt)) c else Some c
     | _ \<Rightarrow> Some c)"

definition LoadSnapshot ::
    "(syscall \<Rightarrow> bool) \<Rightarrow> (nat \<Rightarrow> time) \<Rightarrow> AOF \<Rightarrow> Cache \<Rightarrow> (gerror option \<times> Cache) option" where
  "LoadSnapshot io clock a c =
     (case gget (disk a) (snapshotName a) of
        None \<Rightarrow> Some (Some (Err ''failed to open snapshot''), c)
      | Some s \<Rightarrow>
          if \<not> io (OpenRead (snapshotName a)) then Some (Some (Err ''failed to open snapshot''), c)
          else do {
            records \<leftarrow> read_records s;
            c \<leftarrow> foreach load_record (zip (map clock [0..<length records]) records) c;
            Some (None, c)
          })"

definition apply_op :: "time \<times> Operation \<Rightarrow> Cache \<Rightarrow> Cache option" where
  "apply_op = (\<lambda>(now, op) c.
     if op_Type op = ''SET'' then Set now (op_Key op) (op_Value op) (seconds_dur (op_TTL op)) c
     else if op_Type op = ''DEL'' then Delete (op_Key op) c
     else Some c)"

text \<open>\<open>clockS\<close> and \<open>clockA\<close>: the times at which the entries of the two files are applied.\<close>

definition RecoverAOF ::
    "(syscall \<Rightarrow> bool) \<Rightarrow> (nat \<Rightarrow> time) \<Rightarrow> (nat \<Rightarrow> time) \<Rightarrow> AOF \<Rightarrow> string \<Rightarrow> string \<Rightarrow> Cache \<Rightarrow>
     (gerror option \<times> Cache) option" where
  "RecoverAOF io clockS clockA a aofName snapName c = do {
     (err, c) \<leftarrow> (if SnapshotExists (disk a) snapName then LoadSnapshot io clockS a c else Some (None, c));
     (case err of
        Some e \<Rightarrow> Some (Some (Err ''error loading snapshot''), c)
      | None \<Rightarrow>
          if \<not> AofExists (disk a) aofName then Some (None, c)
          else do {
            ops \<leftarrow> ReadOperations io a;
            (case ops of
               Inl e \<Rightarrow> Some (Some (Err ''error reading operations from aof''), c)
             | Inr ops \<Rightarrow> do {
                 c \<leftarrow> foreach apply_op (zip (map clockA [0..<length ops]) ops) c;
                 Some (None, c)
               })
          })
   }"

section \<open>What a log contains\<close>

text \<open>The requests that are written for an operation, and their bytes.\<close>

definition log_command :: "Operation \<Rightarrow> iface list" where
  "log_command op =
     (if op_Type op = ''SET''
      then [Str ''SET'', Str (op_Key op), Str (op_Value op), Str (Itoa (op_TTL op))]
      else [Str ''DEL'', Str (op_Key op)])"

definition op_bytes :: "Operation \<Rightarrow> string" where
  "op_bytes op = (case EncodeArray (log_command op) of None \<Rightarrow> [] | Some e \<Rightarrow> e)"

definition log_bytes :: "Operation list \<Rightarrow> string" where
  "log_bytes ops = concat (map op_bytes ops)"

definition op_wf :: "Operation \<Rightarrow> bool" where
  "op_wf op \<longleftrightarrow> int (length (op_Key op)) \<le> 281474976710656 \<and> int (length (op_Value op)) \<le> 281474976710656 \<and>
     (op_Type op = ''SET'' \<and> in_i64 (op_TTL op) \<or> op_Type op = ''DEL'' \<and> op_Value op = [] \<and> op_TTL op = 0)"

definition op_parts :: "Operation \<Rightarrow> string list" where
  "op_parts op = to_parts (log_command op)"

lemma log_bytes_simps [simp]:
  "log_bytes [] = []" "log_bytes (op # ops) = op_bytes op @ log_bytes ops"
  "log_bytes (ops @ ops') = log_bytes ops @ log_bytes ops'"
  by (simp_all add: log_bytes_def)

lemma Itoa_length: "in_i64 n \<Longrightarrow> int (length (Itoa n)) \<le> 281474976710656"
proof -
  assume "in_i64 n"
  have d: "m < 10 ^ k \<Longrightarrow> 0 < k \<Longrightarrow> length (digits m) \<le> k" if "0 \<le> m" for m :: int and k
    using that
  proof (induction k arbitrary: m)
    case (Suc k)
    show ?case
    proof (cases "m < 10")
      case False
      then have "0 < k" using Suc.prems(1) by (cases k) auto
      moreover have "m div 10 < 10 ^ k" using Suc.prems(1) by simp
      ultimately have "length (digits (m div 10)) \<le> k" using Suc.IH[of "m div 10"] Suc.prems(3) by simp
      with False show ?thesis by (simp add: digits.simps[of m])
    qed (simp add: digits.simps[of m])
  qed simp
  have "length (digits \<bar>n\<bar>) \<le> 20"
    using \<open>in_i64 n\<close> by (intro d) (auto simp: in_i64_def)
  then show ?thesis by (cases "n < 0") (auto simp: Itoa_def)
qed

lemma Parse_op_bytes:
  assumes "op_wf op"
  shows "Parse (op_bytes op @ rest) = Some (Inr (Slice (log_command op)), length (op_bytes op))"
proof -
  have "\<forall>v \<in> set (log_command op). fits v" and "int (length (log_command op)) \<le> 17592186044416"
    using assms Itoa_length by (auto simp: log_command_def op_wf_def)
  from Parse_EncodeArray[OF this, of rest] obtain e where e: "EncodeArray (log_command op) = Some e"
    "Parse (e @ rest) = Some (Inr (Slice (map parsed (log_command op))), length e)" by blast
  moreover have "map parsed (log_command op) = log_command op" by (simp add: log_command_def)
  ultimately show ?thesis by (simp add: op_bytes_def)
qed

lemma log_command_not_Nil [simp]: "log_command op \<noteq> []"
  by (simp add: log_command_def)

lemma op_of_parts_wf: "op_wf op \<Longrightarrow> op_of_parts (op_parts op) = op"
  by (auto simp: op_wf_def op_parts_def log_command_def op_of_parts_def ttl_part_def Atoi_Itoa)

lemma read_records_Nil [simp]: "read_records [] = Some []"
  by (simp add: read_records.simps Parse.simps)

lemma read_records_op:
  "op_wf op \<Longrightarrow> read_records (op_bytes op @ rest) = map_option ((#) (op_parts op)) (read_records rest)"
  by (subst read_records.simps) (auto simp: Parse_op_bytes op_parts_def split: Option.bind_splits)

lemma read_records_log:
  "list_all op_wf ops \<Longrightarrow> read_records (log_bytes ops @ rest) = map_option (\<lambda>x. map op_parts ops @ x) (read_records rest)"
  by (cases "read_records rest"; induction ops) (simp_all add: read_records_op)

lemma read_records_torn:
  assumes "op_wf op" and "n < length (op_bytes op)"
  shows "read_records (take n (op_bytes op)) = Some []"
proof -
  obtain err where "Parse (take n (op_bytes op)) = Some (Inl err, n)"
    using tornD[OF parser_torn(1) Parse_op_bytes[OF assms(1), of "[]", simplified] assms(2)] by blast
  then show ?thesis by (subst read_records.simps) simp
qed

lemma read_records_cut:
  assumes "list_all op_wf ops" and "n \<le> length (log_bytes ops)"
  shows "\<exists>m \<le> length ops. read_records (take n (log_bytes ops)) = Some (map op_parts (take m ops)) \<and>
    length (log_bytes (take m ops)) \<le> n \<and> (m < length ops \<longrightarrow> n < length (log_bytes (take (Suc m) ops)))"
  using assms
proof (induction ops arbitrary: n)
  case Nil
  then show ?case by simp
next
  case (Cons op ops)
  show ?case
  proof (cases "n < length (op_bytes op)")
    case True
    then show ?thesis using read_records_torn[of op n] Cons.prems by (intro exI[of _ 0]) simp
  next
    case False
    let ?n = "n - length (op_bytes op)"
    obtain m where m: "m \<le> length ops" "read_records (take ?n (log_bytes ops)) = Some (map op_parts (take m ops))"
      "length (log_bytes (take m ops)) \<le> ?n" "m < length ops \<longrightarrow> ?n < length (log_bytes (take (Suc m) ops))"
      using Cons.IH[of ?n] Cons.prems by (fastforce simp: le_diff_conv)
    have "read_records (take n (log_bytes (op # ops))) = Some (map op_parts (take (Suc m) (op # ops)))"
      using False m(2) Cons.prems(1) by (simp add: read_records_op)
    with m False show ?thesis by (intro exI[of _ "Suc m"]) auto
  qed
qed

lemma map_op_of_parts: "list_all op_wf ops \<Longrightarrow> map op_of_parts (map op_parts ops) = ops"
  by (induction ops) (auto simp: op_of_parts_wf)

lemma list_all_take: "list_all P xs \<Longrightarrow> list_all P (take n xs)"
  by (auto simp: list_all_iff dest: in_set_takeD)

lemma ReadOperations_cut:
  assumes "list_all op_wf ops" and "n \<le> length (log_bytes ops)"
    and "gget (disk a) (fileName a) = Some (take n (log_bytes ops))" and "io (OpenRead (fileName a))"
  shows "\<exists>m \<le> length ops. ReadOperations io a = Some (Inr (take m ops)) \<and>
    length (log_bytes (take m ops)) \<le> n \<and> (m < length ops \<longrightarrow> n < length (log_bytes (take (Suc m) ops)))"
proof -
  obtain m where m: "m \<le> length ops" "read_records (take n (log_bytes ops)) = Some (map op_parts (take m ops))"
    "length (log_bytes (take m ops)) \<le> n" "m < length ops \<longrightarrow> n < length (log_bytes (take (Suc m) ops))"
    using read_records_cut[OF assms(1,2)] by blast
  have "map (op_of_parts \<circ> op_parts) (take m ops) = take m ops"
    using map_op_of_parts[OF list_all_take[OF assms(1), of m]] by simp
  with m assms(3,4) show ?thesis by (intro exI[of _ m]) (simp add: ReadOperations_def)
qed

section \<open>Appending\<close>

text \<open>
  A sequence of appends: for each the outcomes of its system calls, the length of a short write
  and the operation. The errors come back in order.
\<close>

fun appends :: "((syscall \<Rightarrow> bool) \<times> nat \<times> Operation) list \<Rightarrow> AOF \<Rightarrow> gerror option list \<times> AOF" where
  "appends [] a = ([], a)"
| "appends ((io, short, op) # xs) a =
     (let (err, a) = Append io short (op_bytes op) a; (errs, a) = appends xs a in (err # errs, a))"

lemma file_text_gset [simp]: "file_text (gset k s d) n = (if n = k then s else file_text d n)"
  by (simp add: file_text_def gget_gset)

lemma file_text_gdel [simp]: "file_text (gdel k d) n = (if n = k then [] else file_text d n)"
  by (simp add: file_text_def gget_gdel)

lemma checkRewriteTrigger_simps [simp]:
  "disk (checkRewriteTrigger io a) = disk a" "fileName (checkRewriteTrigger io a) = fileName a"
  "file_open (checkRewriteTrigger io a) = file_open a" "policy (checkRewriteTrigger io a) = policy a"
  "stable (checkRewriteTrigger io a) = stable a" "snapshotName (checkRewriteTrigger io a) = snapshotName a"
  by (simp_all add: checkRewriteTrigger_def Let_def)

lemma write_log_simps [simp]:
  "fileName (write_log s a) = fileName a" "file_open (write_log s a) = file_open a"
  "policy (write_log s a) = policy a" "stable (write_log s a) = stable a"
  "file_text (disk (write_log s a)) (fileName a) = log_text a @ s"
  "snapshotName (write_log s a) = snapshotName a" "gget (disk (write_log s a)) (fileName a) = Some (log_text a @ s)"
  by (simp_all add: write_log_def gget_gset)

lemma sync_log_simps [simp]:
  "fileName (sync_log a) = fileName a" "file_open (sync_log a) = file_open a" "disk (sync_log a) = disk a"
  "policy (sync_log a) = policy a" "stable (sync_log a) = length (log_text a)"
  "snapshotName (sync_log a) = snapshotName a"
  by (simp_all add: sync_log_def)

lemma Append_written:
  assumes "Append io short s a = (err, a')" and "file_open a" and "io WriteLog"
  shows "log_text a' = log_text a @ s" "file_open a'" "fileName a' = fileName a" "policy a' = policy a"
    "snapshotName a' = snapshotName a" "err = None \<longrightarrow> policy a = SyncAlways \<longrightarrow> stable a' = length (log_text a')"
    "stable a \<le> length (log_text a) \<longrightarrow> stable a \<le> stable a' \<and> stable a' \<le> length (log_text a')"
    "gget (disk a') (fileName a) \<noteq> None"
  using assms by (auto simp: Append_def Let_def split: if_splits)

lemma appends_written:
  assumes "appends xs a = (errs, a')" and "file_open a" and "policy a = SyncAlways"
    and "\<forall>x \<in> set xs. fst x WriteLog" and "stable a \<le> length (log_text a)"
  shows "log_text a' = log_text a @ log_bytes (map (snd \<circ> snd) xs) \<and> fileName a' = fileName a \<and>
    length errs = length xs \<and> stable a \<le> stable a' \<and>
    (\<forall>i < length xs. errs ! i = None \<longrightarrow>
       length (log_text a @ log_bytes (map (snd \<circ> snd) (take (Suc i) xs))) \<le> stable a') \<and>
    (xs \<noteq> [] \<longrightarrow> gget (disk a') (fileName a) \<noteq> None)"
  using assms
proof (induction xs arbitrary: a errs)
  case (Cons x xs)
  obtain io short op where x: "x = (io, short, op)" by (cases x)
  obtain err a1 where a1: "Append io short (op_bytes op) a = (err, a1)" by (cases "Append io short (op_bytes op) a")
  obtain errs1 where e1: "appends xs a1 = (errs1, a')" "errs = err # errs1"
    using Cons.prems(1) by (auto simp: x a1 split: prod.splits)
  have w: "io WriteLog" using Cons.prems(4) by (simp add: x)
  note A = Append_written[OF a1 Cons.prems(2) w]
  have IH: "log_text a' = log_text a1 @ log_bytes (map (snd \<circ> snd) xs) \<and> fileName a' = fileName a1 \<and>
    length errs1 = length xs \<and> stable a1 \<le> stable a' \<and>
    (\<forall>i < length xs. errs1 ! i = None \<longrightarrow>
       length (log_text a1 @ log_bytes (map (snd \<circ> snd) (take (Suc i) xs))) \<le> stable a') \<and>
    (xs \<noteq> [] \<longrightarrow> gget (disk a') (fileName a1) \<noteq> None)"
    using A Cons.prems(3,4,5) by (intro Cons.IH[OF e1(1)]) auto
  have acked: "length (log_text a @ log_bytes (map (snd \<circ> snd) (take (Suc i) (x # xs)))) \<le> stable a'"
    if i: "i < length (x # xs)" "errs ! i = None" for i
  proof (cases i)
    case 0
    then show ?thesis using i A(1,6) A(3) IH Cons.prems(3) by (simp add: x e1(2))
  next
    case (Suc j)
    then have "length (log_text a1 @ log_bytes (map (snd \<circ> snd) (take (Suc j) xs))) \<le> stable a'"
      using i IH by (simp add: e1(2))
    then show ?thesis using A(1,3) Suc by (simp add: x)
  qed
  show ?case
  proof (intro conjI allI impI)
    show "log_text a' = log_text a @ log_bytes (map (snd \<circ> snd) (x # xs))" using IH A(1,3) by (auto simp: x)
    show "stable a \<le> stable a'" using IH A(7) Cons.prems(5) le_trans by blast
    show "gget (disk a') (fileName a) \<noteq> None" using IH A(3,8) e1(1) by (cases xs) auto
    show "fileName a' = fileName a" "length errs = length (x # xs)" using IH A(3) e1(2) by simp_all
  qed (rule acked)
qed simp

section \<open>Replaying\<close>

definition op_eff :: "time \<times> Operation \<Rightarrow> (string \<Rightarrow> (string \<times> time) option) \<Rightarrow> string \<Rightarrow> (string \<times> time) option" where
  "op_eff = (\<lambda>(now, op) m.
     if op_Type op = ''SET'' then m(op_Key op \<mapsto> (op_Value op, expiry now (seconds_dur (op_TTL op))))
     else if op_Type op = ''DEL'' then m(op_Key op := None)
     else m)"

definition op_keys :: "time \<times> Operation \<Rightarrow> string set" where
  "op_keys x = {op_Key (snd x)}"

interpretation log: op_store apply_op op_eff op_keys entries cache_ready cache_room
proof
  fix c :: Cache and K and op :: "time \<times> Operation"
  assume "cache_ready c" "finite K" "dom (entries c) \<union> op_keys op \<subseteq> K" "card K \<le> cache_room c"
  then have "\<exists>c'. Set now (op_Key (snd op)) v ttl c = Some c' \<and> cache_ready c' \<and>
      entries c' = (entries c)(op_Key (snd op) \<mapsto> (v, expiry now ttl)) \<and> maxSize c' = maxSize c" for now v ttl
    by (intro Set_ready[of c K]) (auto simp: op_keys_def)
  then show "\<exists>c'. apply_op op c = Some c' \<and> cache_ready c' \<and> entries c' = op_eff op (entries c) \<and>
      cache_room c' = cache_room c"
    using Delete_ready[OF \<open>cache_ready c\<close>, of "op_Key (snd op)"] \<open>cache_ready c\<close>
    by (cases op) (simp add: apply_op_def op_eff_def cache_room_def, metis)
next
  fix op :: "time \<times> Operation" and m :: "string \<Rightarrow> (string \<times> time) option"
  show "dom (op_eff op m) \<subseteq> dom m \<union> op_keys op"
    by (cases op) (auto simp: op_eff_def op_keys_def split: if_splits)
qed

lemma zip_times: "length ts = length ops \<Longrightarrow> (\<Union>x \<in> set (zip ts ops). op_keys x) = op_Key ` set ops"
  by (induction ts ops rule: list_induct2) (auto simp: op_keys_def)

text \<open>Recovery from a log alone.\<close>

lemma RecoverAOF_log:
  assumes ops: "list_all op_wf ops" and log: "gget (disk a) (fileName a) = Some (log_bytes ops)"
    and io: "io (OpenRead (fileName a))" and snap: "gget (disk a) (snapshotName a) = None"
    and room: "int (card (op_Key ` set ops)) \<le> cap"
  shows "\<exists>c. RecoverAOF io clockS clockA a (fileName a) (snapshotName a) (NewCache cap ms) = Some (None, c) \<and>
    cache_ready c \<and> entries c = fold op_eff (zip (map clockA [0..<length ops]) ops) Map.empty \<and> cache_room c = nat cap"
proof -
  have "ReadOperations io a = Some (Inr ops)"
    using read_records_log[OF ops, of "[]"] map_op_of_parts[OF ops] log io by (simp add: ReadOperations_def)
  moreover have "\<exists>c. foreach apply_op (zip (map clockA [0..<length ops]) ops) (NewCache cap ms) = Some c \<and>
      cache_ready c \<and> entries c = fold op_eff (zip (map clockA [0..<length ops]) ops) (entries (NewCache cap ms)) \<and>
      cache_room c = cache_room (NewCache cap ms)"
    using cache_ready_New room
    by (intro log.replay[where K = "op_Key ` set ops"]) (auto simp: zip_times cache_room_def NewCache_def)
  ultimately show ?thesis
    using log snap cache_ready_New by (auto simp: RecoverAOF_def SnapshotExists_def AofExists_def cache_room_def NewCache_def)
qed

section \<open>What a snapshot contains\<close>

text \<open>The operations that stand for the captured entries at the time \<open>now\<close>.\<close>

definition left_ttl :: "time \<Rightarrow> time \<Rightarrow> duration" where
  "left_ttl now t = (if IsZero t then 0 else Until now t)"

definition snapshot_ops :: "time \<Rightarrow> (string, SnapshotEntry) gomap \<Rightarrow> Operation list" where
  "snapshot_ops now ord =
     map (\<lambda>(k, e). \<lparr>op_Type = ''SET'', op_Key = k, op_Value = Value e, op_TTL = Seconds (left_ttl now (ExpiresAt e))\<rparr>)
       (filter (\<lambda>(k, e). 0 \<le> left_ttl now (ExpiresAt e)) ord)"

lemma write_entries_ops:
  assumes "\<forall>i. io (WriteTemp i)" and "list_all op_wf (snapshot_ops now ord)"
  shows "write_entries io (\<lambda>_. now) i ord out = Some (Some (out @ log_bytes (snapshot_ops now ord)))"
  using assms(2)
proof (induction ord arbitrary: i out)
  case (Cons x ord)
  obtain k e where x: "x = (k, e)" by (cases x)
  show ?case
  proof (cases "0 \<le> left_ttl now (ExpiresAt e)")
    case True
    let ?op = "\<lparr>op_Type = ''SET'', op_Key = k, op_Value = Value e, op_TTL = Seconds (left_ttl now (ExpiresAt e))\<rparr>"
    have wf: "op_wf ?op" "list_all op_wf (snapshot_ops now ord)"
      using Cons.prems True by (simp_all add: x snapshot_ops_def)
    obtain b where b: "EncodeArray (log_command ?op) = Some b"
      using Parse_op_bytes[OF wf(1), of "[]"] by (cases "EncodeArray (log_command ?op)") (auto simp: op_bytes_def Parse.simps)
    then have "EncodeArray [Str ''SET'', Str k, Str (Value e), Str (Itoa (Seconds (left_ttl now (ExpiresAt e))))] = Some (op_bytes ?op)"
      by (simp add: op_bytes_def log_command_def)
    moreover have "snapshot_ops now (x # ord) = ?op # snapshot_ops now ord"
      using True by (simp add: x snapshot_ops_def)
    ultimately show ?thesis
      using True Cons.IH[OF wf(2)] assms(1) by (simp add: x left_ttl_def Let_def)
  next
    case False
    then have "snapshot_ops now (x # ord) = snapshot_ops now ord" by (simp add: x snapshot_ops_def)
    with False Cons show ?thesis by (simp add: x left_ttl_def Let_def)
  qed
qed (simp add: snapshot_ops_def)

text \<open>What remains of an entry: the expiry starts again with the whole seconds that were left.\<close>

definition restarted :: "time \<Rightarrow> time \<Rightarrow> (string \<Rightarrow> (string \<times> time) option) \<Rightarrow> string \<Rightarrow> (string \<times> time) option" where
  "restarted now later m k =
     (case m k of
        None \<Rightarrow> None
      | Some (v, t) \<Rightarrow>
          if left_ttl now t < 0 then None
          else Some (v, expiry later (seconds_dur (Seconds (left_ttl now t)))))"

lemma snapshot_ops_keys: "op_Key ` set (snapshot_ops now ord) \<subseteq> fst ` set ord"
  by (force simp: snapshot_ops_def)

lemma snapshot_ops_SET: "op \<in> set (snapshot_ops now ord) \<Longrightarrow> op_Type op = ''SET''"
  by (auto simp: snapshot_ops_def)

lemma fold_op_eff_snapshot:
  assumes "gmap_ok ord"
  shows "fold op_eff (map (Pair later) (snapshot_ops now ord)) m k =
    (case map_of ord k of
       None \<Rightarrow> m k
     | Some e \<Rightarrow> if left_ttl now (ExpiresAt e) < 0 then m k
               else Some (Value e, expiry later (seconds_dur (Seconds (left_ttl now (ExpiresAt e))))))"
  using assms
proof (induction ord arbitrary: m)
  case (Cons x ord)
  obtain k' e where x: "x = (k', e)" by (cases x)
  have "gmap_ok ord" "map_of ord k' = None"
    using Cons.prems by (auto simp: gmap_ok_def x map_of_eq_None_iff)
  with Cons.IH show ?case
    by (auto simp: x snapshot_ops_def op_eff_def split: option.splits)
qed (simp add: snapshot_ops_def)

lemma load_record_op: "op_Type op = ''SET'' \<Longrightarrow> op_wf op \<Longrightarrow> load_record (t, op_parts op) = apply_op (t, op)"
  by (rule ext) (auto simp: load_record_def apply_op_def op_parts_def log_command_def ttl_part_def op_wf_def Atoi_Itoa)

lemma load_records_ops:
  assumes "list_all op_wf ops" and "\<forall>op \<in> set ops. op_Type op = ''SET''" and "length ts = length ops"
  shows "foreach load_record (zip ts (map op_parts ops)) c = foreach apply_op (zip ts ops) c"
  using assms(3,1,2)
  by (induction ts ops arbitrary: c rule: list_induct2) (auto simp: load_record_op split: Option.bind_splits)

lemma EncodeArray_strings: "\<exists>e. EncodeArray (map Str ss) = Some e"
proof -
  have "\<exists>r'. foreach (\<lambda>v result. do { e \<leftarrow> encode_element v; Some (result @ e) }) (map Str ss) r = Some r'" for r
    by (induction ss arbitrary: r) auto
  then show ?thesis by (simp add: EncodeArray_def)
qed

lemma write_entries_total: "\<exists>w. write_entries io clock i ord out = Some w"
proof (induction ord arbitrary: i out)
  case (Cons x ord)
  obtain k e where x: "x = (k, e)" by (cases x)
  define ttl where "ttl = (if IsZero (ExpiresAt e) then 0 else Until (clock i) (ExpiresAt e))"
  obtain b where "EncodeArray [Str ''SET'', Str k, Str (Value e), Str (Itoa (Seconds ttl))] = Some b"
    using EncodeArray_strings[of "[''SET'', k, Value e, Itoa (Seconds ttl)]"] by auto
  then show ?case
    using Cons unfolding x write_entries.simps Let_def ttl_def[symmetric] by auto
qed simp

end
