(* ===== verification/Config.thy ===== *)
theory Config
  imports Persistence
begin

text \<open>
  The configuration of a node (\<open>internal/config/config.go\<close> and the order in which
  \<open>cmd/server/main.go\<close> combines its sources): defaults, command line flags, the file, and the
  flags again; and the look-ups in the cluster description.

  The YAML library and the file system are parameters: \<open>readFile\<close> and \<open>unmarshal\<close>. The flags that
  were given on the command line are a list of names and values, the values in the decimal form
  that \<open>flag.Value.String\<close> returns.
\<close>

section \<open>Data\<close>

record NodeInfo =
  n_ID :: string
  n_Host :: string
  n_Port :: int
  n_ReplPort :: int
  n_Priority :: int
  n_ShardID :: string
  n_Role :: string

record ShardInfo =
  sh_ShardID :: string
  sh_LeaderID :: string
  sh_Followers :: "string list"

record yamlConfig =
  y_Port :: int
  y_MetricsPort :: int
  y_MaxCacheSize :: int
  y_Role :: string
  y_LeaderAddr :: string
  y_ReplPort :: int
  y_AOFFileName :: string
  y_SnapshotFileName :: string
  y_SyncPolicy :: string
  y_SnapshotIntervalSeconds :: int
  y_GrowthFactor :: int
  y_NodeID :: string
  y_Nodes :: "NodeInfo list"
  y_Shards :: "ShardInfo list"
  y_LogLevel :: string

record Config =
  c_Port :: int
  c_MetricsPort :: int
  c_MaxCacheSize :: int
  c_Role :: string
  c_LeaderAddr :: string
  c_Priority :: int
  c_ReplPort :: int
  c_PeerReplAddrs :: string
  c_AOFFileName :: string
  c_SnapshotFileName :: string
  c_SyncPolicy :: string
  c_SnapshotInterval :: duration
  c_GrowthFactor :: int
  c_NodeID :: string
  c_Nodes :: "NodeInfo list"
  c_Shards :: "ShardInfo list"
  c_LogLevel :: string

section \<open>Sources\<close>

definition DefaultConfig :: Config where
  "DefaultConfig = \<lparr>c_Port = 7000, c_MetricsPort = 9090, c_MaxCacheSize = 1000, c_Role = ''leader'',
     c_LeaderAddr = ''localhost:7001'', c_Priority = 0, c_ReplPort = 0, c_PeerReplAddrs = [],
     c_AOFFileName = ''cache.aof'', c_SnapshotFileName = ''cache.rdb'', c_SyncPolicy = ''everysecond'',
     c_SnapshotInterval = 300 * Second, c_GrowthFactor = 2, c_NodeID = [], c_Nodes = [], c_Shards = [],
     c_LogLevel = ''info''\<rparr>"

definition LoadFromFile ::
    "(string \<Rightarrow> gerror + string) \<Rightarrow> (string \<Rightarrow> gerror + yamlConfig) \<Rightarrow> string \<Rightarrow> gerror + Config" where
  "LoadFromFile readFile unmarshal name =
     (case readFile name of
        Inl err \<Rightarrow> Inl err
      | Inr contents \<Rightarrow>
          (case unmarshal contents of
             Inl err \<Rightarrow> Inl err
           | Inr yc \<Rightarrow> Inr \<lparr>c_Port = y_Port yc, c_MetricsPort = y_MetricsPort yc,
               c_MaxCacheSize = y_MaxCacheSize yc, c_Role = y_Role yc, c_LeaderAddr = y_LeaderAddr yc,
               c_Priority = 0, c_ReplPort = y_ReplPort yc, c_PeerReplAddrs = [],
               c_AOFFileName = y_AOFFileName yc, c_SnapshotFileName = y_SnapshotFileName yc,
               c_SyncPolicy = y_SyncPolicy yc,
               c_SnapshotInterval = seconds_dur (y_SnapshotIntervalSeconds yc),
               c_GrowthFactor = y_GrowthFactor yc, c_NodeID = y_NodeID yc, c_Nodes = y_Nodes yc,
               c_Shards = y_Shards yc, c_LogLevel = y_LogLevel yc\<rparr>))"

definition GetSyncPolicy :: "Config \<Rightarrow> SyncPolicy" where
  "GetSyncPolicy c =
     (if c_SyncPolicy c = ''always'' then SyncAlways
      else if c_SyncPolicy c = ''everysecond'' then SyncEverySecond
      else if c_SyncPolicy c = ''no'' then SyncNo
      else SyncEverySecond)"

text \<open>\<open>fmt.Sscanf(s, "%d", &x)\<close>: the old value stays when the text is no number.\<close>

definition scan_int :: "string \<Rightarrow> int \<Rightarrow> int" where
  "scan_int s old = (case Atoi s of None \<Rightarrow> old | Some n \<Rightarrow> n)"

text \<open>One flag that the \<open>flag\<close> package stores, with the names that \<open>ParseFlags\<close> registers.\<close>

definition parse_flag :: "string \<times> string \<Rightarrow> Config \<Rightarrow> Config" where
  "parse_flag = (\<lambda>(name, v) cfg.
     if name = ''port'' then cfg\<lparr>c_Port := scan_int v (c_Port cfg)\<rparr>
     else if name = ''metrics_port'' then cfg\<lparr>c_MetricsPort := scan_int v (c_MetricsPort cfg)\<rparr>
     else if name = ''max-size'' then cfg\<lparr>c_MaxCacheSize := scan_int v (c_MaxCacheSize cfg)\<rparr>
     else if name = ''role'' then cfg\<lparr>c_Role := v\<rparr>
     else if name = ''leader-addr'' then cfg\<lparr>c_LeaderAddr := v\<rparr>
     else if name = ''priority'' then cfg\<lparr>c_Priority := scan_int v (c_Priority cfg)\<rparr>
     else if name = ''repl-port'' then cfg\<lparr>c_ReplPort := scan_int v (c_ReplPort cfg)\<rparr>
     else if name = ''peer-repl-addrs'' then cfg\<lparr>c_PeerReplAddrs := v\<rparr>
     else if name = ''node-id'' then cfg\<lparr>c_NodeID := v\<rparr>
     else if name = ''aof-file'' then cfg\<lparr>c_AOFFileName := v\<rparr>
     else if name = ''snapshot-file'' then cfg\<lparr>c_SnapshotFileName := v\<rparr>
     else if name = ''sync-policy'' then cfg\<lparr>c_SyncPolicy := v\<rparr>
     else if name = ''growth-factor'' then cfg\<lparr>c_GrowthFactor := scan_int v (c_GrowthFactor cfg)\<rparr>
     else cfg)"

definition flag_value :: "string \<Rightarrow> string \<Rightarrow> (string \<times> string) list \<Rightarrow> string" where
  "flag_value name dflt flags = (case map_of (rev flags) name of None \<Rightarrow> dflt | Some v \<Rightarrow> v)"

definition ParseFlags :: "(string \<times> string) list \<Rightarrow> Config \<Rightarrow> string \<times> Config" where
  "ParseFlags flags cfg =
     (let seconds = scan_int (flag_value ''snapshot-interval'' [] flags) (Seconds (c_SnapshotInterval cfg));
          cfg = fold parse_flag flags cfg
      in (flag_value ''config'' ''config.yaml'' flags, cfg\<lparr>c_SnapshotInterval := seconds_dur seconds\<rparr>))"

definition apply_flag :: "string \<times> string \<Rightarrow> Config \<Rightarrow> Config" where
  "apply_flag = (\<lambda>(name, v) cfg.
     if name = ''port'' then cfg\<lparr>c_Port := scan_int v (c_Port cfg)\<rparr>
     else if name = ''metrics-port'' then cfg\<lparr>c_MetricsPort := scan_int v (c_MetricsPort cfg)\<rparr>
     else if name = ''max-size'' then cfg\<lparr>c_MaxCacheSize := scan_int v (c_MaxCacheSize cfg)\<rparr>
     else if name = ''role'' then cfg\<lparr>c_Role := v\<rparr>
     else if name = ''leader-addr'' then cfg\<lparr>c_LeaderAddr := v\<rparr>
     else if name = ''priority'' then cfg\<lparr>c_Priority := scan_int v (c_Priority cfg)\<rparr>
     else if name = ''repl-port'' then cfg\<lparr>c_ReplPort := scan_int v (c_ReplPort cfg)\<rparr>
     else if name = ''peer-repl-addrs'' then cfg\<lparr>c_PeerReplAddrs := v\<rparr>
     else if name = ''node-id'' then cfg\<lparr>c_NodeID := v\<rparr>
     else if name = ''aof-file'' then cfg\<lparr>c_AOFFileName := v\<rparr>
     else if name = ''snapshot-file'' then cfg\<lparr>c_SnapshotFileName := v\<rparr>
     else if name = ''sync-policy'' then cfg\<lparr>c_SyncPolicy := v\<rparr>
     else if name = ''growth-factor'' then cfg\<lparr>c_GrowthFactor := scan_int v (c_GrowthFactor cfg)\<rparr>
     else if name = ''snapshot-interval'' then cfg\<lparr>c_SnapshotInterval := seconds_dur (scan_int v 0)\<rparr>
     else cfg)"

definition ApplyFlags :: "(string \<times> string) list \<Rightarrow> Config \<Rightarrow> Config" where
  "ApplyFlags flags cfg = fold apply_flag flags cfg"

text \<open>The configuration that \<open>main\<close> ends up with.\<close>

definition main_config ::
    "(string \<Rightarrow> gerror + string) \<Rightarrow> (string \<Rightarrow> gerror + yamlConfig) \<Rightarrow> (string \<times> string) list \<Rightarrow> Config" where
  "main_config readFile unmarshal flags =
     (let (configFile, cfg) = ParseFlags flags DefaultConfig;
          cfg = (case LoadFromFile readFile unmarshal configFile of Inl err \<Rightarrow> cfg | Inr fileCfg \<Rightarrow> fileCfg)
      in ApplyFlags flags cfg)"

section \<open>Look-ups\<close>

definition IsClusterMode :: "Config \<Rightarrow> bool" where
  "IsClusterMode c \<longleftrightarrow> c_Nodes c \<noteq> [] \<and> c_NodeID c \<noteq> []"

definition GetMyNode :: "Config \<Rightarrow> gerror + NodeInfo" where
  "GetMyNode c =
     (case find (\<lambda>n. n_ID n = c_NodeID c) (c_Nodes c) of
        None \<Rightarrow> Inl (Err (''node '' @ c_NodeID c @ '' not found in cluster config''))
      | Some n \<Rightarrow> Inr n)"

definition GetOtherNodes :: "Config \<Rightarrow> NodeInfo list" where
  "GetOtherNodes c = fold (\<lambda>node others. if n_ID node \<noteq> c_NodeID c then others @ [node] else others) (c_Nodes c) []"

definition GetHighestPriorityNode :: "Config \<Rightarrow> NodeInfo option" where
  "GetHighestPriorityNode c =
     (case c_Nodes c of
        [] \<Rightarrow> None
      | n0 # _ \<Rightarrow>
          Some (fold (\<lambda>node highest. if n_Priority node > n_Priority highest then node else highest) (c_Nodes c) n0))"

definition AmIHighestPriority :: "Config \<Rightarrow> bool" where
  "AmIHighestPriority c =
     (case GetMyNode c of
        Inl err \<Rightarrow> False
      | Inr myNode \<Rightarrow>
          (case GetHighestPriorityNode c of None \<Rightarrow> False | Some highest \<Rightarrow> n_ID highest = n_ID myNode))"

definition GetShardForNode :: "Config \<Rightarrow> string \<Rightarrow> gerror + ShardInfo" where
  "GetShardForNode c nodeID =
     (case find (\<lambda>shard. sh_LeaderID shard = nodeID \<or> nodeID \<in> set (sh_Followers shard)) (c_Shards c) of
        None \<Rightarrow> Inl (Err (''node '' @ nodeID @ '' not found in any shard''))
      | Some shard \<Rightarrow> Inr shard)"

definition GetShardByID :: "Config \<Rightarrow> string \<Rightarrow> gerror + ShardInfo" where
  "GetShardByID c shardID =
     (case find (\<lambda>shard. sh_ShardID shard = shardID) (c_Shards c) of
        None \<Rightarrow> Inl (Err (''shard '' @ shardID @ '' not found''))
      | Some shard \<Rightarrow> Inr shard)"

definition IsShardLeader :: "Config \<Rightarrow> bool" where
  "IsShardLeader c = list_ex (\<lambda>shard. sh_LeaderID shard = c_NodeID c) (c_Shards c)"

definition GetMyShardRole :: "Config \<Rightarrow> string" where
  "GetMyShardRole c =
     (case GetShardForNode c (c_NodeID c) of
        Inl err \<Rightarrow> []
      | Inr shard \<Rightarrow> if sh_LeaderID shard = c_NodeID c then ''leader'' else ''follower'')"

section \<open>Facts\<close>

lemma GetOtherNodes_filter: "GetOtherNodes c = filter (\<lambda>n. n_ID n \<noteq> c_NodeID c) (c_Nodes c)"
proof -
  have "fold (\<lambda>node others. if n_ID node \<noteq> c_NodeID c then others @ [node] else others) ns acc =
      acc @ filter (\<lambda>n. n_ID n \<noteq> c_NodeID c) ns" for ns acc
    by (induction ns arbitrary: acc) auto
  from this[of "c_Nodes c" "[]"] show ?thesis by (simp add: GetOtherNodes_def)
qed

text \<open>The loop finds the first node among those of the highest priority.\<close>

lemma highest_fold:
  fixes ns :: "NodeInfo list"
  defines "f \<equiv> (\<lambda>node highest. if n_Priority node > n_Priority highest then node else highest)"
  shows "fold f ns h \<in> set (h # ns) \<and> (\<forall>n \<in> set (h # ns). n_Priority n \<le> n_Priority (fold f ns h))"
proof (induction ns arbitrary: h)
  case (Cons n ns)
  from Cons.IH[of "f n h"] show ?case by (auto simp: f_def split: if_splits)
qed simp

lemma GetHighestPriorityNode_max:
  assumes "GetHighestPriorityNode c = Some h"
  shows "h \<in> set (c_Nodes c)" "n \<in> set (c_Nodes c) \<Longrightarrow> n_Priority n \<le> n_Priority h"
proof -
  obtain n0 rest where ns: "c_Nodes c = n0 # rest"
    using assms by (auto simp: GetHighestPriorityNode_def split: list.splits)
  then have "h = fold (\<lambda>node highest. if n_Priority node > n_Priority highest then node else highest) (c_Nodes c) n0"
    using assms by (simp add: GetHighestPriorityNode_def)
  with highest_fold[of "c_Nodes c" n0] ns show "h \<in> set (c_Nodes c)"
    "n \<in> set (c_Nodes c) \<Longrightarrow> n_Priority n \<le> n_Priority h" by auto
qed

text \<open>A role is found exactly for the nodes of the shards, and the leader of its shard leads.\<close>

lemma GetMyShardRole_leader:
  "GetMyShardRole c = ''leader'' \<Longrightarrow> IsShardLeader c"
  by (auto simp: GetMyShardRole_def GetShardForNode_def IsShardLeader_def list_ex_iff find_Some_iff
      split: option.splits if_splits)

lemma scan_int_Itoa: "in_i64 n \<Longrightarrow> scan_int (Itoa n) old = n"
  by (simp add: scan_int_def Atoi_Itoa)

lemma apply_flag_MetricsPort: "name \<noteq> ''metrics-port'' \<Longrightarrow> c_MetricsPort (apply_flag (name, v) cfg) = c_MetricsPort cfg"
  by (simp add: apply_flag_def)

lemma ApplyFlags_MetricsPort:
  "''metrics-port'' \<notin> set (map fst flags) \<Longrightarrow> c_MetricsPort (ApplyFlags flags cfg) = c_MetricsPort cfg"
  unfolding ApplyFlags_def by (induction flags arbitrary: cfg) (auto simp: apply_flag_MetricsPort)


definition sample_file :: yamlConfig where
  "sample_file = \<lparr>y_Port = 7000, y_MetricsPort = 9100, y_MaxCacheSize = 50, y_Role = ''leader'', y_LeaderAddr = [],
     y_ReplPort = 7001, y_AOFFileName = ''a'', y_SnapshotFileName = ''s'', y_SyncPolicy = ''always'',
     y_SnapshotIntervalSeconds = 300, y_GrowthFactor = 2, y_NodeID = [], y_Nodes = [], y_Shards = [], y_LogLevel = ''info''\<rparr>"


end
