(* ===== verification/Repl_Protocol.thy ===== *)
theory Repl_Protocol
  imports Resp
begin

text \<open>
  The messages between leader and follower (\<open>internal/replication/protocol.go\<close>): encoders and
  decoders over the wire protocol, and that each decoder inverts its encoder. A pointer that may be
  nil is an option. A decoder takes the bytes to come and returns how many it took; \<open>None\<close> is a
  panic, here an index beyond the end of a short array.
\<close>

section \<open>Messages\<close>

definition OpSet :: string where "OpSet = ''SET''"
definition OpDelete :: string where "OpDelete = ''DELETE''"
definition CmdSync :: string where "CmdSync = ''SYNC''"
definition CmdReplicate :: string where "CmdReplicate = ''REPLICATE''"
definition CmdHeartbeat :: string where "CmdHeartbeat = ''HEARTBEAT''"
definition CmdSyncEnd :: string where "CmdSyncEnd = ''SYNCEND''"

lemmas repl_names = OpSet_def OpDelete_def CmdSync_def CmdReplicate_def CmdHeartbeat_def CmdSyncEnd_def

record SyncRequest =
  FollowerID :: string
  LastSeqNum :: int

record ReplicateCommand =
  r_SeqNum :: int
  r_Operation :: string
  r_Key :: string
  r_Value :: string
  r_TTL :: int

record HeartbeatCommand =
  hb_SeqNum :: int
  hb_NodeID :: string

section \<open>Encoders\<close>

definition EncodeSyncRequest :: "SyncRequest option \<Rightarrow> (gerror + string) option" where
  "EncodeSyncRequest req =
     (case req of
        None \<Rightarrow> Some (Inl (Err ''request cannot be nil''))
      | Some req \<Rightarrow> map_option Inr (EncodeArray [Str CmdSync, Str (FollowerID req), Int64 (LastSeqNum req)]))"

definition EncodeReplicateCommand :: "ReplicateCommand option \<Rightarrow> (gerror + string) option" where
  "EncodeReplicateCommand comm =
     (case comm of
        None \<Rightarrow> Some (Inl (Err ''command cannot be nil''))
      | Some comm \<Rightarrow>
          if r_Operation comm = OpSet
          then map_option Inr (EncodeArray [Str CmdReplicate, Int64 (r_SeqNum comm), Str (r_Operation comm),
                 Str (r_Key comm), Str (r_Value comm), Int64 (r_TTL comm)])
          else if r_Operation comm = OpDelete
          then map_option Inr (EncodeArray [Str CmdReplicate, Int64 (r_SeqNum comm), Str (r_Operation comm), Str (r_Key comm)])
          else Some (Inl (Err (''invalid operation: '' @ r_Operation comm))))"

definition EncodeHeartbeatCommand :: "HeartbeatCommand option \<Rightarrow> (gerror + string) option" where
  "EncodeHeartbeatCommand req =
     (case req of
        None \<Rightarrow> Some (Inl (Err ''command cannot be nil''))
      | Some req \<Rightarrow> map_option Inr (EncodeArray [Str CmdHeartbeat, Int64 (hb_SeqNum req), Str (hb_NodeID req)]))"

definition EncodeSyncEnd :: "int \<Rightarrow> string option" where
  "EncodeSyncEnd seqNum = EncodeArray [Str CmdSyncEnd, Int64 seqNum]"

section \<open>Decoders\<close>

text \<open>A sequence number in an array: an \<open>int\<close> or a decimal string, but not an \<open>int64\<close>.\<close>

fun decode_seq :: "iface \<Rightarrow> gerror + int" where
  "decode_seq (IntV v) = Inr v"
| "decode_seq (Str s) = (case Atoi s of None \<Rightarrow> Inl (Err ''invalid sequence number'') | Some n \<Rightarrow> Inr n)"
| "decode_seq _ = Inl (Err ''sequence number must be int or string'')"

fun ParseInt64 :: "iface \<Rightarrow> int option" where
  "ParseInt64 (IntV v) = Some v"
| "ParseInt64 (Int64 v) = Some v"
| "ParseInt64 (Str s) = Atoi s"
| "ParseInt64 _ = None"

definition sync_request :: "iface list \<Rightarrow> gerror + SyncRequest" where
  "sync_request arr =
     (case arr of
        [cmd, fid, seq] \<Rightarrow>
          if as_string cmd \<noteq> Some CmdSync then Inl (Err ''expected SYNC command'')
          else (case as_string fid of
             None \<Rightarrow> Inl (Err ''invalid follower ID'')
           | Some followerID \<Rightarrow>
               (case decode_seq seq of
                  Inl err \<Rightarrow> Inl err
                | Inr n \<Rightarrow> Inr \<lparr>FollowerID = followerID, LastSeqNum = n\<rparr>))
      | _ \<Rightarrow> Inl (Err ''expected length of array to be 3''))"

definition DecodeSyncRequest :: "string \<Rightarrow> SyncRequest read option" where
  "DecodeSyncRequest reader = do {
     (res, k) \<leftarrow> Parse reader;
     Some (case res of
        Inl err \<Rightarrow> Inl err
      | Inr v \<Rightarrow> (case as_slice v of None \<Rightarrow> Inl (Err ''expected array'') | Some arr \<Rightarrow> sync_request arr), k)
   }"

text \<open>The fields of a replicate command behind the sequence number.\<close>

definition replicate_fields :: "iface list \<Rightarrow> int \<Rightarrow> (gerror + ReplicateCommand) option" where
  "replicate_fields arr seqNum = do {
     op \<leftarrow> index arr 2;
     (case as_string op of
        None \<Rightarrow> Some (Inl (Err ''expected operation to be SET or DELETE''))
      | Some operation \<Rightarrow>
          if operation \<noteq> OpSet \<and> operation \<noteq> OpDelete
          then Some (Inl (Err ''expected operation to be SET or DELETE''))
          else do {
            kv \<leftarrow> index arr 3;
            (case as_string kv of
               None \<Rightarrow> Some (Inl (Err ''expected key to be a string''))
             | Some k \<Rightarrow>
                 if operation = OpSet
                 then if length arr \<noteq> 6 then Some (Inl (Err ''SET operation requires 6 elements''))
                      else (case (as_string (arr ! 4), arr ! 5) of
                              (None, _) \<Rightarrow> Some (Inl (Err ''expected value to be a string''))
                            | (Some v, IntV ttl) \<Rightarrow> Some (Inr \<lparr>r_SeqNum = seqNum, r_Operation = operation, r_Key = k, r_Value = v, r_TTL = ttl\<rparr>)
                            | (Some v, Int64 ttl) \<Rightarrow> Some (Inr \<lparr>r_SeqNum = seqNum, r_Operation = operation, r_Key = k, r_Value = v, r_TTL = ttl\<rparr>)
                            | (Some v, _) \<Rightarrow> Some (Inl (Err ''expected ttl to be an integer'')))
                 else if length arr \<noteq> 4 then Some (Inl (Err ''DELETE operation requires 4 elements''))
                 else Some (Inr \<lparr>r_SeqNum = seqNum, r_Operation = operation, r_Key = k, r_Value = [], r_TTL = 0\<rparr>))
          })
   }"

definition DecodeReplicateCommand :: "string \<Rightarrow> ReplicateCommand read option" where
  "DecodeReplicateCommand reader = do {
     (res, k) \<leftarrow> Parse reader;
     (case res of
        Inl err \<Rightarrow> Some (Inl err, k)
      | Inr v \<Rightarrow>
          (case as_slice v of
             None \<Rightarrow> Some (Inl (Err ''expected array''), k)
           | Some arr \<Rightarrow> do {
               cmd \<leftarrow> index arr 0;
               (if as_string cmd \<noteq> Some CmdReplicate then Some (Inl (Err ''expected REPLICATE command''), k)
                else do {
                  seq \<leftarrow> index arr 1;
                  (case decode_seq seq of
                     Inl err \<Rightarrow> Some (Inl err, k)
                   | Inr seqNum \<Rightarrow> do { r \<leftarrow> replicate_fields arr seqNum; Some (r, k) })
                })
             }))
   }"

definition heartbeat_command :: "iface list \<Rightarrow> gerror + HeartbeatCommand" where
  "heartbeat_command arr =
     (case arr of
        [cmd, seq, nid] \<Rightarrow>
          if as_string cmd \<noteq> Some CmdHeartbeat then Inl (Err ''expected HEARTBEAT command'')
          else (case decode_seq seq of
             Inl err \<Rightarrow> Inl err
           | Inr n \<Rightarrow>
               (case as_string nid of
                  None \<Rightarrow> Inl (Err ''expected nodeID to be a string'')
                | Some nodeID \<Rightarrow> Inr \<lparr>hb_SeqNum = n, hb_NodeID = nodeID\<rparr>))
      | _ \<Rightarrow> Inl (Err ''expected length of array to be 3''))"

definition DecodeHeartbeatCommand :: "string \<Rightarrow> HeartbeatCommand read option" where
  "DecodeHeartbeatCommand reader = do {
     (res, k) \<leftarrow> Parse reader;
     Some (case res of
        Inl err \<Rightarrow> Inl err
      | Inr v \<Rightarrow> (case as_slice v of None \<Rightarrow> Inl (Err ''expected array'') | Some arr \<Rightarrow> heartbeat_command arr), k)
   }"

definition DecodeSyncEnd :: "iface list \<Rightarrow> int option" where
  "DecodeSyncEnd arr =
     (case arr of
        [cmd, seq] \<Rightarrow> if as_string cmd \<noteq> Some CmdSyncEnd then None else ParseInt64 seq
      | _ \<Rightarrow> None)"

section \<open>Round trips\<close>

definition cmd_ok :: "ReplicateCommand \<Rightarrow> bool" where
  "cmd_ok c \<longleftrightarrow> in_i64 (r_SeqNum c) \<and> small (r_Key c) \<and>
     (r_Operation c = OpSet \<and> small (r_Value c) \<and> in_i64 (r_TTL c) \<or>
      r_Operation c = OpDelete \<and> r_Value c = [] \<and> r_TTL c = 0)"

text \<open>The elements of an encoded command as the parser returns them.\<close>

definition cmd_elements :: "ReplicateCommand \<Rightarrow> iface list" where
  "cmd_elements c =
     (if r_Operation c = OpSet
      then [Str CmdReplicate, IntV (r_SeqNum c), Str OpSet, Str (r_Key c), Str (r_Value c), IntV (r_TTL c)]
      else [Str CmdReplicate, IntV (r_SeqNum c), Str OpDelete, Str (r_Key c)])"

lemma EncodeReplicateCommand_Parse:
  assumes "cmd_ok c"
  shows "\<exists>e. EncodeReplicateCommand (Some c) = Some (Inr e) \<and>
    (\<forall>rest. Parse (e @ rest) = Some (Inr (Slice (cmd_elements c)), length e))"
proof -
  let ?vs = "if r_Operation c = OpSet
    then [Str CmdReplicate, Int64 (r_SeqNum c), Str (r_Operation c), Str (r_Key c), Str (r_Value c), Int64 (r_TTL c)]
    else [Str CmdReplicate, Int64 (r_SeqNum c), Str (r_Operation c), Str (r_Key c)]"
  have fit: "\<forall>v \<in> set ?vs. fits v" "int (length ?vs) \<le> 17592186044416"
    using assms by (auto simp: cmd_ok_def small_def repl_names)
  obtain e where e: "EncodeArray ?vs = Some e" using Parse_EncodeArray[OF fit] by blast
  have "Parse (e @ rest) = Some (Inr (Slice (map parsed ?vs)), length e)" for rest
    using Parse_EncodeArray[OF fit, of rest] e by auto
  moreover have "map parsed ?vs = cmd_elements c" using assms by (auto simp: cmd_elements_def cmd_ok_def)
  moreover have "EncodeReplicateCommand (Some c) = Some (Inr e)"
    using e assms by (auto simp: EncodeReplicateCommand_def cmd_ok_def repl_names split: if_splits)
  ultimately show ?thesis by auto
qed

lemma EncodeArray_Parse:
  assumes "\<forall>v \<in> set vs. fits v" and "int (length vs) \<le> 17592186044416"
  obtains e where "EncodeArray vs = Some e" "\<And>rest. Parse (e @ rest) = Some (Inr (Slice (map parsed vs)), length e)"
  using Parse_EncodeArray[OF assms] by (metis option.inject)

text \<open>
  C32: Every message of the replication protocol is decoded to what was encoded, with exactly its
  bytes taken from the stream: replicate commands for both operations, sync requests, heartbeats
  and the end of a synchronisation.
\<close>

theorem replication_round_trip:
  assumes "cmd_ok c" and "small (FollowerID req)" and "in_i64 (LastSeqNum req)"
    and "small (hb_NodeID hb)" and "in_i64 (hb_SeqNum hb)" and "in_i64 seq"
  shows "(\<exists>e. EncodeReplicateCommand (Some c) = Some (Inr e) \<and> DecodeReplicateCommand (e @ rest) = Some (Inr c, length e)) \<and>
    (\<exists>e. EncodeSyncRequest (Some req) = Some (Inr e) \<and> DecodeSyncRequest (e @ rest) = Some (Inr req, length e)) \<and>
    (\<exists>e. EncodeHeartbeatCommand (Some hb) = Some (Inr e) \<and> DecodeHeartbeatCommand (e @ rest) = Some (Inr hb, length e)) \<and>
    (\<exists>e vs. EncodeSyncEnd seq = Some e \<and> Parse (e @ rest) = Some (Inr (Slice vs), length e) \<and> DecodeSyncEnd vs = Some seq)"
proof (intro conjI)
  obtain e where "EncodeReplicateCommand (Some c) = Some (Inr e)"
    "\<And>rest. Parse (e @ rest) = Some (Inr (Slice (cmd_elements c)), length e)"
    using EncodeReplicateCommand_Parse[OF assms(1)] by blast
  then show "\<exists>e. EncodeReplicateCommand (Some c) = Some (Inr e) \<and> DecodeReplicateCommand (e @ rest) = Some (Inr c, length e)"
    using assms(1)
    by (auto simp: DecodeReplicateCommand_def cmd_elements_def replicate_fields_def cmd_ok_def repl_names)
  show "\<exists>e. EncodeSyncRequest (Some req) = Some (Inr e) \<and> DecodeSyncRequest (e @ rest) = Some (Inr req, length e)"
    using assms(2,3) EncodeArray_Parse[of "[Str CmdSync, Str (FollowerID req), Int64 (LastSeqNum req)]"]
    by (force simp: EncodeSyncRequest_def DecodeSyncRequest_def sync_request_def small_def CmdSync_def)
  show "\<exists>e. EncodeHeartbeatCommand (Some hb) = Some (Inr e) \<and> DecodeHeartbeatCommand (e @ rest) = Some (Inr hb, length e)"
    using assms(4,5) EncodeArray_Parse[of "[Str CmdHeartbeat, Int64 (hb_SeqNum hb), Str (hb_NodeID hb)]"]
    by (force simp: EncodeHeartbeatCommand_def DecodeHeartbeatCommand_def heartbeat_command_def small_def CmdHeartbeat_def)
  show "\<exists>e vs. EncodeSyncEnd seq = Some e \<and> Parse (e @ rest) = Some (Inr (Slice vs), length e) \<and> DecodeSyncEnd vs = Some seq"
    using assms(6) EncodeArray_Parse[of "[Str CmdSyncEnd, Int64 seq]"]
    by (force simp: EncodeSyncEnd_def DecodeSyncEnd_def CmdSyncEnd_def)
qed

theorem replication_round_trip_witness:
  "\<exists>e. EncodeReplicateCommand (Some \<lparr>r_SeqNum = 3, r_Operation = ''SET'', r_Key = ''k'', r_Value = ''v'', r_TTL = 60\<rparr>) = Some (Inr e) \<and>
    DecodeReplicateCommand (e @ ''*'') =
      Some (Inr \<lparr>r_SeqNum = 3, r_Operation = ''SET'', r_Key = ''k'', r_Value = ''v'', r_TTL = 60\<rparr>, length e)"
  using replication_round_trip[of "\<lparr>r_SeqNum = 3, r_Operation = ''SET'', r_Key = ''k'', r_Value = ''v'', r_TTL = 60\<rparr>"
      "\<lparr>FollowerID = ''f'', LastSeqNum = 0\<rparr>" "\<lparr>hb_SeqNum = 0, hb_NodeID = ''n''\<rparr>" 0 "''*''"]
  by (simp add: cmd_ok_def small_def in_i64_def repl_names)

text \<open>A short array makes the decoder of replicate commands panic instead of returning an error.\<close>

lemma short_command_panics:
  assumes "Parse r = Some (Inr (Slice [Str CmdReplicate]), k)"
  shows "DecodeReplicateCommand r = None"
  using assms by (simp add: DecodeReplicateCommand_def)

end
