(* ===== verification/Replication.thy ===== *)
theory Replication
  imports Config Repl_Protocol
begin

text \<open>
  Leader and follower (\<open>internal/replication/leader.go\<close>, \<open>follower.go\<close>). A connection is a number;
  \<open>wires\<close> holds the bytes that were written to each connection, and a reader is the bytes to come.
  Which writes and dials succeed is given by arguments. Goroutines that loop over a ticker are one
  turn of their loop.
\<close>

section \<open>Leader\<close>

record FollowerConn =
  fc_conn :: nat
  fc_id :: string
  fc_lastHeartbeat :: time

text \<open>\<open>l_closed\<close>: the context is cancelled and the listener closed. \<open>conns_closed\<close>: closed connections.\<close>

record Leader =
  followers :: "FollowerConn list"
  seqNum :: int
  replPort :: int
  l_closed :: bool
  wires :: "(nat, string) gomap"
  conns_closed :: "nat list"

definition wire :: "Leader \<Rightarrow> nat \<Rightarrow> string" where
  "wire l conn = (case gget (wires l) conn of None \<Rightarrow> [] | Some s \<Rightarrow> s)"

definition send :: "string \<Rightarrow> nat \<Rightarrow> Leader \<Rightarrow> Leader" where
  "send bytes conn l = l\<lparr>wires := gset conn (wire l conn @ bytes) (wires l)\<rparr>"

definition NewLeader :: "(int \<Rightarrow> bool) \<Rightarrow> int \<Rightarrow> gerror + Leader" where
  "NewLeader listens port =
     (let port = (if port = 0 then c_Port DefaultConfig + 1 else port)
      in if \<not> listens port then Inl (Err ''listen'')
         else Inr \<lparr>followers = [], seqNum = 0, replPort = port, l_closed = False, wires = [], conns_closed = []\<rparr>)"

definition leader_Close :: "Leader \<Rightarrow> Leader" where
  "leader_Close l = l\<lparr>l_closed := True\<rparr>"

definition addFollower :: "time \<Rightarrow> string \<Rightarrow> nat \<Rightarrow> Leader \<Rightarrow> Leader" where
  "addFollower now fid conn l =
     l\<lparr>followers := followers l @ [\<lparr>fc_conn = conn, fc_id = fid, fc_lastHeartbeat = now\<rparr>]\<rparr>"

text \<open>The first follower with the id is overwritten with the last one, and the list shortened.\<close>

definition removeFollower :: "string \<Rightarrow> Leader \<Rightarrow> Leader" where
  "removeFollower fid l =
     (let fs = followers l; i = length (takeWhile (\<lambda>f. fc_id f \<noteq> fid) fs)
      in if i < length fs then l\<lparr>followers := butlast (fs[i := last fs])\<rparr> else l)"

text \<open>The loop over a copy of the follower list; \<open>ok\<close> says which writes succeed.\<close>

definition send_all :: "(nat \<Rightarrow> bool) \<Rightarrow> string \<Rightarrow> Leader \<Rightarrow> Leader" where
  "send_all ok bytes l = fold (\<lambda>f l. if ok (fc_conn f) then send bytes (fc_conn f) l else l) (followers l) l"

definition Replicate ::
    "(nat \<Rightarrow> bool) \<Rightarrow> string \<Rightarrow> string \<Rightarrow> string \<Rightarrow> int \<Rightarrow> Leader \<Rightarrow> (gerror option \<times> Leader) option" where
  "Replicate ok operation k v ttl l = do {
     let l = l\<lparr>seqNum := i64 (seqNum l + 1)\<rparr>;
     let cmd = \<lparr>r_SeqNum = seqNum l, r_Operation = operation, r_Key = k, r_Value = v, r_TTL = ttl\<rparr>;
     encoded \<leftarrow> EncodeReplicateCommand (Some cmd);
     (case encoded of
        Inl err \<Rightarrow> Some (Some err, l)
      | Inr bytes \<Rightarrow> Some (None, send_all ok bytes l))
   }"

text \<open>
  The loop of \<open>handleFollower\<close> over the captured entries: the bytes for the follower and the last
  sequence number, or that an encoding failed. The sequence number is also taken for an entry that
  is skipped because it has expired.
\<close>

fun sync_entries ::
    "(nat \<Rightarrow> time) \<Rightarrow> nat \<Rightarrow> (string, SnapshotEntry) gomap \<Rightarrow> int \<Rightarrow> string \<Rightarrow> (bool \<times> string \<times> int) option"
where
  "sync_entries clock i [] seq out = Some (True, out, seq)"
| "sync_entries clock i ((k, entry) # ord) seq out =
     (let seq = i64 (seq + 1);
          ttl = (if IsZero (ExpiresAt entry) then 0 else Until (clock i) (ExpiresAt entry))
      in if ttl < 0 then sync_entries clock (Suc i) ord seq out
         else do {
           encoded \<leftarrow> EncodeReplicateCommand (Some \<lparr>r_SeqNum = seq, r_Operation = OpSet, r_Key = k,
                        r_Value = Value entry, r_TTL = Seconds ttl\<rparr>);
           (case encoded of
              Inl err \<Rightarrow> Some (False, out, seq)
            | Inr bytes \<Rightarrow> sync_entries clock (Suc i) ord seq (out @ bytes))
         })"

text \<open>
  The part of \<open>handleFollower\<close> up to the registration of the follower. \<open>between\<close> is what other
  goroutines do to cache and leader after the capture of the cache. \<open>ok\<close>: the writes succeed.
  The result says whether the follower was registered, and what is left to read from it.
\<close>

definition handleFollower_sync ::
    "bool \<Rightarrow> (nat \<Rightarrow> time) \<Rightarrow> ((string, SnapshotEntry) gomap \<Rightarrow> (string, SnapshotEntry) gomap) \<Rightarrow>
     (Cache \<times> Leader \<Rightarrow> Cache \<times> Leader) \<Rightarrow> time \<Rightarrow> nat \<Rightarrow> string \<Rightarrow> Cache \<Rightarrow> Leader \<Rightarrow>
     ((string \<times> string) option \<times> Cache \<times> Leader) option" where
  "handleFollower_sync ok clock pick between now conn reader c l = do {
     (syncReq, k) \<leftarrow> DecodeSyncRequest reader;
     (case syncReq of
        Inl err \<Rightarrow> Some (None, c, l)
      | Inr syncReq \<Rightarrow> do {
          (snapshot, c) \<leftarrow> Snapshot c;
          let (c, l) = between (c, l);
          (encoded, bytes, seq) \<leftarrow> sync_entries clock 0 (pick snapshot) (seqNum l) [];
          let l = l\<lparr>seqNum := seq\<rparr>;
          (if \<not> encoded then Some (None, c, l)
           else do {
             syncEnd \<leftarrow> EncodeSyncEnd seq;
             (if \<not> ok then Some (None, c, l)
              else Some (Some (FollowerID syncReq, drop k reader), c,
                     addFollower now (FollowerID syncReq) conn (send (bytes @ syncEnd) conn l)))
           })
        })
   }"

definition beat :: "time \<Rightarrow> nat \<Rightarrow> Leader \<Rightarrow> Leader" where
  "beat now conn l =
     l\<lparr>followers := map (\<lambda>f. if fc_conn f = conn then f\<lparr>fc_lastHeartbeat := now\<rparr> else f) (followers l)\<rparr>"

text \<open>The read loop: heartbeats are noted, an error removes the follower.\<close>

function follower_loop :: "(nat \<Rightarrow> time) \<Rightarrow> nat \<Rightarrow> string \<Rightarrow> nat \<Rightarrow> string \<Rightarrow> Leader \<Rightarrow> Leader option" where
  "follower_loop clock i fid conn reader l =
     (case Parse reader of
        None \<Rightarrow> None
      | Some (Inl err, k) \<Rightarrow> Some (removeFollower fid l)
      | Some (Inr v, k) \<Rightarrow>
          (case as_slice v of
             None \<Rightarrow> follower_loop clock (Suc i) fid conn (drop k reader) l
           | Some [] \<Rightarrow> None
           | Some (command # _) \<Rightarrow>
               follower_loop clock (Suc i) fid conn (drop k reader)
                 (if command = Str CmdHeartbeat then beat (clock i) conn l else l)))"
  by pat_completeness auto
termination
  by (relation "measure (\<lambda>(clock, i, fid, conn, reader, l). length reader)") (auto dest!: Parse_progress)

declare follower_loop.simps [simp del]

definition handleFollower ::
    "bool \<Rightarrow> (nat \<Rightarrow> time) \<Rightarrow> ((string, SnapshotEntry) gomap \<Rightarrow> (string, SnapshotEntry) gomap) \<Rightarrow>
     (Cache \<times> Leader \<Rightarrow> Cache \<times> Leader) \<Rightarrow> time \<Rightarrow> (nat \<Rightarrow> time) \<Rightarrow> nat \<Rightarrow> string \<Rightarrow> Cache \<Rightarrow> Leader \<Rightarrow> (Cache \<times> Leader) option" where
  "handleFollower ok clock pick between now beats conn reader c l = do {
     (registered, c, l) \<leftarrow> handleFollower_sync ok clock pick between now conn reader c l;
     (case registered of
        None \<Rightarrow> Some (c, l)
      | Some (fid, rest) \<Rightarrow> do { l \<leftarrow> follower_loop beats 0 fid conn rest l; Some (c, l) })
   }"

text \<open>One tick of \<open>sendHeartbeats\<close> and of \<open>monitorFollowerHealth\<close>; the flag says whether the loop goes on.\<close>

definition leader_sendHeartbeats :: "(nat \<Rightarrow> bool) \<Rightarrow> Leader \<Rightarrow> (Leader \<times> bool) option" where
  "leader_sendHeartbeats ok l =
     (if l_closed l then Some (l, False)
      else do {
        encoded \<leftarrow> EncodeHeartbeatCommand (Some \<lparr>hb_SeqNum = seqNum l, hb_NodeID = ''leader''\<rparr>);
        (case encoded of
           Inl err \<Rightarrow> Some (l, True)
         | Inr bytes \<Rightarrow> Some (send_all ok bytes l, True))
      })"

definition monitorFollowerHealth :: "time \<Rightarrow> Leader \<Rightarrow> Leader \<times> bool" where
  "monitorFollowerHealth now l =
     (if l_closed l then (l, False)
      else (fold (\<lambda>f l. if IsZero (fc_lastHeartbeat f) then l
                      else if now - fc_lastHeartbeat f > 15 * Second
                      then l\<lparr>conns_closed := conns_closed l @ [fc_conn f]\<rparr> else l) (followers l) l, True))"

section \<open>Follower\<close>

text \<open>\<open>f_conn\<close>: the connection, if any; \<open>f_reader\<close>: its bytes to come; \<open>f_out\<close>: the bytes sent to the leader.\<close>

record Follower =
  f_leaderAddr :: string
  f_id :: string
  f_conn :: "nat option"
  f_reader :: string
  f_out :: string
  lastSeqNum :: int
  f_lastHeartbeat :: time
  isLeaderAlive :: bool
  clusterNodes :: "NodeInfo list"
  myPriority :: int
  myReplPort :: int
  peerReplAddrs :: "string list"
  promoted :: bool
  stop_closed :: bool

definition NewFollower ::
    "string \<Rightarrow> string \<Rightarrow> NodeInfo list \<Rightarrow> int \<Rightarrow> int \<Rightarrow> string list \<Rightarrow> gerror + Follower" where
  "NewFollower leaderAddr fid nodes priority port peers =
     (if leaderAddr = [] then Inl (Err ''leader address cannot be empty'')
      else if fid = [] then Inl (Err ''follower id cannot be empty'')
      else Inr \<lparr>f_leaderAddr = leaderAddr, f_id = fid, f_conn = None, f_reader = [], f_out = [], lastSeqNum = 0,
        f_lastHeartbeat = 0, isLeaderAlive = False, clusterNodes = nodes, myPriority = priority,
        myReplPort = port, peerReplAddrs = peers, promoted = False, stop_closed = False\<rparr>)"

definition closeConn :: "Follower \<Rightarrow> Follower" where
  "closeConn f = (if f_conn f = None then f else f\<lparr>f_conn := None, f_reader := []\<rparr>)"

definition follower_Stop :: "Follower \<Rightarrow> Follower" where
  "follower_Stop f = closeConn (f\<lparr>stop_closed := True\<rparr>)"

text \<open>\<open>dial\<close>: the connection that is opened and the bytes that will arrive on it.\<close>

definition connectToLeader :: "(string \<Rightarrow> (nat \<times> string) option) \<Rightarrow> Follower \<Rightarrow> gerror option \<times> Follower" where
  "connectToLeader dial f =
     (case dial (f_leaderAddr f) of
        None \<Rightarrow> (Some (Err ''dial''), f)
      | Some (conn, bytes) \<Rightarrow> (None, f\<lparr>f_conn := Some conn, f_reader := bytes\<rparr>))"

text \<open>
  A replicate command, as both loops of the follower read it: the checks in the order of the code,
  the change of the cache, and the sequence number.
\<close>

definition replicated :: "time \<Rightarrow> iface list \<Rightarrow> Cache \<Rightarrow> ((gerror + int) \<times> Cache) option" where
  "replicated now arr c =
     (if length arr < 4 then Some (Inl (Err ''invalid REPLICATE command''), c)
      else case ParseInt64 (arr ! 1) of
        None \<Rightarrow> Some (Inl (Err ''invalid sequence number''), c)
      | Some seq \<Rightarrow>
          (case as_string (arr ! 2) of
             None \<Rightarrow> Some (Inl (Err ''operation must be a string''), c)
           | Some operation \<Rightarrow>
               (case as_string (arr ! 3) of
                  None \<Rightarrow> Some (Inl (Err ''key must be a string''), c)
                | Some k \<Rightarrow>
                    if operation = OpSet
                    then if length arr \<noteq> 6 then Some (Inl (Err ''SET requires 6 elements''), c)
                         else (case as_string (arr ! 4) of
                            None \<Rightarrow> Some (Inl (Err ''value must be a string''), c)
                          | Some v \<Rightarrow>
                              (case ParseInt64 (arr ! 5) of
                                 None \<Rightarrow> Some (Inl (Err ''ttl must be an integer''), c)
                               | Some ttl \<Rightarrow> do { c \<leftarrow> Set now k v (seconds_dur ttl) c; Some (Inr seq, c) }))
                    else if operation = OpDelete
                    then if length arr \<noteq> 4 then Some (Inl (Err ''DELETE requires 4 elements''), c)
                         else do { c \<leftarrow> Delete k c; Some (Inr seq, c) }
                    else Some (Inl (Err (''unknown operation: '' @ operation)), c))))"

definition bump :: "int \<Rightarrow> Follower \<Rightarrow> Follower" where
  "bump seq f = (if seq > lastSeqNum f then f\<lparr>lastSeqNum := seq\<rparr> else f)"

function sync_loop :: "(nat \<Rightarrow> time) \<Rightarrow> nat \<Rightarrow> Follower \<Rightarrow> Cache \<Rightarrow> (gerror option \<times> Follower \<times> Cache) option" where
  "sync_loop clock i f c =
     (case Parse (f_reader f) of
        None \<Rightarrow> None
      | Some (Inl err, k) \<Rightarrow> Some (Some err, f\<lparr>f_reader := drop k (f_reader f)\<rparr>, c)
      | Some (Inr v, k) \<Rightarrow>
          (let f1 = f\<lparr>f_reader := drop k (f_reader f)\<rparr>
           in case as_slice v of
             None \<Rightarrow> Some (Some (Err ''result is not a slice''), f1, c)
           | Some [] \<Rightarrow> None
           | Some (command # args) \<Rightarrow>
               (let f2 = f1\<lparr>f_lastHeartbeat := clock i\<rparr>
                in if command = Str CmdReplicate
                   then (case replicated (clock i) (command # args) c of
                           None \<Rightarrow> None
                         | Some (Inl err, c) \<Rightarrow> Some (Some err, f2, c)
                         | Some (Inr seq, c) \<Rightarrow> sync_loop clock (Suc i) (bump seq f2) c)
                   else if command = Str CmdSyncEnd
                   then (case DecodeSyncEnd (command # args) of
                           None \<Rightarrow> Some (Some (Err ''failed to decode SYNCEND''), f2, c)
                         | Some seq \<Rightarrow> Some (None, bump seq f2, c))
                   else sync_loop clock (Suc i) f2 c)))"
  by pat_completeness auto
termination
  by (relation "measure (\<lambda>(clock, i, f, c). length (f_reader f))")
    (auto simp: bump_def dest!: Parse_progress)

declare sync_loop.simps [simp del]

definition sendSyncRequest ::
    "(nat \<Rightarrow> time) \<Rightarrow> Follower \<Rightarrow> Cache \<Rightarrow> (gerror option \<times> Follower \<times> Cache) option" where
  "sendSyncRequest clock f c =
     (if f_conn f = None then Some (Some (Err ''no connection''), f, c)
      else do {
        encoded \<leftarrow> EncodeSyncRequest (Some \<lparr>FollowerID = f_id f, LastSeqNum = lastSeqNum f\<rparr>);
        (case encoded of
           Inl err \<Rightarrow> Some (Some err, f, c)
         | Inr bytes \<Rightarrow> sync_loop clock 0 (f\<lparr>f_out := f_out f @ bytes\<rparr>) c)
      })"

function stream_loop :: "(nat \<Rightarrow> time) \<Rightarrow> nat \<Rightarrow> Follower \<Rightarrow> Cache \<Rightarrow> (gerror option \<times> Follower \<times> Cache) option" where
  "stream_loop clock i f c =
     (case Parse (f_reader f) of
        None \<Rightarrow> None
      | Some (Inl err, k) \<Rightarrow> Some (Some err, f\<lparr>f_reader := drop k (f_reader f)\<rparr>, c)
      | Some (Inr v, k) \<Rightarrow>
          (let f2 = f\<lparr>f_reader := drop k (f_reader f), f_lastHeartbeat := clock i\<rparr>
           in case as_slice v of
             None \<Rightarrow> Some (Some (Err ''result is not a slice''), f2, c)
           | Some [] \<Rightarrow> None
           | Some (command # args) \<Rightarrow>
               if command = Str CmdReplicate
               then (case replicated (clock i) (command # args) c of
                       None \<Rightarrow> None
                     | Some (Inl err, c) \<Rightarrow> Some (Some err, f2, c)
                     | Some (Inr seq, c) \<Rightarrow> stream_loop clock (Suc i) (bump seq f2) c)
               else stream_loop clock (Suc i) f2 c))"
  by pat_completeness auto
termination
  by (relation "measure (\<lambda>(clock, i, f, c). length (f_reader f))")
    (auto simp: bump_def dest!: Parse_progress)

declare stream_loop.simps [simp del]

definition processReplicationStream ::
    "(nat \<Rightarrow> time) \<Rightarrow> Follower \<Rightarrow> Cache \<Rightarrow> (gerror option \<times> Follower \<times> Cache) option" where
  "processReplicationStream clock f c =
     (if f_conn f = None then Some (Some (Err ''no connection to leader''), f, c) else stream_loop clock 0 f c)"

text \<open>One tick of \<open>sendHeartbeats\<close> for the goroutine of the connection \<open>conn\<close>.\<close>

definition follower_sendHeartbeats :: "bool \<Rightarrow> nat \<Rightarrow> Follower \<Rightarrow> (Follower \<times> bool) option" where
  "follower_sendHeartbeats ok conn f =
     (if f_conn f \<noteq> Some conn then Some (f, False)
      else do {
        encoded \<leftarrow> EncodeHeartbeatCommand (Some \<lparr>hb_SeqNum = lastSeqNum f, hb_NodeID = f_id f\<rparr>);
        (case encoded of
           Inl err \<Rightarrow> Some (f, True)
         | Inr bytes \<Rightarrow> if ok then Some (f\<lparr>f_out := f_out f @ bytes\<rparr>, True) else Some (f, False))
      })"

text \<open>
  One tick of \<open>monitorLeaderHealth\<close>: the new state, whether the loop goes on, and whether an
  election is started.
\<close>

definition monitorLeaderHealth :: "time \<Rightarrow> Follower \<Rightarrow> Follower \<times> bool \<times> bool" where
  "monitorLeaderHealth now f =
     (if promoted f then (f, False, False)
      else if IsZero (f_lastHeartbeat f) then (f, True, False)
      else if now - f_lastHeartbeat f > 15 * Second
      then (closeConn (f\<lparr>isLeaderAlive := False\<rparr>), False, True)
      else (f\<lparr>isLeaderAlive := True\<rparr>, True, False))"

section \<open>Election\<close>

text \<open>\<open>net.JoinHostPort\<close>: a host with a colon is put into brackets.\<close>

definition JoinHostPort :: "string \<Rightarrow> string \<Rightarrow> string" where
  "JoinHostPort host port =
     (if CHR '':'' \<in> set host then ''['' @ host @ '']:'' @ port else host @ '':'' @ port)"

text \<open>\<open>answers addr\<close>: something listens on the address and the request can be written to it.\<close>

definition findNewLeader :: "(string \<Rightarrow> bool) \<Rightarrow> Follower \<Rightarrow> string" where
  "findNewLeader answers f =
     (case find (\<lambda>n. n_ID n \<noteq> f_id f \<and> answers (JoinHostPort (n_Host n) (Itoa (n_ReplPort n)))) (clusterNodes f) of
        None \<Rightarrow> []
      | Some n \<Rightarrow> JoinHostPort (n_Host n) (Itoa (n_ReplPort n)))"

definition findPeerLeader :: "(string \<Rightarrow> bool) \<Rightarrow> Follower \<Rightarrow> string" where
  "findPeerLeader answers f =
     (case find (\<lambda>addr. addr \<noteq> [] \<and> answers addr) (peerReplAddrs f) of None \<Rightarrow> [] | Some addr \<Rightarrow> addr)"

definition Millisecond :: duration where
  "Millisecond = 1000000"

definition waitTime :: "Follower \<Rightarrow> duration" where
  "waitTime f =
     (let maxPriority = fold (\<lambda>n m. if n_Priority n > m then n_Priority n else m) (clusterNodes f) (myPriority f)
      in i64 (i64 (maxPriority - myPriority f + 1) * (500 * Millisecond)))"

text \<open>
  The outcome of an election: another leader is followed, nothing happens, or the node promotes
  itself. \<open>freePort\<close> is the port the system hands out, if any; \<open>listens\<close> as for \<open>NewLeader\<close>.
\<close>

datatype election = Follows string | Abstains | NoPort | PromotionFailed | Promoted Leader

definition promote :: "int option \<Rightarrow> (int \<Rightarrow> bool) \<Rightarrow> Follower \<Rightarrow> election \<times> Follower" where
  "promote freePort listens f =
     (let f = closeConn f
      in case (if myReplPort f = 0 then freePort else Some (myReplPort f)) of
           None \<Rightarrow> (NoPort, f)
         | Some port \<Rightarrow>
             (case NewLeader listens port of
                Inl err \<Rightarrow> (PromotionFailed, f\<lparr>promoted := True\<rparr>)
              | Inr leader \<Rightarrow> (Promoted leader, f\<lparr>promoted := True\<rparr>)))"

definition startElection ::
    "(string \<Rightarrow> bool) \<Rightarrow> int option \<Rightarrow> (int \<Rightarrow> bool) \<Rightarrow> Follower \<Rightarrow> election \<times> Follower" where
  "startElection answers freePort listens f =
     (if myPriority f > 0
      then let addr = (if clusterNodes f \<noteq> [] then findNewLeader answers f else [])
           in if addr \<noteq> [] then (Follows addr, f\<lparr>f_leaderAddr := addr\<rparr>)
              else let addr = findPeerLeader answers f
                   in if addr \<noteq> [] then (Follows addr, f\<lparr>f_leaderAddr := addr\<rparr>)
                      else promote freePort listens f
      else if clusterNodes f \<noteq> [] then (Abstains, f)
      else promote freePort listens f)"

section \<open>The loop of the follower\<close>

text \<open>
  One turn of \<open>Start\<close>, with the local variables of the loop. What the turn does is an action: it
  ends the loop, it waits and tries again (and starts an election when the flag is set), or it has
  been connected until the stream broke.
\<close>

record retry =
  backoff :: duration
  failedAttempts :: int

datatype turn = Ends | Retries duration bool | Reconnects

definition fresh_retry :: retry where
  "fresh_retry = \<lparr>backoff = 200 * Millisecond, failedAttempts = 0\<rparr>"

definition start_turn ::
    "(string \<Rightarrow> (nat \<times> string) option) \<Rightarrow> (nat \<Rightarrow> time) \<Rightarrow> time \<Rightarrow> (nat \<Rightarrow> time) \<Rightarrow> retry \<Rightarrow> Follower \<Rightarrow> Cache \<Rightarrow>
     (turn \<times> retry \<times> Follower \<times> Cache) option" where
  "start_turn dial clockS now clockR r f c =
     (if stop_closed f \<or> promoted f then Some (Ends, r, f, c)
      else case connectToLeader dial f of
        (Some err, f) \<Rightarrow>
          let attempts = failedAttempts r + 1;
              elect = attempts \<ge> 7 \<and> clusterNodes f \<noteq> []
          in Some (Retries (backoff r) elect,
               \<lparr>backoff = min (2 * backoff r) (5 * Second), failedAttempts = (if elect then 0 else attempts)\<rparr>, f, c)
      | (None, f) \<Rightarrow> do {
          let r = fresh_retry;
          (err, f, c) \<leftarrow> sendSyncRequest clockS f c;
          (case err of
             Some _ \<Rightarrow> Some (Reconnects, r, closeConn f, c)
           | None \<Rightarrow> do {
               let f = f\<lparr>f_lastHeartbeat := (if IsZero (f_lastHeartbeat f) then now else f_lastHeartbeat f), isLeaderAlive := True\<rparr>;
               (err, f, c) \<leftarrow> processReplicationStream clockR f c;
               Some (Reconnects, r, closeConn f, c)
             })
        })"

end
