(* ===== verification/Persistence_Laws.thy ===== *)
theory Persistence_Laws
  imports Persistence
begin

text \<open>
  What the log and the snapshots promise: a torn log gives back a prefix of its operations, an
  acknowledged operation survives a crash under \<open>SyncAlways\<close>, recovery rebuilds the map, a swap of
  files is all or nothing; and where the promises end: entries appended while a snapshot is
  written, deleted keys after a rewrite, a failed rename, lifetimes of less than a second.
\<close>

section \<open>Recovery from a snapshot\<close>

lemma zip_const: "zip (map (\<lambda>_. t) [0..<length xs]) xs = map (Pair t) xs"
  by (rule nth_equalityI) simp_all

lemma RecoverAOF_snapshot:
  assumes ops: "list_all op_wf ops" "\<forall>op \<in> set ops. op_Type op = ''SET''"
    and snap: "gget (disk a) (snapshotName a) = Some (log_bytes ops)" and log: "gget (disk a) (fileName a) = Some []"
    and io: "io (OpenRead (fileName a))" "io (OpenRead (snapshotName a))"
    and room: "int (card (op_Key ` set ops)) \<le> cap"
  shows "\<exists>c. RecoverAOF io clockS clockA a (fileName a) (snapshotName a) (NewCache cap ms) = Some (None, c) \<and>
    cache_ready c \<and> entries c = fold op_eff (zip (map clockS [0..<length ops]) ops) Map.empty"
proof -
  have "read_records (log_bytes ops) = Some (map op_parts ops)"
    using read_records_log[OF ops(1), of "[]"] by simp
  moreover have "\<exists>c. foreach apply_op (zip (map clockS [0..<length ops]) ops) (NewCache cap ms) = Some c \<and>
      cache_ready c \<and> entries c = fold op_eff (zip (map clockS [0..<length ops]) ops) (entries (NewCache cap ms)) \<and>
      cache_room c = cache_room (NewCache cap ms)"
    using cache_ready_New room
    by (intro log.replay[where K = "op_Key ` set ops"]) (auto simp: zip_times cache_room_def NewCache_def)
  then obtain c where c: "foreach apply_op (zip (map clockS [0..<length ops]) ops) (NewCache cap ms) = Some c"
    "cache_ready c" "entries c = fold op_eff (zip (map clockS [0..<length ops]) ops) Map.empty"
    using cache_ready_New by auto
  ultimately have "LoadSnapshot io clockS a (NewCache cap ms) = Some (None, c)"
    using snap io load_records_ops[OF ops, of "map clockS [0..<length ops]"] by (simp add: LoadSnapshot_def)
  moreover have "ReadOperations io a = Some (Inr [])" using log io by (simp add: ReadOperations_def)
  ultimately show ?thesis
    using snap log c by (auto simp: RecoverAOF_def SnapshotExists_def AofExists_def)
qed

lemma Snapshot_entries:
  assumes "cache_ready c"
  obtains snap where "Snapshot c = Some (snap, c)" "gmap_ok snap"
    "map_of snap = (\<lambda>k. map_option (\<lambda>(v, t). \<lparr>Value = v, ExpiresAt = t\<rparr>) (entries c k))"
proof -
  let ?snap = "map (\<lambda>(k, i). (k, \<lparr>Value = value i, ExpiresAt = expiresAt i\<rparr>)) (data c)"
  have "gmap_ok (data c)" "\<not> mu c" using assms by (auto simp: cache_ready_def represents_def cache_ok_def)
  then have "Snapshot c = Some (?snap, c)" "gmap_ok ?snap"
    by (auto simp: Snapshot_def Lock_def Unlock_def gmap_ok_def comp_def split_def)
  moreover have "map_of ?snap = (\<lambda>k. map_option (\<lambda>(v, t). \<lparr>Value = v, ExpiresAt = t\<rparr>) (entries c k))"
    by (auto simp: fun_eq_iff map_of_map entries_def option.map_comp comp_def)
  ultimately show ?thesis using that by blast
qed

definition sizes_ok :: "(string \<Rightarrow> (string \<times> time) option) \<Rightarrow> bool" where
  "sizes_ok m \<longleftrightarrow> (\<forall>k v t. m k = Some (v, t) \<longrightarrow>
     int (length k) \<le> 281474976710656 \<and> int (length v) \<le> 281474976710656)"

lemma snapshot_ops_wf:
  assumes "map_of ord = (\<lambda>k. map_option (\<lambda>(v, t). \<lparr>Value = v, ExpiresAt = t\<rparr>) (m k))" and "gmap_ok ord" and "sizes_ok m"
  shows "list_all op_wf (snapshot_ops now ord)"
proof -
  have "op_wf \<lparr>op_Type = ''SET'', op_Key = k, op_Value = Value e, op_TTL = Seconds (left_ttl now (ExpiresAt e))\<rparr>"
    if e: "(k, e) \<in> set ord" "0 \<le> left_ttl now (ExpiresAt e)" for k e
  proof -
    have "map_of ord k = Some e" using e(1) assms(2) by (simp add: gmap_ok_def)
    then obtain v t where "m k = Some (v, t)" "Value e = v" using assms(1) by auto
    then have "int (length k) \<le> 281474976710656 \<and> int (length (Value e)) \<le> 281474976710656"
      using assms(3) by (auto simp: sizes_ok_def)
    moreover have "in_i64 (Seconds (left_ttl now (ExpiresAt e)))"
      using e(2) by (intro Seconds_in_i64) (auto simp: left_ttl_def Until_def)
    ultimately show ?thesis by (simp add: op_wf_def)
  qed
  then show ?thesis by (auto simp: list_all_iff snapshot_ops_def)
qed

text \<open>What other goroutines may do to the files while a snapshot or a rewrite is under way.\<close>

definition keeps_files :: "(AOF \<Rightarrow> string) \<Rightarrow> (Cache \<times> AOF \<Rightarrow> Cache \<times> AOF) \<Rightarrow> bool" where
  "keeps_files temp between \<longleftrightarrow> (\<forall>c a. let a' = snd (between (c, a)) in
     fileName a' = fileName a \<and> snapshotName a' = snapshotName a \<and>
     gget (disk a') (temp a) = gget (disk a) (temp a) \<and> (file_open a \<longrightarrow> file_open a'))"

lemma keeps_files_id: "keeps_files temp id"
  by (simp add: keeps_files_def)

lemma restarted_snapshot:
  assumes "map_of ord = (\<lambda>k. map_option (\<lambda>(v, t). \<lparr>Value = v, ExpiresAt = t\<rparr>) (m k))" and "gmap_ok ord"
  shows "fold op_eff (map (Pair later) (snapshot_ops now ord)) Map.empty = restarted now later m"
  using assms by (auto simp: fun_eq_iff fold_op_eff_snapshot restarted_def split: option.splits)

lemma CreateSnapshot_files:
  assumes c: "cache_ready c" and io: "\<forall>s. io s" and pick: "\<And>m. gmap_ok m \<Longrightarrow> is_range (pick m) m"
    and sizes: "sizes_ok (entries c)" and names: "fileName a \<noteq> snapshotName a" "fileName a \<noteq> temp_rdb a"
    and other: "keeps_files temp_rdb between"
  shows "\<exists>c' a' ord. CreateSnapshot io (\<lambda>_. now) pick between c a = Some (None, c', a') \<and>
    gget (disk a') (fileName a') = Some [] \<and> gget (disk a') (snapshotName a') = Some (log_bytes (snapshot_ops now ord)) \<and>
    file_open a' \<and> gmap_ok ord \<and> map_of ord = (\<lambda>k. map_option (\<lambda>(v, t). \<lparr>Value = v, ExpiresAt = t\<rparr>) (entries c k))"
proof -
  obtain snap where snap: "Snapshot c = Some (snap, c)" "gmap_ok snap"
    "map_of snap = (\<lambda>k. map_option (\<lambda>(v, t). \<lparr>Value = v, ExpiresAt = t\<rparr>) (entries c k))"
    using Snapshot_entries[OF c] .
  have ord: "gmap_ok (pick snap)" "map_of (pick snap) = map_of snap"
    using pick[OF snap(2)] by (auto simp: is_range_def)
  have wf: "list_all op_wf (snapshot_ops now (pick snap))"
    using snapshot_ops_wf[OF _ ord(1) sizes] ord(2) snap(3) by simp
  let ?out = "log_bytes (snapshot_ops now (pick snap))"
  obtain c1 a1 where a1: "between (c, a\<lparr>disk := gset (temp_rdb a) ?out (disk a)\<rparr>) = (c1, a1)"
    by (cases "between (c, a\<lparr>disk := gset (temp_rdb a) ?out (disk a)\<rparr>)")
  have k: "fileName a1 = fileName a" "snapshotName a1 = snapshotName a" "gget (disk a1) (temp_rdb a) = Some ?out"
    using other[unfolded keeps_files_def, rule_format, of c "a\<lparr>disk := gset (temp_rdb a) ?out (disk a)\<rparr>"] a1
    by (auto simp: Let_def gget_gset temp_rdb_def)
  have "temp_rdb a1 = temp_rdb a" using k(2) by (simp add: temp_rdb_def)
  then show ?thesis
    using snap(1) write_entries_ops[OF _ wf, of io] io a1 k names ord snap(3)
    by (auto simp: CreateSnapshot_def swap_snapshot_def rename_file_def Let_def gget_gset file_text_def)
qed

text \<open>
  C19: Round trip through a snapshot. Creating a snapshot and recovering from it into a new cache
  gives every entry that was in the cache when it was captured and had not expired: the value as it
  was, and a lifetime that starts again with the whole seconds that were left. The log is empty
  afterwards, whatever other goroutines appended to it between the capture and the swap.
\<close>

theorem snapshot_recovery:
  assumes "cache_ready c" and "\<forall>s. io s" and "\<And>m. gmap_ok m \<Longrightarrow> is_range (pick m) m"
    and "sizes_ok (entries c)" and "fileName a \<noteq> snapshotName a" and "fileName a \<noteq> temp_rdb a"
    and "keeps_files temp_rdb between" and "int (card (dom (entries c))) \<le> cap"
  shows "\<exists>c' a' c2. CreateSnapshot io (\<lambda>_. now) pick between c a = Some (None, c', a') \<and> log_text a' = [] \<and>
    RecoverAOF io (\<lambda>_. later) clockA a' (fileName a') (snapshotName a') (NewCache cap ms) = Some (None, c2) \<and>
    entries c2 = restarted now later (entries c)"
proof -
  obtain c' a' ord where s: "CreateSnapshot io (\<lambda>_. now) pick between c a = Some (None, c', a')"
    "gget (disk a') (fileName a') = Some []" "gget (disk a') (snapshotName a') = Some (log_bytes (snapshot_ops now ord))"
    and ord: "gmap_ok ord" "map_of ord = (\<lambda>k. map_option (\<lambda>(v, t). \<lparr>Value = v, ExpiresAt = t\<rparr>) (entries c k))"
    using CreateSnapshot_files[of c io pick a between now] assms by blast
  have dom: "fst ` set ord = dom (entries c)"
    using ord(2) dom_map_of_conv_image_fst[of ord] by (auto simp: dom_def)
  have "card (op_Key ` set (snapshot_ops now ord)) \<le> card (dom (entries c))"
    using snapshot_ops_keys[of now ord] finite_imageI[OF finite_set[of ord], of fst] unfolding dom
    by (intro card_mono) auto
  then have "\<exists>c2. RecoverAOF io (\<lambda>_. later) clockA a' (fileName a') (snapshotName a') (NewCache cap ms) = Some (None, c2) \<and>
      cache_ready c2 \<and> entries c2 = fold op_eff (zip (map (\<lambda>_. later) [0..<length (snapshot_ops now ord)]) (snapshot_ops now ord)) Map.empty"
    using s(2,3) assms(2,8) snapshot_ops_wf[OF ord(2,1) assms(4)] snapshot_ops_SET
    by (intro RecoverAOF_snapshot) auto
  with s show ?thesis
    unfolding zip_const restarted_snapshot[OF ord(2,1)] by (auto simp: file_text_def)
qed

text \<open>A log and a cache with one entry, for the examples.\<close>

definition sample_aof :: AOF where
  "sample_aof = \<lparr>file_open = True, fileName = ''a'', snapshotName = ''s'', policy = SyncAlways,
     done_closed = False, wg = 1, growthFactor = 2, lastRewriteSize = 0, rewriting = False,
     disk = [(''a'', [])], stable = 0\<rparr>"

definition sample_set :: Operation where
  "sample_set = \<lparr>op_Type = ''SET'', op_Key = ''k'', op_Value = ''v'', op_TTL = 0\<rparr>"

definition sample_del :: Operation where
  "sample_del = \<lparr>op_Type = ''DEL'', op_Key = ''k'', op_Value = [], op_TTL = 0\<rparr>"

lemma sample_wf: "op_wf sample_set" "op_wf sample_del"
  by (simp_all add: op_wf_def sample_set_def sample_del_def in_i64_def)

lemma sample_cache:
  obtains c where "Set 1 ''k'' ''v'' 0 (NewCache 3 []) = Some c" "cache_ready c" "entries c = [''k'' \<mapsto> (''v'', 0)]"
  using Set_ready[of "NewCache 3 []" "{''k''}" "''k''" 1 "''v''" 0] cache_ready_New[of 3 "[]"]
  by (auto simp: cache_room_def NewCache_def expiry_def)

theorem snapshot_recovery_witness:
  "\<exists>c c' a' c2. Set 1 ''k'' ''v'' 0 (NewCache 3 []) = Some c \<and>
    CreateSnapshot (\<lambda>_. True) (\<lambda>_. 2) id id c sample_aof = Some (None, c', a') \<and> log_text a' = [] \<and>
    RecoverAOF (\<lambda>_. True) (\<lambda>_. 9) (\<lambda>_. 9) a' (fileName a') (snapshotName a') (NewCache 3 []) = Some (None, c2) \<and>
    entries c2 ''k'' = Some (''v'', 0)"
proof -
  obtain c where c: "Set 1 ''k'' ''v'' 0 (NewCache 3 []) = Some c" "cache_ready c" "entries c = [''k'' \<mapsto> (''v'', 0)]"
    by (rule sample_cache)
  have "restarted 2 9 (entries c) ''k'' = Some (''v'', 0)"
    by (simp add: c(3) restarted_def left_ttl_def IsZero_def Seconds_below_one seconds_dur_def expiry_def i64_def)
  moreover have "\<exists>c' a' c2. CreateSnapshot (\<lambda>_. True) (\<lambda>_. 2) id id c sample_aof = Some (None, c', a') \<and> log_text a' = [] \<and>
    RecoverAOF (\<lambda>_. True) (\<lambda>_. 9) (\<lambda>_. 9) a' (fileName a') (snapshotName a') (NewCache 3 []) = Some (None, c2) \<and>
    entries c2 = restarted 2 9 (entries c)"
    by (rule snapshot_recovery)
      (simp_all add: c sizes_ok_def sample_aof_def temp_rdb_def keeps_files_id)
  ultimately show ?thesis using c(1) by metis
qed

section \<open>The log after a crash\<close>

definition crash :: "nat \<Rightarrow> AOF \<Rightarrow> AOF" where
  "crash n a = a\<lparr>disk := gset (fileName a) (take n (log_text a)) (disk a)\<rparr>"

lemma torn_log_cut:
  assumes "list_all op_wf ops" and "log_text a = log_bytes ops" and "n \<le> length (log_bytes ops)"
    and "io (OpenRead (fileName a))"
  shows "\<exists>m \<le> length ops. ReadOperations io (crash n a) = Some (Inr (take m ops)) \<and>
    length (log_bytes (take m ops)) \<le> n \<and> (m < length ops \<longrightarrow> n < length (log_bytes (take (Suc m) ops)))"
  using assms ReadOperations_cut[of ops n "crash n a" io] by (simp add: crash_def gget_gset)

text \<open>
  C17: A log that was cut anywhere, in the middle of an entry too, is read without error and gives a
  prefix of the operations that were written: exactly those whose entry is complete.
\<close>

theorem torn_log_recovers_prefix:
  assumes "list_all op_wf ops" and "log_text a = log_bytes ops" and "n \<le> length (log_bytes ops)"
    and "io (OpenRead (fileName a))"
  shows "\<exists>m \<le> length ops. ReadOperations io (crash n a) = Some (Inr (take m ops)) \<and>
    length (log_bytes (take m ops)) \<le> n \<and> (m < length ops \<longrightarrow> n < length (log_bytes (take (Suc m) ops)))"
  using assms by (rule torn_log_cut)

theorem torn_log_recovers_prefix_witness:
  "\<exists>m \<le> 1. ReadOperations (\<lambda>_. True) (crash 7 (write_log (op_bytes sample_set) sample_aof)) = Some (Inr (take m [sample_set]))"
proof -
  let ?a = "write_log (op_bytes sample_set) sample_aof"
  have "log_text ?a = log_bytes [sample_set]" by (simp add: write_log_def sample_aof_def file_text_def)
  moreover have "7 \<le> length (log_bytes [sample_set])" by code_simp
  ultimately have "\<exists>m \<le> length [sample_set]. ReadOperations (\<lambda>_. True) (crash 7 ?a) = Some (Inr (take m [sample_set])) \<and>
    length (log_bytes (take m [sample_set])) \<le> 7 \<and>
    (m < length [sample_set] \<longrightarrow> 7 < length (log_bytes (take (Suc m) [sample_set])))"
    using sample_wf by (intro torn_log_recovers_prefix) simp_all
  then show ?thesis by auto
qed

lemma log_bytes_mono: "i \<le> j \<Longrightarrow> length (log_bytes (take i ops)) \<le> length (log_bytes (take j ops))"
  by (metis le_add1 le_add_diff_inverse length_append log_bytes_simps(3) take_add)



text \<open>
  Recovery from a log into a new cache applies the operations in the order of the log: the
  cache ends with the map that they describe, provided the capacity covers the keys of the log.
\<close>

lemma recovery_replays_log:
  assumes "list_all op_wf ops" and "gget (disk a) (fileName a) = Some (log_bytes ops)"
    and "io (OpenRead (fileName a))" and "gget (disk a) (snapshotName a) = None"
    and "int (card (op_Key ` set ops)) \<le> cap"
  shows "\<exists>c. RecoverAOF io clockS clockA a (fileName a) (snapshotName a) (NewCache cap ms) = Some (None, c) \<and>
    entries c = fold op_eff (zip (map clockA [0..<length ops]) ops) Map.empty"
  using RecoverAOF_log[where ops = ops and a = a and io = io and cap = cap] assms by blast

lemma recovery_replays_log_witness:
  "\<exists>c. RecoverAOF (\<lambda>_. True) (\<lambda>_. 0) (\<lambda>_. 0) (write_log (op_bytes sample_set) sample_aof) ''a'' ''s'' (NewCache 1 []) = Some (None, c) \<and>
    entries c ''k'' = Some (''v'', 0)"
proof -
  let ?a = "write_log (op_bytes sample_set) sample_aof"
  have n: "fileName ?a = ''a''" "snapshotName ?a = ''s''" by (simp_all add: sample_aof_def)
  have "\<exists>c. RecoverAOF (\<lambda>_. True) (\<lambda>_. 0) (\<lambda>_. 0) ?a (fileName ?a) (snapshotName ?a) (NewCache 1 []) = Some (None, c) \<and>
    entries c = fold op_eff (zip (map (\<lambda>_. 0) [0..<length [sample_set]]) [sample_set]) Map.empty"
    using sample_wf
    by (intro recovery_replays_log) (simp_all add: sample_aof_def write_log_def file_text_def)
  then show ?thesis
    unfolding n by (auto simp: op_eff_def sample_set_def seconds_dur_def expiry_def i64_def)
qed

section \<open>Swapping files\<close>

text \<open>
  C20: A rewrite of the log or a snapshot that fails at any system call leaves either the old files
  or complete new ones. The log is emptied only when the new snapshot is in its place, and the
  rewritten log replaces the old one in one step.
\<close>

theorem swaps_all_or_nothing:
  assumes "cache_ready c" and "fileName a \<noteq> snapshotName a" and "fileName a \<noteq> temp_rdb a"
    and "rewriteAOF io clock pick id c a = Some (err, c', a')"
    and "CreateSnapshot io2 clock pick id c a = Some (err2, c2', a2')"
  shows "(log_text a' = log_text a \<and> err \<noteq> None \<or>
      (\<exists>snap. Snapshot c = Some (snap, c) \<and> write_entries io clock 0 (pick snap) [] = Some (Some (log_text a')))) \<and>
    (log_text a2' = log_text a \<and> gget (disk a2') (snapshotName a) = gget (disk a) (snapshotName a) \<and> err2 \<noteq> None \<or>
      (\<exists>snap out. Snapshot c = Some (snap, c) \<and> write_entries io2 clock 0 (pick snap) [] = Some (Some out) \<and>
        gget (disk a2') (snapshotName a) = Some out \<and> (log_text a2' = log_text a \<and> err2 \<noteq> None \<or> log_text a2' = [])))"
proof -
  obtain snap where snap: "Snapshot c = Some (snap, c)" using Snapshot_entries[OF assms(1)] by metis
  have t: "temp_aof a \<noteq> fileName a" "temp_rdb a \<noteq> snapshotName a" by (simp_all add: temp_aof_def temp_rdb_def)
  have "log_text a' = log_text a \<and> err \<noteq> None \<or>
      write_entries io clock 0 (pick snap) [] = Some (Some (log_text a'))"
    using assms(4) snap t(1)
    by (auto simp: rewriteAOF_def swap_log_def remove_file_def rename_file_def Let_def temp_aof_def
        split: if_splits option.splits Option.bind_splits)
  moreover have "log_text a2' = log_text a \<and> gget (disk a2') (snapshotName a) = gget (disk a) (snapshotName a) \<and> err2 \<noteq> None \<or>
      (\<exists>out. write_entries io2 clock 0 (pick snap) [] = Some (Some out) \<and>
        gget (disk a2') (snapshotName a) = Some out \<and> (log_text a2' = log_text a \<and> err2 \<noteq> None \<or> log_text a2' = []))"
    using assms(5,2,3) snap t(2)
    by (auto simp: CreateSnapshot_def swap_snapshot_def remove_file_def rename_file_def Let_def temp_rdb_def
        gget_gset gget_gdel split: if_splits option.splits Option.bind_splits)
  ultimately show ?thesis using snap by blast
qed

lemma swaps_total:
  assumes "cache_ready c"
  shows "\<exists>err c' a'. rewriteAOF io clock pick id c a = Some (err, c', a')"
    and "\<exists>err c' a'. CreateSnapshot io clock pick id c a = Some (err, c', a')"
proof -
  obtain snap where "Snapshot c = Some (snap, c)" using Snapshot_entries[OF assms] by metis
  moreover obtain w where "write_entries io clock 0 (pick snap) [] = Some w" using write_entries_total by metis
  ultimately show "\<exists>err c' a'. rewriteAOF io clock pick id c a = Some (err, c', a')"
    and "\<exists>err c' a'. CreateSnapshot io clock pick id c a = Some (err, c', a')"
    by (auto simp: rewriteAOF_def CreateSnapshot_def Let_def split: option.splits prod.splits)
qed

theorem swaps_all_or_nothing_witness:
  "\<exists>c err c' a' err2 c2' a2'. Set 1 ''k'' ''v'' 0 (NewCache 3 []) = Some c \<and>
    rewriteAOF (\<lambda>s. s \<noteq> Rename) (\<lambda>_. 2) id id c sample_aof = Some (err, c', a') \<and>
    CreateSnapshot (\<lambda>s. s \<noteq> Truncate) (\<lambda>_. 2) id id c sample_aof = Some (err2, c2', a2') \<and> log_text a2' = [] \<and>
    (log_text a' = [] \<or> (\<exists>snap. write_entries (\<lambda>s. s \<noteq> Rename) (\<lambda>_. 2) 0 snap [] = Some (Some (log_text a'))))"
proof -
  obtain c where c: "Set 1 ''k'' ''v'' 0 (NewCache 3 []) = Some c" "cache_ready c"
    by (rule sample_cache)
  obtain err c' a' err2 c2' a2' where r: "rewriteAOF (\<lambda>s. s \<noteq> Rename) (\<lambda>_. 2) id id c sample_aof = Some (err, c', a')"
    "CreateSnapshot (\<lambda>s. s \<noteq> Truncate) (\<lambda>_. 2) id id c sample_aof = Some (err2, c2', a2')"
    using swaps_total[OF c(2)] by metis
  have "log_text sample_aof = []" "fileName sample_aof \<noteq> snapshotName sample_aof" "fileName sample_aof \<noteq> temp_rdb sample_aof"
    by (simp_all add: sample_aof_def file_text_def temp_rdb_def)
  with swaps_all_or_nothing[OF c(2) this(2,3) r] r c(1) show ?thesis by auto
qed

text \<open>
  When the rename fails after the old handle was closed, the log stays closed: its contents are
  still there, but every later \<open>Append\<close> returns an error and writes nothing.
\<close>

lemma failed_rename_stops_log:
  assumes "file_open a" and "io CloseLog" and "\<not> io Rename" and "swap_log io a = (err, a')"
  shows "err \<noteq> None \<and> log_text a' = log_text a \<and> (\<forall>io2 short s. fst (Append io2 short s a') \<noteq> None \<and> snd (Append io2 short s a') = a')"
  using assms by (auto simp: swap_log_def Append_def remove_file_def temp_aof_def Let_def)

lemma failed_rename_stops_log_witness:
  "\<exists>err a'. swap_log (\<lambda>s. s \<noteq> Rename) sample_aof = (err, a') \<and> fst (Append (\<lambda>_. True) 0 ''x'' a') \<noteq> None"
proof -
  obtain err a' where r: "swap_log (\<lambda>s. s \<noteq> Rename) sample_aof = (err, a')" by (cases "swap_log (\<lambda>s. s \<noteq> Rename) sample_aof")
  with failed_rename_stops_log[OF _ _ _ r] show ?thesis by (simp add: sample_aof_def)
qed

section \<open>Where the promises end\<close>

definition set_during_snapshot :: "(gerror option \<times> string option) option" where
  "set_during_snapshot = do {
     (_, c, a) \<leftarrow> CreateSnapshot (\<lambda>_. True) (\<lambda>_. 2) id
       (\<lambda>(c, a). (case Set 2 ''k'' ''v'' 0 c of None \<Rightarrow> c | Some c \<Rightarrow> c, snd (Append (\<lambda>_. True) 0 (op_bytes sample_set) a)))
       (NewCache 4 []) sample_aof;
     (err, c) \<leftarrow> RecoverAOF (\<lambda>_. True) (\<lambda>_. 3) (\<lambda>_. 3) a ''a'' ''s'' (NewCache 4 []);
     (v, _) \<leftarrow> Get 4 ''k'' c;
     Some (err, v)
   }"

text \<open>
  An acknowledged write can be lost without any failure or crash: it is appended and synced
  after a snapshot has captured the cache and before the snapshot empties the log. Recovery from
  the files does not find it.
\<close>

lemma snapshot_loses_append: "set_during_snapshot = Some (None, None)"
  by code_simp

definition delete_then_rewrite :: "(gerror option \<times> string option) option" where
  "delete_then_rewrite = do {
     c \<leftarrow> Set 1 ''k'' ''v'' 0 (NewCache 4 []);
     (_, c, a) \<leftarrow> CreateSnapshot (\<lambda>_. True) (\<lambda>_. 2) id id c sample_aof;
     c \<leftarrow> Delete ''k'' c;
     let a = snd (Append (\<lambda>_. True) 0 (op_bytes sample_del) a);
     (_, c, a) \<leftarrow> rewriteAOF (\<lambda>_. True) (\<lambda>_. 3) id id c a;
     (err, c) \<leftarrow> RecoverAOF (\<lambda>_. True) (\<lambda>_. 4) (\<lambda>_. 4) a ''a'' ''s'' (NewCache 4 []);
     (v, _) \<leftarrow> Get 5 ''k'' c;
     Some (err, v)
   }"

text \<open>
  A key that was deleted can come back. A snapshot holds it, the deletion is appended to the
  log, and a rewrite of the log drops the deletion, because it writes only what the cache holds;
  recovery loads the snapshot first and finds nothing in the log that removes the key.
\<close>

lemma rewrite_resurrects_deleted: "delete_then_rewrite = Some (None, Some ''v'')"
  by code_simp

text \<open>
  An entry with less than one second to live is written with the lifetime 0, which means none: it
  never expires after recovery.
\<close>

lemma short_lifetime_becomes_endless:
  assumes "m k = Some (v, t)" and "t \<noteq> 0" and "now \<le> t" and "t < now + 1000000000"
  shows "restarted now later m k = Some (v, 0)"
proof -
  have "left_ttl now t = t - now" using assms(2,3,4) by (simp add: left_ttl_def IsZero_def Until_def)
  then show ?thesis
    using assms Seconds_below_one[of "t - now"] by (simp add: restarted_def seconds_dur_def expiry_def i64_def)
qed

end
