(* ===== verification/Replication_Laws.thy ===== *)
theory Replication_Laws
  imports Replication Persistence_Laws
begin

text \<open>
  What replication promises: a follower that reads the stream of a leader ends with the map that the
  replicated operations describe, a synchronisation copies what the leader had captured (and keeps
  what the follower had besides), elections are safe and start in time.
\<close>

section \<open>Commands as operations on a store\<close>

definition apply_cmd :: "time \<times> ReplicateCommand \<Rightarrow> Cache \<Rightarrow> Cache option" where
  "apply_cmd = (\<lambda>(now, cmd) c.
     if r_Operation cmd = OpSet then Set now (r_Key cmd) (r_Value cmd) (seconds_dur (r_TTL cmd)) c
     else Delete (r_Key cmd) c)"

definition cmd_eff :: "time \<times> ReplicateCommand \<Rightarrow> (string \<Rightarrow> (string \<times> time) option) \<Rightarrow> string \<Rightarrow> (string \<times> time) option" where
  "cmd_eff = (\<lambda>(now, cmd) m.
     if r_Operation cmd = OpSet then m(r_Key cmd \<mapsto> (r_Value cmd, expiry now (seconds_dur (r_TTL cmd))))
     else m(r_Key cmd := None))"

definition cmd_keys :: "time \<times> ReplicateCommand \<Rightarrow> string set" where
  "cmd_keys x = {r_Key (snd x)}"

interpretation repl: op_store apply_cmd cmd_eff cmd_keys entries cache_ready cache_room
proof
  fix c :: Cache and K and x :: "time \<times> ReplicateCommand"
  assume c: "cache_ready c" and K: "finite K" "dom (entries c) \<union> cmd_keys x \<subseteq> K" "card K \<le> cache_room c"
  have "\<exists>c'. Set now (r_Key (snd x)) v ttl c = Some c' \<and> cache_ready c' \<and>
      entries c' = (entries c)(r_Key (snd x) \<mapsto> (v, expiry now ttl)) \<and> maxSize c' = maxSize c" for now v ttl
    using c K by (intro Set_ready[of c K]) (auto simp: cmd_keys_def)
  then show "\<exists>c'. apply_cmd x c = Some c' \<and> cache_ready c' \<and> entries c' = cmd_eff x (entries c) \<and>
      cache_room c' = cache_room c"
    using Delete_ready[OF c, of "r_Key (snd x)"]
    by (cases x) (simp add: apply_cmd_def cmd_eff_def cache_room_def, metis)
next
  fix x :: "time \<times> ReplicateCommand" and m :: "string \<Rightarrow> (string \<times> time) option"
  show "dom (cmd_eff x m) \<subseteq> dom m \<union> cmd_keys x"
    by (cases x) (auto simp: cmd_eff_def cmd_keys_def split: if_splits)
qed

definition cmd_bytes :: "ReplicateCommand \<Rightarrow> string" where
  "cmd_bytes c = (case EncodeReplicateCommand (Some c) of Some (Inr e) \<Rightarrow> e | _ \<Rightarrow> [])"

definition stream_bytes :: "ReplicateCommand list \<Rightarrow> string" where
  "stream_bytes cmds = concat (map cmd_bytes cmds)"

lemma stream_bytes_simps [simp]:
  "stream_bytes [] = []" "stream_bytes (x # xs) = cmd_bytes x @ stream_bytes xs"
  "stream_bytes (xs @ ys) = stream_bytes xs @ stream_bytes ys"
  by (simp_all add: stream_bytes_def)

lemma Parse_cmd_bytes:
  assumes "cmd_ok c"
  shows "EncodeReplicateCommand (Some c) = Some (Inr (cmd_bytes c))"
    "Parse (cmd_bytes c @ rest) = Some (Inr (Slice (cmd_elements c)), length (cmd_bytes c))"
  using EncodeReplicateCommand_Parse[OF assms] by (auto simp: cmd_bytes_def)

lemma replicated_elements:
  assumes "cmd_ok cmd"
  shows "replicated now (cmd_elements cmd) c = map_option (Pair (Inr (r_SeqNum cmd))) (apply_cmd (now, cmd) c)"
  using assms
  by (auto simp: replicated_def cmd_elements_def apply_cmd_def cmd_ok_def repl_names map_conv_bind_option
      split: Option.bind_splits)

lemma cmd_elements_Cons: "\<exists>args. cmd_elements cmd = Str CmdReplicate # args"
  by (simp add: cmd_elements_def)

section \<open>The follower reads a stream\<close>

text \<open>The follower after a run of commands: the rest of the stream and the highest number are left.\<close>

definition after_cmds :: "(nat \<Rightarrow> time) \<Rightarrow> nat \<Rightarrow> ReplicateCommand list \<Rightarrow> string \<Rightarrow> Follower \<Rightarrow> Follower" where
  "after_cmds clock i cmds rest f =
     f\<lparr>f_reader := rest, lastSeqNum := fold max (map r_SeqNum cmds) (lastSeqNum f),
       f_lastHeartbeat := (if cmds = [] then f_lastHeartbeat f else clock (i + length cmds - 1))\<rparr>"

lemma after_cmds_Nil: "f_reader f = rest \<Longrightarrow> after_cmds clock i [] rest f = f"
  by (simp add: after_cmds_def)

lemma after_cmds_Cons:
  "after_cmds clock (Suc i) cmds rest (bump (r_SeqNum cmd) (f\<lparr>f_reader := x, f_lastHeartbeat := clock i\<rparr>)) =
   after_cmds clock i (cmd # cmds) rest f"
  by (auto simp: after_cmds_def bump_def max_def)

lemma loop_step:
  assumes "cmd_ok cmd" and "f_reader f = cmd_bytes cmd @ rest" and "apply_cmd (clock i, cmd) c = Some c'"
  shows "stream_loop clock i f c =
      stream_loop clock (Suc i) (bump (r_SeqNum cmd) (f\<lparr>f_reader := rest, f_lastHeartbeat := clock i\<rparr>)) c'"
    and "sync_loop clock i f c =
      sync_loop clock (Suc i) (bump (r_SeqNum cmd) (f\<lparr>f_reader := rest, f_lastHeartbeat := clock i\<rparr>)) c'"
proof -
  obtain args where args: "cmd_elements cmd = Str CmdReplicate # args" using cmd_elements_Cons by blast
  have p: "Parse (f_reader f) = Some (Inr (Slice (Str CmdReplicate # args)), length (cmd_bytes cmd))"
    using Parse_cmd_bytes(2)[OF assms(1), of rest] unfolding args assms(2) .
  have r: "replicated (clock i) (Str CmdReplicate # args) c = Some (Inr (r_SeqNum cmd), c')"
    using replicated_elements[OF assms(1), of "clock i" c] assms(3) unfolding args by simp
  have d: "drop (length (cmd_bytes cmd)) (f_reader f) = rest" using assms(2) by simp
  show "stream_loop clock i f c =
      stream_loop clock (Suc i) (bump (r_SeqNum cmd) (f\<lparr>f_reader := rest, f_lastHeartbeat := clock i\<rparr>)) c'"
    by (subst stream_loop.simps) (simp add: p r d)
  show "sync_loop clock i f c =
      sync_loop clock (Suc i) (bump (r_SeqNum cmd) (f\<lparr>f_reader := rest, f_lastHeartbeat := clock i\<rparr>)) c'"
    by (subst sync_loop.simps) (simp add: p r d)
qed

lemma loop_cmds:
  assumes "list_all cmd_ok cmds" and "f_reader f = stream_bytes cmds @ rest"
    and "foreach apply_cmd (zip (map clock [i..<i + length cmds]) cmds) c = Some c'"
  shows "stream_loop clock i f c = stream_loop clock (i + length cmds) (after_cmds clock i cmds rest f) c'"
    and "sync_loop clock i f c = sync_loop clock (i + length cmds) (after_cmds clock i cmds rest f) c'"
proof -
  have "stream_loop clock i f c = stream_loop clock (i + length cmds) (after_cmds clock i cmds rest f) c' \<and>
    sync_loop clock i f c = sync_loop clock (i + length cmds) (after_cmds clock i cmds rest f) c'"
    using assms
  proof (induction cmds arbitrary: i f c)
    case Nil
    then show ?case by (simp add: after_cmds_Nil)
  next
    case (Cons cmd cmds)
    have z: "zip (map clock [i..<i + length (cmd # cmds)]) (cmd # cmds) =
        (clock i, cmd) # zip (map clock [Suc i..<Suc i + length cmds]) cmds"
      by (simp add: upt_conv_Cons del: upt_Suc)
    obtain c1 where c1: "apply_cmd (clock i, cmd) c = Some c1"
      "foreach apply_cmd (zip (map clock [Suc i..<Suc i + length cmds]) cmds) c1 = Some c'"
      using Cons.prems(3) unfolding z by (auto split: Option.bind_splits)
    let ?f1 = "bump (r_SeqNum cmd) (f\<lparr>f_reader := stream_bytes cmds @ rest, f_lastHeartbeat := clock i\<rparr>)"
    have "f_reader ?f1 = stream_bytes cmds @ rest" by (simp add: bump_def)
    then have IH: "stream_loop clock (Suc i) ?f1 c1 = stream_loop clock (Suc i + length cmds) (after_cmds clock (Suc i) cmds rest ?f1) c' \<and>
      sync_loop clock (Suc i) ?f1 c1 = sync_loop clock (Suc i + length cmds) (after_cmds clock (Suc i) cmds rest ?f1) c'"
      using Cons.IH[OF _ _ c1(2)] Cons.prems(1) by simp
    have r: "f_reader f = cmd_bytes cmd @ stream_bytes cmds @ rest" and ok: "cmd_ok cmd"
      using Cons.prems(1,2) by simp_all
    show ?case
      using IH loop_step[OF ok r, of clock i c c1] c1(1) by (simp add: after_cmds_Cons)
  qed
  then show "stream_loop clock i f c = stream_loop clock (i + length cmds) (after_cmds clock i cmds rest f) c'"
    and "sync_loop clock i f c = sync_loop clock (i + length cmds) (after_cmds clock i cmds rest f) c'" by simp_all
qed

lemma stream_loop_end: "f_reader f = [] \<Longrightarrow> stream_loop clock i f c = Some (Some EOF, f, c)"
  by (subst stream_loop.simps) (simp add: Parse.simps)

lemma cmd_keys_zip: "length ts = length cmds \<Longrightarrow> (\<Union>x \<in> set (zip ts cmds). cmd_keys x) = r_Key ` set cmds"
  by (induction ts cmds rule: list_induct2) (auto simp: cmd_keys_def)

lemma apply_cmds:
  assumes "cache_ready c" and "int (card (dom (entries c) \<union> r_Key ` set cmds)) \<le> maxSize c" and "length ts = length cmds"
  shows "\<exists>c'. foreach apply_cmd (zip ts cmds) c = Some c' \<and> cache_ready c' \<and>
    entries c' = fold cmd_eff (zip ts cmds) (entries c) \<and> cache_room c' = cache_room c"
proof (rule repl.replay[where K = "dom (entries c) \<union> r_Key ` set cmds"])
  show "finite (dom (entries c) \<union> r_Key ` set cmds)"
    by (simp add: entries_dom finite_dom_map_of)
qed (use assms in \<open>auto simp: cmd_keys_zip cache_room_def\<close>)

lemma stream_processed:
  assumes "list_all cmd_ok cmds" and "f_conn f \<noteq> None" and "f_reader f = stream_bytes cmds" and "cache_ready c"
    and "int (card (dom (entries c) \<union> r_Key ` set cmds)) \<le> maxSize c"
  shows "\<exists>f' c'. processReplicationStream clock f c = Some (Some EOF, f', c') \<and> cache_ready c' \<and>
    entries c' = fold cmd_eff (zip (map clock [0..<length cmds]) cmds) (entries c) \<and>
    lastSeqNum f' = fold max (map r_SeqNum cmds) (lastSeqNum f)"
proof -
  obtain c' where c': "foreach apply_cmd (zip (map clock [0..<0 + length cmds]) cmds) c = Some c'" "cache_ready c'"
    "entries c' = fold cmd_eff (zip (map clock [0..<length cmds]) cmds) (entries c)"
    using apply_cmds[OF assms(4,5), of "map clock [0..<length cmds]"] by auto
  have "f_reader f = stream_bytes cmds @ []" using assms(3) by simp
  from loop_cmds(1)[OF assms(1) this c'(1)] stream_loop_end[of "after_cmds clock 0 cmds [] f"] c' assms(2) show ?thesis
    by (auto simp: processReplicationStream_def after_cmds_def)
qed

section \<open>The leader sends\<close>

definition one_conn :: "nat \<Rightarrow> FollowerConn list \<Rightarrow> bool" where
  "one_conn conn fs \<longleftrightarrow> length (filter (\<lambda>f. fc_conn f = conn) fs) = 1"

lemma wire_send: "wire (send bytes c l) conn = (if conn = c then wire l conn @ bytes else wire l conn)"
  by (simp add: wire_def send_def gget_gset)

lemma send_simps [simp]: "followers (send bytes c l) = followers l" "seqNum (send bytes c l) = seqNum l"
  by (simp_all add: send_def)

lemma send_all_fold:
  defines "f \<equiv> \<lambda>ok bytes fc l. if ok (fc_conn fc) then send bytes (fc_conn fc) l else l"
  shows "wire (fold (f ok bytes) fs l) conn =
      wire l conn @ concat (map (\<lambda>fc. bytes) (filter (\<lambda>fc. fc_conn fc = conn \<and> ok conn) fs))"
    "followers (fold (f ok bytes) fs l) = followers l" "seqNum (fold (f ok bytes) fs l) = seqNum l"
  by (induction fs arbitrary: l) (auto simp: f_def wire_send)

lemma send_all_simps [simp]:
  "followers (send_all ok bytes l) = followers l" "seqNum (send_all ok bytes l) = seqNum l"
  unfolding send_all_def by (rule send_all_fold)+

lemma wire_send_all:
  "one_conn conn (followers l) \<Longrightarrow> ok conn \<Longrightarrow> wire (send_all ok bytes l) conn = wire l conn @ bytes"
  unfolding send_all_def send_all_fold one_conn_def
  by (auto simp: length_Suc_conv)

lemma wire_send_all_other:
  "\<forall>fc \<in> set (followers l). fc_conn fc \<noteq> conn \<Longrightarrow> wire (send_all ok bytes l) conn = wire l conn"
  unfolding send_all_def send_all_fold by (auto simp: filter_empty_conv)

text \<open>A sequence of calls of \<open>Replicate\<close>, and the commands they stand for.\<close>

type_synonym call = "string \<times> string \<times> string \<times> int"

definition replicate_call :: "(nat \<Rightarrow> bool) \<Rightarrow> call \<Rightarrow> Leader \<Rightarrow> Leader option" where
  "replicate_call ok = (\<lambda>(operation, k, v, ttl) l. map_option snd (Replicate ok operation k v ttl l))"

fun numbered :: "int \<Rightarrow> call list \<Rightarrow> ReplicateCommand list" where
  "numbered n [] = []"
| "numbered n ((operation, k, v, ttl) # calls) =
     \<lparr>r_SeqNum = n + 1, r_Operation = operation, r_Key = k, r_Value = v, r_TTL = ttl\<rparr> # numbered (n + 1) calls"

definition call_ok :: "call \<Rightarrow> bool" where
  "call_ok = (\<lambda>(operation, k, v, ttl). small k \<and>
     (operation = OpSet \<and> small v \<and> in_i64 ttl \<or> operation = OpDelete \<and> v = [] \<and> ttl = 0))"

lemma numbered_ok:
  "list_all call_ok calls \<Longrightarrow> 0 \<le> n \<Longrightarrow> n + int (length calls) < 9223372036854775808 \<Longrightarrow> list_all cmd_ok (numbered n calls)"
  by (induction calls arbitrary: n) (auto simp: call_ok_def cmd_ok_def in_i64_def)

lemma numbered_seq: "0 \<le> n \<Longrightarrow> fold max (map r_SeqNum (numbered n calls)) n = n + int (length calls)"
  by (induction calls arbitrary: n) (auto simp: max_def)

lemma numbered_keys: "r_Key ` set (numbered n calls) = (\<lambda>(operation, k, v, ttl). k) ` set calls"
  by (induction n calls rule: numbered.induct) simp_all

lemma replicate_calls:
  assumes "list_all call_ok calls" and "0 \<le> seqNum l" and "seqNum l + int (length calls) < 9223372036854775808"
    and "one_conn conn (followers l)" and "ok conn"
  shows "\<exists>l'. foreach (replicate_call ok) calls l = Some l' \<and> followers l' = followers l \<and>
    seqNum l' = seqNum l + int (length calls) \<and> wire l' conn = wire l conn @ stream_bytes (numbered (seqNum l) calls)"
  using assms
proof (induction calls arbitrary: l)
  case (Cons x calls)
  obtain operation k v ttl where x: "x = (operation, k, v, ttl)" by (cases x) auto
  let ?cmd = "\<lparr>r_SeqNum = seqNum l + 1, r_Operation = operation, r_Key = k, r_Value = v, r_TTL = ttl\<rparr>"
  let ?l1 = "send_all ok (cmd_bytes ?cmd) (l\<lparr>seqNum := seqNum l + 1\<rparr>)"
  have ok: "cmd_ok ?cmd" using Cons.prems by (auto simp: x call_ok_def cmd_ok_def in_i64_def)
  have "i64 (seqNum l + 1) = seqNum l + 1" using Cons.prems by (intro i64_id) (simp add: in_i64_def)
  then have s: "replicate_call ok x l = Some ?l1"
    by (simp add: replicate_call_def x Replicate_def Parse_cmd_bytes(1)[OF ok])
  have w: "wire ?l1 conn = wire l conn @ cmd_bytes ?cmd"
    using wire_send_all[of conn "l\<lparr>seqNum := seqNum l + 1\<rparr>" ok "cmd_bytes ?cmd"] Cons.prems(4,5)
    by (simp add: wire_def)
  from Cons.IH[of ?l1] Cons.prems s w show ?case by (auto simp: x)
qed simp

text \<open>
  C16: Replication delivers. Whatever sequence of operations a leader replicates, a follower whose
  connection it writes to reads them all in order: it ends with the map that the operations describe
  (lifetimes counted from its own clock) and with the leader's sequence number.
\<close>

theorem replication_converges:
  assumes "list_all call_ok calls" and "0 \<le> seqNum l" and "seqNum l + int (length calls) < 9223372036854775808"
    and "one_conn conn (followers l)" and "ok conn" and "wire l conn = []"
    and "f_conn f \<noteq> None" and "lastSeqNum f = seqNum l" and "cache_ready c"
    and "int (card (dom (entries c) \<union> (\<lambda>(operation, k, v, ttl). k) ` set calls)) \<le> maxSize c"
  shows "\<exists>l' f' c'. foreach (replicate_call ok) calls l = Some l' \<and>
    processReplicationStream clock (f\<lparr>f_reader := wire l' conn\<rparr>) c = Some (Some EOF, f', c') \<and>
    entries c' = fold cmd_eff (zip (map clock [0..<length calls]) (numbered (seqNum l) calls)) (entries c) \<and>
    lastSeqNum f' = seqNum l'"
proof -
  obtain l' where l': "foreach (replicate_call ok) calls l = Some l'" "seqNum l' = seqNum l + int (length calls)"
    "wire l' conn = stream_bytes (numbered (seqNum l) calls)"
    using replicate_calls[OF assms(1-4), of ok] assms(5,6) by auto
  have len: "length (numbered n calls) = length calls" for n by (induction calls arbitrary: n) auto
  have "\<exists>f' c'. processReplicationStream clock (f\<lparr>f_reader := wire l' conn\<rparr>) c = Some (Some EOF, f', c') \<and> cache_ready c' \<and>
    entries c' = fold cmd_eff (zip (map clock [0..<length (numbered (seqNum l) calls)]) (numbered (seqNum l) calls)) (entries c) \<and>
    lastSeqNum f' = fold max (map r_SeqNum (numbered (seqNum l) calls)) (lastSeqNum (f\<lparr>f_reader := wire l' conn\<rparr>))"
    using assms numbered_ok[OF assms(1-3)] l'(3) by (intro stream_processed) (auto simp: numbered_keys)
  then show ?thesis using l' numbered_seq[OF assms(2)] assms(8) by (auto simp: len)
qed

definition sample_leader :: Leader where
  "sample_leader = \<lparr>followers = [\<lparr>fc_conn = 1, fc_id = ''f'', fc_lastHeartbeat = 0\<rparr>], seqNum = 0, replPort = 8000,
     l_closed = False, wires = [], conns_closed = []\<rparr>"

definition sample_follower :: Follower where
  "sample_follower = \<lparr>f_leaderAddr = ''h:1'', f_id = ''f'', f_conn = Some 1, f_reader = [], f_out = [], lastSeqNum = 0,
     f_lastHeartbeat = 0, isLeaderAlive = True, clusterNodes = [], myPriority = 0, myReplPort = 0, peerReplAddrs = [],
     promoted = False, stop_closed = False\<rparr>"

theorem replication_converges_witness:
  "\<exists>l' f' c'. foreach (replicate_call (\<lambda>_. True)) [(OpSet, ''k'', ''v'', 0), (OpDelete, ''j'', [], 0)] sample_leader = Some l' \<and>
    processReplicationStream (\<lambda>_. 5) (sample_follower\<lparr>f_reader := wire l' 1\<rparr>) (NewCache 4 []) = Some (Some EOF, f', c') \<and>
    entries c' ''k'' = Some (''v'', 0) \<and> lastSeqNum f' = seqNum l'"
proof -
  let ?calls = "[(OpSet, ''k'', ''v'', 0 :: int), (OpDelete, ''j'', [], 0)]"
  have "\<exists>l' f' c'. foreach (replicate_call (\<lambda>_. True)) ?calls sample_leader = Some l' \<and>
    processReplicationStream (\<lambda>_. 5) (sample_follower\<lparr>f_reader := wire l' 1\<rparr>) (NewCache 4 []) = Some (Some EOF, f', c') \<and>
    entries c' = fold cmd_eff (zip (map (\<lambda>_. 5) [0..<length ?calls]) (numbered (seqNum sample_leader) ?calls)) (entries (NewCache 4 [])) \<and>
    lastSeqNum f' = seqNum l'"
    using cache_ready_New[of 4 "[]"]
    by (intro replication_converges)
      (auto simp: sample_leader_def sample_follower_def call_ok_def small_def one_conn_def wire_def NewCache_def in_i64_def)
  moreover have "fold cmd_eff (zip (map (\<lambda>_. 5) [0..<length ?calls]) (numbered (seqNum sample_leader) ?calls)) m ''k'' = Some (''v'', 0)" for m
    by (simp add: upt_rec cmd_eff_def repl_names seconds_dur_def expiry_def i64_def)
  ultimately show ?thesis by metis
qed

section \<open>Synchronisation\<close>

text \<open>The commands that stand for the captured entries; a number is used up for every entry.\<close>

fun sync_cmds :: "time \<Rightarrow> int \<Rightarrow> (string, SnapshotEntry) gomap \<Rightarrow> ReplicateCommand list" where
  "sync_cmds now seq [] = []"
| "sync_cmds now seq ((k, e) # ord) =
     (if left_ttl now (ExpiresAt e) < 0 then []
      else [\<lparr>r_SeqNum = seq + 1, r_Operation = OpSet, r_Key = k, r_Value = Value e, r_TTL = Seconds (left_ttl now (ExpiresAt e))\<rparr>]) @
     sync_cmds now (seq + 1) ord"

lemma sync_cmds_keys: "r_Key ` set (sync_cmds now seq ord) \<subseteq> fst ` set ord"
  by (induction now seq ord rule: sync_cmds.induct) auto

lemma sync_cmds_seq: "c \<in> set (sync_cmds now seq ord) \<Longrightarrow> r_SeqNum c \<le> seq + int (length ord)"
  by (induction now seq ord rule: sync_cmds.induct) (auto split: if_splits)

lemma fold_max_bounds:
  fixes n :: int
  assumes "\<forall>x \<in> set xs. x \<le> b"
  shows "n \<le> fold max xs n \<and> fold max xs n \<le> max n b"
  using assms
proof (induction xs arbitrary: n)
  case (Cons x xs)
  from Cons.IH[of "max x n"] Cons.prems show ?case by (auto simp: max_def split: if_splits)
qed simp

lemma sync_entries_cmds:
  assumes "list_all cmd_ok (sync_cmds now seq ord)" and "0 \<le> seq" and "seq + int (length ord) < 9223372036854775808"
  shows "sync_entries (\<lambda>_. now) i ord seq out = Some (True, out @ stream_bytes (sync_cmds now seq ord), seq + int (length ord))"
  using assms
proof (induction ord arbitrary: i seq out)
  case (Cons x ord)
  obtain k e where x: "x = (k, e)" by (cases x)
  have s: "i64 (seq + 1) = seq + 1" using Cons.prems(2,3) by (intro i64_id) (simp add: in_i64_def)
  have ttl: "(if IsZero (ExpiresAt e) then 0 else Until now (ExpiresAt e)) = left_ttl now (ExpiresAt e)"
    by (simp add: left_ttl_def)
  have IH: "sync_entries (\<lambda>_. now) (Suc i) ord (seq + 1) out' =
      Some (True, out' @ stream_bytes (sync_cmds now (seq + 1) ord), seq + 1 + int (length ord))" for out'
    using Cons.prems by (intro Cons.IH) (auto simp: x split: if_splits)
  show ?case
  proof (cases "left_ttl now (ExpiresAt e) < 0")
    case True
    then show ?thesis by (simp only: x sync_entries.simps Let_def ttl s if_True IH) (simp add: True)
  next
    case False
    let ?cmd = "\<lparr>r_SeqNum = seq + 1, r_Operation = OpSet, r_Key = k, r_Value = Value e, r_TTL = Seconds (left_ttl now (ExpiresAt e))\<rparr>"
    have "cmd_ok ?cmd" using Cons.prems(1) False by (simp add: x)
    from Parse_cmd_bytes(1)[OF this] show ?thesis
      by (simp only: x sync_entries.simps Let_def ttl s if_False False) (simp add: IH False)
  qed
qed simp

lemma sync_cmds_wf:
  assumes "map_of ord = (\<lambda>k. map_option (\<lambda>(v, t). \<lparr>Value = v, ExpiresAt = t\<rparr>) (m k))" and "gmap_ok ord" and "sizes_ok m"
    and "0 \<le> seq" and "seq + int (length ord) < 9223372036854775808"
  shows "list_all cmd_ok (sync_cmds now seq ord)"
proof -
  have e: "small k \<and> small (Value e)" if "(k, e) \<in> set ord" for k e
  proof -
    have "map_of ord k = Some e" using that assms(2) by (simp add: gmap_ok_def)
    then obtain v t where vt: "m k = Some (v, t)" "Value e = v" using assms(1) by auto
    show ?thesis using assms(3)[unfolded sizes_ok_def, rule_format, OF vt(1)] vt(2) by (simp add: small_def)
  qed
  have t: "in_i64 (Seconds (left_ttl now t))" if "0 \<le> left_ttl now t" for t
    using that by (intro Seconds_in_i64) (auto simp: left_ttl_def Until_def)
  have "list_all cmd_ok (sync_cmds now seq ord')" if "set ord' \<subseteq> set ord" "0 \<le> seq" "seq + int (length ord') < 9223372036854775808" for ord' seq
    using that
  proof (induction ord' arbitrary: seq)
    case (Cons x ord')
    obtain k v where x: "x = (k, v)" by (cases x)
    have "list_all cmd_ok (sync_cmds now (seq + 1) ord')" using Cons.prems by (intro Cons.IH) auto
    moreover have "small k \<and> small (Value v)" using e[of k v] Cons.prems(1) by (simp add: x)
    moreover have "in_i64 (seq + 1)" using Cons.prems(2,3) by (simp add: in_i64_def)
    ultimately show ?case
      using t[of "ExpiresAt v"] cmd_ok_def[of "\<lparr>r_SeqNum = seq + 1, r_Operation = OpSet, r_Key = k, r_Value = Value v,
          r_TTL = Seconds (left_ttl now (ExpiresAt v))\<rparr>"] by (simp add: x)
  qed simp
  from this[OF subset_refl assms(4,5)] show ?thesis .
qed

lemma fold_cmd_eff_sync:
  assumes "gmap_ok ord"
  shows "fold cmd_eff (map (Pair later) (sync_cmds now seq ord)) m k =
    (case map_of ord k of
       None \<Rightarrow> m k
     | Some e \<Rightarrow> if left_ttl now (ExpiresAt e) < 0 then m k
               else Some (Value e, expiry later (seconds_dur (Seconds (left_ttl now (ExpiresAt e))))))"
  using assms
proof (induction ord arbitrary: m seq)
  case (Cons x ord)
  obtain k' e where x: "x = (k', e)" by (cases x)
  have "gmap_ok ord" "map_of ord k' = None"
    using Cons.prems by (auto simp: gmap_ok_def x map_of_eq_None_iff)
  with Cons.IH show ?case by (auto simp: x cmd_eff_def split: option.splits)
qed simp

lemma SyncEnd_read:
  assumes "in_i64 seq" and "EncodeSyncEnd seq = Some e" and "f_reader f = e"
  shows "sync_loop clock i f c = Some (None, bump seq (f\<lparr>f_reader := [], f_lastHeartbeat := clock i\<rparr>), c)"
proof -
  have "Parse (e @ []) = Some (Inr (Slice (map parsed [Str CmdSyncEnd, Int64 seq])), length e)"
    using Parse_EncodeArray[of "[Str CmdSyncEnd, Int64 seq]" "[]"] assms(1,2) by (auto simp: EncodeSyncEnd_def CmdSyncEnd_def)
  then show ?thesis
    by (subst sync_loop.simps) (simp add: assms(3) DecodeSyncEnd_def repl_names)
qed

lemma sync_stream_read:
  assumes ord: "map_of ord = (\<lambda>k. map_option (\<lambda>(v, t). \<lparr>Value = v, ExpiresAt = t\<rparr>) (m k))" "gmap_ok ord" and sizes: "sizes_ok m"
    and seq: "0 \<le> seq" "seq + int (length ord) < 9223372036854775808"
    and e: "EncodeSyncEnd (seq + int (length ord)) = Some e"
    and f: "f_reader f = stream_bytes (sync_cmds now seq ord) @ e"
    and d: "cache_ready d" "int (card (dom (entries d) \<union> dom m)) \<le> maxSize d"
  shows "\<exists>f' d'. sync_loop (\<lambda>_. later) 0 f d = Some (None, f', d') \<and> cache_ready d' \<and>
    (\<forall>k. entries d' k = (case restarted now later m k of None \<Rightarrow> entries d k | Some x \<Rightarrow> Some x)) \<and>
    lastSeqNum f' = max (lastSeqNum f) (seq + int (length ord))"
proof -
  let ?cmds = "sync_cmds now seq ord" and ?n = "seq + int (length ord)"
  have wf: "list_all cmd_ok ?cmds" using sync_cmds_wf[OF ord sizes seq] .
  have "r_Key ` set ?cmds \<subseteq> dom m"
    using sync_cmds_keys[of now seq ord] dom_map_of_conv_image_fst[of ord] arg_cong[OF ord(1), of dom] by (simp add: dom_def)
  moreover have "finite (dom m)"
    using finite_dom_map_of[of ord] unfolding ord(1) by (simp add: dom_def)
  ultimately have "card (dom (entries d) \<union> r_Key ` set ?cmds) \<le> card (dom (entries d) \<union> dom m)"
    by (intro card_mono) (auto simp: entries_dom finite_dom_map_of)
  then have "\<exists>d'. foreach apply_cmd (zip (map (\<lambda>_. later) [0..<length ?cmds]) ?cmds) d = Some d' \<and> cache_ready d' \<and>
    entries d' = fold cmd_eff (zip (map (\<lambda>_. later) [0..<length ?cmds]) ?cmds) (entries d) \<and> cache_room d' = cache_room d"
    using d by (intro apply_cmds) auto
  then obtain d' where d': "foreach apply_cmd (zip (map (\<lambda>_. later) [0..<0 + length ?cmds]) ?cmds) d = Some d'" "cache_ready d'"
    "entries d' = fold cmd_eff (map (Pair later) ?cmds) (entries d)"
    using zip_const[of later ?cmds] by auto
  have f1: "f_reader (after_cmds (\<lambda>_. later) 0 ?cmds e f) = e" by (simp add: after_cmds_def)
  have n: "in_i64 ?n" using seq by (simp add: in_i64_def)
  have run: "sync_loop (\<lambda>_. later) 0 f d = Some (None, bump ?n ((after_cmds (\<lambda>_. later) 0 ?cmds e f)\<lparr>f_reader := [], f_lastHeartbeat := later\<rparr>), d')"
    using loop_cmds(2)[OF wf f, of "\<lambda>_. later" 0 d d'] d'(1) SyncEnd_read[OF n e f1] by simp
  have "\<forall>x \<in> set (map r_SeqNum ?cmds). x \<le> ?n" using sync_cmds_seq by auto
  from fold_max_bounds[OF this, of "lastSeqNum f"]
  have "lastSeqNum (bump ?n ((after_cmds (\<lambda>_. later) 0 ?cmds e f)\<lparr>f_reader := [], f_lastHeartbeat := later\<rparr>)) = max (lastSeqNum f) ?n"
    by (auto simp: bump_def after_cmds_def max_def)
  moreover have "entries d' k = (case restarted now later m k of None \<Rightarrow> entries d k | Some x \<Rightarrow> Some x)" for k
    unfolding d'(3) fold_cmd_eff_sync[OF ord(2)] ord(1) by (auto simp: restarted_def split: option.splits)
  ultimately show ?thesis using run d'(2) by auto
qed

text \<open>
  C24: A synchronisation gives the follower every entry that the leader had captured and that had not
  expired, and brings its sequence number up to the leader's. It does no more than that: what the
  follower held under other keys stays, even if the leader has deleted it, and a write that another
  connection replicates after the capture (\<open>between\<close>) is not part of it, although the final
  sequence number counts it.
\<close>

theorem full_sync_copies:
  assumes "DecodeSyncRequest reader = Some (Inr req, k0)" and "cache_ready c" and "sizes_ok (entries c)"
    and "\<And>m. gmap_ok m \<Longrightarrow> is_range (pick m) m"
    and "between (c, l) = (c1, l1)" and "wire l1 conn = []" and "0 \<le> seqNum l1"
    and "seqNum l1 + int (card (dom (entries c))) < 9223372036854775808"
    and "f_conn f \<noteq> None" and "cache_ready d" and "int (card (dom (entries d) \<union> dom (entries c))) \<le> maxSize d"
  shows "\<exists>l' f' d'. handleFollower_sync True (\<lambda>_. now) pick between now2 conn reader c l = Some (Some (FollowerID req, drop k0 reader), c1, l') \<and>
    sendSyncRequest (\<lambda>_. later) (f\<lparr>f_reader := wire l' conn\<rparr>) d = Some (None, f', d') \<and>
    (\<forall>k. entries d' k = (case restarted now later (entries c) k of None \<Rightarrow> entries d k | Some x \<Rightarrow> Some x)) \<and>
    lastSeqNum f' = max (lastSeqNum f) (seqNum l')"
proof -
  obtain snap where snap: "Snapshot c = Some (snap, c)" "gmap_ok snap"
    "map_of snap = (\<lambda>k. map_option (\<lambda>(v, t). \<lparr>Value = v, ExpiresAt = t\<rparr>) (entries c k))"
    using Snapshot_entries[OF assms(2)] .
  let ?ord = "pick snap" and ?n = "seqNum l1 + int (length (pick snap))"
  have ord: "map_of ?ord = (\<lambda>k. map_option (\<lambda>(v, t). \<lparr>Value = v, ExpiresAt = t\<rparr>) (entries c k))" "gmap_ok ?ord"
    using assms(4)[OF snap(2)] snap(3) by (auto simp: is_range_def)
  have "length ?ord = card (dom (entries c))"
    using gmap_len[OF ord(2)] unfolding ord(1) by (simp add: dom_def)
  then have seq: "?n < 9223372036854775808" using assms(8) by simp
  have wf: "list_all cmd_ok (sync_cmds now (seqNum l1) ?ord)" using sync_cmds_wf[OF ord assms(3,7) seq] .
  obtain e where e: "EncodeSyncEnd ?n = Some e" by (simp add: EncodeSyncEnd_def EncodeArray_def)
  define l' where "l' = addFollower now2 (FollowerID req) conn (send (stream_bytes (sync_cmds now (seqNum l1) ?ord) @ e) conn (l1\<lparr>seqNum := ?n\<rparr>))"
  have leader: "handleFollower_sync True (\<lambda>_. now) pick between now2 conn reader c l = Some (Some (FollowerID req, drop k0 reader), c1, l')"
    using assms(1,5) snap(1) sync_entries_cmds[OF wf assms(7) seq] e by (simp add: handleFollower_sync_def l'_def)
  have w: "wire l' conn = stream_bytes (sync_cmds now (seqNum l1) ?ord) @ e"
    using assms(6) wire_send[of _ conn "l1\<lparr>seqNum := ?n\<rparr>" conn] by (simp add: addFollower_def wire_def l'_def)
  have n: "seqNum l' = ?n" by (simp add: addFollower_def l'_def)
  obtain b where b: "EncodeSyncRequest (Some \<lparr>FollowerID = f_id f, LastSeqNum = lastSeqNum f\<rparr>) = Some (Inr b)"
    by (simp add: EncodeSyncRequest_def EncodeArray_def)
  define g where "g = f\<lparr>f_reader := wire l' conn, f_out := f_out f @ b\<rparr>"
  have g: "f_reader g = stream_bytes (sync_cmds now (seqNum l1) ?ord) @ e" "lastSeqNum g = lastSeqNum f"
    by (simp_all add: g_def w)
  have "sendSyncRequest (\<lambda>_. later) (f\<lparr>f_reader := wire l' conn\<rparr>) d = sync_loop (\<lambda>_. later) 0 g d"
    using b assms(9) by (auto simp: sendSyncRequest_def g_def)
  then show ?thesis
    using sync_stream_read[OF ord assms(3,7) seq e g(1) assms(10,11), of later] leader n unfolding g(2)
    by (intro exI[of _ l']) auto
qed

lemma sample_sync_request:
  obtains r k where "DecodeSyncRequest r = Some (Inr \<lparr>FollowerID = ''f'', LastSeqNum = 0\<rparr>, k)"
proof -
  obtain e where "Parse (e @ []) = Some (Inr (Slice (map parsed [Str CmdSync, Str ''f'', Int64 0])), length e)"
    using Parse_EncodeArray[of "[Str CmdSync, Str ''f'', Int64 0]" "[]"] by (auto simp: CmdSync_def in_i64_def)
  then have "DecodeSyncRequest e = Some (Inr \<lparr>FollowerID = ''f'', LastSeqNum = 0\<rparr>, length e)"
    by (simp add: DecodeSyncRequest_def sync_request_def)
  then show ?thesis by (rule that)
qed

theorem full_sync_copies_witness:
  "\<exists>c reader reg l' f' d'. Set 1 ''k'' ''v'' 0 (NewCache 3 []) = Some c \<and>
    handleFollower_sync True (\<lambda>_. 2) id id 2 7 reader c sample_leader = Some (reg, c, l') \<and>
    sendSyncRequest (\<lambda>_. 9) (sample_follower\<lparr>f_reader := wire l' 7\<rparr>) (NewCache 3 []) = Some (None, f', d') \<and>
    entries d' ''k'' = Some (''v'', 0) \<and> lastSeqNum f' = max 0 (seqNum l')"
proof -
  obtain c where c: "Set 1 ''k'' ''v'' 0 (NewCache 3 []) = Some c" "cache_ready c" "entries c = [''k'' \<mapsto> (''v'', 0)]"
    by (rule sample_cache)
  obtain r k0 where r: "DecodeSyncRequest r = Some (Inr \<lparr>FollowerID = ''f'', LastSeqNum = 0\<rparr>, k0)" by (rule sample_sync_request)
  have d: "cache_ready (NewCache 3 [])" "entries (NewCache 3 []) = Map.empty" using cache_ready_New[of 3 "[]"] by auto
  have "\<exists>l' f' d'. handleFollower_sync True (\<lambda>_. 2) id id 2 7 r c sample_leader =
      Some (Some (FollowerID \<lparr>FollowerID = ''f'', LastSeqNum = 0\<rparr>, drop k0 r), c, l') \<and>
    sendSyncRequest (\<lambda>_. 9) (sample_follower\<lparr>f_reader := wire l' 7\<rparr>) (NewCache 3 []) = Some (None, f', d') \<and>
    (\<forall>k. entries d' k = (case restarted 2 9 (entries c) k of None \<Rightarrow> entries (NewCache 3 []) k | Some x \<Rightarrow> Some x)) \<and>
    lastSeqNum f' = max (lastSeqNum sample_follower) (seqNum l')"
    by (rule full_sync_copies[where ?c1.0 = c and ?l1.0 = sample_leader, OF r c(2)])
      (use d c(3) in \<open>simp_all add: sizes_ok_def sample_leader_def sample_follower_def wire_def NewCache_def\<close>)
  moreover have "restarted 2 9 (entries c) ''k'' = Some (''v'', 0)"
    by (simp add: c(3) restarted_def left_ttl_def IsZero_def Seconds_below_one seconds_dur_def expiry_def i64_def)
  ultimately obtain l' f' d' where *: "handleFollower_sync True (\<lambda>_. 2) id id 2 7 r c sample_leader =
      Some (Some (''f'', drop k0 r), c, l')"
    "sendSyncRequest (\<lambda>_. 9) (sample_follower\<lparr>f_reader := wire l' 7\<rparr>) (NewCache 3 []) = Some (None, f', d')"
    "entries d' ''k'' = Some (''v'', 0)" "lastSeqNum f' = max 0 (seqNum l')"
    by (auto simp: sample_follower_def)
  with c(1) show ?thesis by blast
qed

section \<open>Elections\<close>

lemma JoinHostPort_not_Nil [simp]: "JoinHostPort h p \<noteq> []"
  by (simp add: JoinHostPort_def)



text \<open>The node with the higher priority waits less, so it is the first to look for a leader.\<close>

lemma fold_max_priority:
  "fold (\<lambda>n m. if n_Priority n > m then n_Priority n else m) ns p = fold max (map n_Priority ns) p"
  by (induction ns arbitrary: p) (auto simp: max_def)

lemma fold_max_Max: "fold max ps (p :: int) = Max (insert p (set ps))"
proof (induction ps arbitrary: p)
  case (Cons x ps)
  have "fold max (x # ps) p = Max (insert (max x p) (set ps))" using Cons[of "max x p"] by simp
  also have "\<dots> = Max (insert p (set (x # ps)))"
    by (cases "set ps = {}") (simp_all add: max.assoc max.commute max.left_commute)
  finally show ?case .
qed simp

lemma higher_priority_waits_less:
  assumes "clusterNodes g = clusterNodes f" and "myPriority g < myPriority f" and "0 \<le> myPriority g"
    and "\<exists>n \<in> set (clusterNodes f). n_Priority n = myPriority f" and "\<forall>n \<in> set (clusterNodes f). n_Priority n \<le> 1000000000"
  shows "waitTime f < waitTime g"
proof -
  let ?P = "n_Priority ` set (clusterNodes f)"
  have P: "finite ?P" "myPriority f \<in> ?P" using assms(4) by (auto intro: rev_image_eqI)
  then have le: "myPriority f \<le> Max ?P" by simp
  have "Max (insert (myPriority f) ?P) = Max ?P" using P(2) by (simp only: insert_absorb)
  moreover have "Max (insert (myPriority g) ?P) = max (myPriority g) (Max ?P)" using P by (intro Max_insert) auto
  then have "Max (insert (myPriority g) ?P) = Max ?P" using le assms(2) by simp
  moreover have "Max ?P \<le> 1000000000" using P assms(5) by (subst Max_le_iff) auto
  ultimately have "waitTime f = (Max ?P - myPriority f + 1) * 500000000" "waitTime g = (Max ?P - myPriority g + 1) * 500000000"
    using assms(1,2,3) le by (simp_all add: waitTime_def fold_max_priority fold_max_Max Let_def Millisecond_def in_i64_def)
  with assms(2) show ?thesis by simp
qed

text \<open>
  The loop of \<open>Start\<close> while the leader cannot be reached: the actions of \<open>n\<close> turns.
\<close>

fun retry_turns :: "nat \<Rightarrow> retry \<Rightarrow> Follower \<Rightarrow> Cache \<Rightarrow> turn list option" where
  "retry_turns 0 r f c = Some []"
| "retry_turns (Suc n) r f c = do {
     (t, r, f, c) \<leftarrow> start_turn (\<lambda>_. None) (\<lambda>_. 0) 0 (\<lambda>_. 0) r f c;
     ts \<leftarrow> retry_turns n r f c;
     Some (t # ts)
   }"

definition wait_of :: "nat \<Rightarrow> duration" where
  "wait_of i = min (200 * Millisecond * 2 ^ i) (5 * Second)"

lemma wait_of_Suc: "min (2 * wait_of i) (5 * Second) = wait_of (Suc i)"
  by (auto simp: wait_of_def min_def Second_def Millisecond_def)

lemma retry_turns_from:
  assumes "\<not> stop_closed f" and "\<not> promoted f"
  shows "retry_turns n \<lparr>backoff = wait_of j, failedAttempts = (if clusterNodes f = [] then int j else int (j mod 7))\<rparr> f c =
    Some (map (\<lambda>i. Retries (wait_of i) (clusterNodes f \<noteq> [] \<and> i mod 7 = 6)) [j..<j + n])"
proof (induction n arbitrary: j)
  case (Suc n)
  have m: "int (j mod 7) + 1 \<ge> 7 \<longleftrightarrow> j mod 7 = 6" "j mod 7 \<noteq> 6 \<Longrightarrow> int (Suc j mod 7) = int (j mod 7) + 1"
    "j mod 7 = 6 \<Longrightarrow> Suc j mod 7 = 0" by (presburger | simp add: mod_Suc)+
  have "start_turn (\<lambda>_. None) (\<lambda>_. 0) 0 (\<lambda>_. 0)
      \<lparr>backoff = wait_of j, failedAttempts = (if clusterNodes f = [] then int j else int (j mod 7))\<rparr> f c =
    Some (Retries (wait_of j) (clusterNodes f \<noteq> [] \<and> j mod 7 = 6),
      \<lparr>backoff = wait_of (Suc j), failedAttempts = (if clusterNodes f = [] then int (Suc j) else int (Suc j mod 7))\<rparr>, f, c)"
    using assms m by (auto simp: start_turn_def connectToLeader_def Let_def wait_of_Suc)
  moreover have "[j..<j + Suc n] = j # [Suc j..<Suc j + n]" by (simp add: upt_conv_Cons del: upt_Suc)
  ultimately show ?case using Suc[of "Suc j"] by simp
qed simp

text \<open>
  C35: Liveness of elections. A follower of a cluster that cannot reach its leader starts an election
  at every seventh attempt, and it never waits longer than five seconds between two attempts; the
  waiting time doubles from 200 milliseconds on.
\<close>

theorem election_after_failures:
  assumes "\<not> stop_closed f" and "\<not> promoted f" and "clusterNodes f \<noteq> []"
  shows "retry_turns n fresh_retry f c =
      Some (map (\<lambda>i. Retries (min (200 * Millisecond * 2 ^ i) (5 * Second)) (i mod 7 = 6)) [0..<n])"
  using retry_turns_from[OF assms(1,2), of n 0 c] assms(3)
  by (simp add: wait_of_def fresh_retry_def Millisecond_def Second_def)

theorem election_after_failures_witness:
  "retry_turns 2 fresh_retry (sample_follower\<lparr>clusterNodes := [\<lparr>n_ID = ''n'', n_Host = ''h'', n_Port = 1, n_ReplPort = 2,
       n_Priority = 1, n_ShardID = ''s'', n_Role = []\<rparr>]\<rparr>) (NewCache 1 []) =
     Some [Retries 200000000 False, Retries 400000000 False]"
  by (subst election_after_failures) (simp_all add: sample_follower_def upt_rec Millisecond_def Second_def)

end
