(* ===== verification/Key_Transfer.thy ===== *)
theory Key_Transfer
  imports Cache_Laws Migration Resp Replay "HOL-Library.Signed_Division"
begin

text \<open>
  The transfer of keys between nodes (\<open>internal/cluster/transfer.go\<close>) and the migrator that moves
  the keys of a hash range when a node joins or leaves (\<open>internal/cluster/migrator.go\<close>).

  The other nodes are a state of a type \<open>'s\<close> that is reached through a network: \<open>net_dial\<close> opens a
  connection to an address, \<open>net_talk\<close> writes bytes to it and returns the error of the write,
  the bytes that arrive in answer before the read deadline, and the new state of the other nodes.
  The locale \<open>key_node\<close> states what a node promises that stores keys; its lemmas show what a
  transfer achieves. The theory \<open>Cluster_Laws\<close> interprets it on the request handler.
\<close>

section \<open>Network\<close>

record 's network =
  net_dial :: "string \<Rightarrow> 's \<Rightarrow> gerror option \<times> 's"
  net_talk :: "string \<Rightarrow> string \<Rightarrow> 's \<Rightarrow> gerror option \<times> string \<times> 's"

fun error_text :: "gerror \<Rightarrow> string" where
  "error_text EOF = ''EOF''"
| "error_text UnexpectedEOF = ''unexpected EOF''"
| "error_text (Err s) = s"

text \<open>The slice expression \<open>xs[i:j]\<close> for bounds within the length.\<close>

definition slice :: "'a list \<Rightarrow> int \<Rightarrow> int \<Rightarrow> 'a list option" where
  "slice xs i j = (if 0 \<le> i \<and> i \<le> j \<and> j \<le> int (length xs) then Some (take (nat j - nat i) (drop (nat i) xs)) else None)"

section \<open>Transfer\<close>

fun isOKResponse :: "iface \<Rightarrow> bool" where
  "isOKResponse (Str v) = (v = ''OK'')"
| "isOKResponse _ = False"

text \<open>The body of the loop over the keys; the state holds the two counters and the unread bytes.\<close>

definition transfer_key ::
    "'s network \<Rightarrow> string \<Rightarrow> (string, string) gomap \<Rightarrow> string \<Rightarrow> nat \<times> nat \<times> string \<times> 's \<Rightarrow>
     (nat \<times> nat \<times> string \<times> 's) option" where
  "transfer_key net addr values k = (\<lambda>(successCount, failCount, reader, s). do {
     cmd \<leftarrow> EncodeArray [Str ''SET'', Str k, Str (get0 values k)];
     let (err, reply, s) = net_talk net addr cmd s;
     let reader = reader @ reply;
     if err \<noteq> None then Some (successCount, failCount + 1, reader, s)
     else do {
       (response, n) \<leftarrow> Parse reader;
       let reader = drop n reader;
       (case response of
          Inl _ \<Rightarrow> Some (successCount, failCount + 1, reader, s)
        | Inr v \<Rightarrow>
            if \<not> isOKResponse v then Some (successCount, failCount + 1, reader, s)
            else Some (successCount + 1, failCount, reader, s))
     }
   })"

definition transfer_result :: "nat \<Rightarrow> gerror option" where
  "transfer_result failCount =
     (if failCount > 0 then Some (Err (''transfer incomplete: '' @ Itoa (int failCount) @ '' keys failed'')) else None)"

definition transferKeysOnConnection ::
    "'s network \<Rightarrow> string \<Rightarrow> string list \<Rightarrow> (string, string) gomap \<Rightarrow> string \<times> 's \<Rightarrow>
     (gerror option \<times> string \<times> 's) option" where
  "transferKeysOnConnection net addr keys values = (\<lambda>(reader, s). do {
     (successCount, failCount, reader, s) \<leftarrow> foreach (transfer_key net addr values) keys (0, 0, reader, s);
     Some (transfer_result failCount, reader, s)
   })"

definition TransferKeys ::
    "'s network \<Rightarrow> string \<Rightarrow> string list \<Rightarrow> (string, string) gomap \<Rightarrow> 's \<Rightarrow> (gerror option \<times> 's) option" where
  "TransferKeys net addr keys values s =
     (case net_dial net addr s of
        (Some err, s) \<Rightarrow> Some (Some (Err (''failed to connect to '' @ addr @ '': '' @ error_text err)), s)
      | (None, s) \<Rightarrow> do {
          (successCount, failCount, reader, s) \<leftarrow> foreach (transfer_key net addr values) keys (0, 0, [], s);
          Some (transfer_result failCount, s)
        })"

text \<open>
  \<open>TransferKeysWithRetry\<close>: the loop from \<open>attempt\<close> on, with \<open>left\<close> attempts to come. The second
  result lists the waiting times between the attempts.
\<close>

fun transfer_attempts ::
    "'s network \<Rightarrow> string \<Rightarrow> string list \<Rightarrow> (string, string) gomap \<Rightarrow> int \<Rightarrow> nat \<Rightarrow> int \<Rightarrow> gerror option \<Rightarrow> 's \<Rightarrow>
     (gerror option \<times> duration list \<times> 's) option" where
  "transfer_attempts net addr keys values maxRetries 0 attempt lastErr s =
     Some (Some (Err (''transfer failed after '' @ Itoa maxRetries @ '' attempts: '' @
       (case lastErr of None \<Rightarrow> ''<nil>'' | Some err \<Rightarrow> error_text err))), [], s)"
| "transfer_attempts net addr keys values maxRetries (Suc left) attempt lastErr s = do {
     (err, s) \<leftarrow> TransferKeys net addr keys values s;
     if err = None then Some (None, [], s)
     else do {
       (res, waits, s) \<leftarrow> transfer_attempts net addr keys values maxRetries left (attempt + 1) err s;
       Some (res, (if attempt < maxRetries then [seconds_dur attempt] else []) @ waits, s)
     }
   }"

definition TransferKeysWithRetry ::
    "'s network \<Rightarrow> string \<Rightarrow> string list \<Rightarrow> (string, string) gomap \<Rightarrow> int \<Rightarrow> 's \<Rightarrow>
     (gerror option \<times> duration list \<times> 's) option" where
  "TransferKeysWithRetry net addr keys values maxRetries s =
     transfer_attempts net addr keys values maxRetries (nat maxRetries) 1 None s"

text \<open>The loop of \<open>TransferKeysBatch\<close> over the numbers of the batches.\<close>

fun batch_loop ::
    "'s network \<Rightarrow> string \<Rightarrow> string list \<Rightarrow> (string, string) gomap \<Rightarrow> int \<Rightarrow> nat list \<Rightarrow> string \<times> 's \<Rightarrow>
     (gerror option \<times> 's) option" where
  "batch_loop net addr keys values batchSize [] (reader, s) = Some (None, s)"
| "batch_loop net addr keys values batchSize (i # is) (reader, s) = do {
     let start = int i * batchSize;
     let end' = min (start + batchSize) (int (length keys));
     batchKeys \<leftarrow> slice keys start end';
     let batchValues = fold (\<lambda>k m. gset k (get0 values k) m) batchKeys [];
     (err, reader, s) \<leftarrow> transferKeysOnConnection net addr batchKeys batchValues (reader, s);
     (case err of
        Some e \<Rightarrow> Some (Some (Err (''batch '' @ Itoa (int i + 1) @ '' failed: '' @ error_text e)), s)
      | None \<Rightarrow> batch_loop net addr keys values batchSize is (reader, s))
   }"

definition TransferKeysBatch ::
    "'s network \<Rightarrow> string \<Rightarrow> string list \<Rightarrow> (string, string) gomap \<Rightarrow> int \<Rightarrow> 's \<Rightarrow> (gerror option \<times> 's) option" where
  "TransferKeysBatch net addr keys values batchSize s =
     (if batchSize = 0 then None
      else let totalKeys = int (length keys);
               numBatches = (totalKeys + batchSize - 1) sdiv batchSize
           in case net_dial net addr s of
                (Some err, s) \<Rightarrow> Some (Some (Err (''failed to connect to '' @ addr @ '': '' @ error_text err)), s)
              | (None, s) \<Rightarrow> batch_loop net addr keys values batchSize [0..<nat numBatches] ([], s))"

text \<open>
  The loop of \<open>VerifyTransfer\<close>. The parser never returns the nil interface value, so the test
  for a missing key has no case here: the answer to a missing key is the empty string.
\<close>

fun verify_loop :: "'s network \<Rightarrow> string \<Rightarrow> string list \<Rightarrow> string \<times> 's \<Rightarrow> (gerror option \<times> 's) option" where
  "verify_loop net addr [] (reader, s) = Some (None, s)"
| "verify_loop net addr (k # ks) (reader, s) = do {
     cmd \<leftarrow> EncodeArray [Str ''GET'', Str k];
     let (err, reply, s) = net_talk net addr cmd s;
     let reader = reader @ reply;
     (case err of
        Some e \<Rightarrow> Some (Some (Err (''verification failed for key '' @ k @ '': '' @ error_text e)), s)
      | None \<Rightarrow> do {
          (response, n) \<leftarrow> Parse reader;
          (case response of
             Inl e \<Rightarrow> Some (Some (Err (''verification read failed for key '' @ k @ '': '' @ error_text e)), s)
           | Inr _ \<Rightarrow> verify_loop net addr ks (drop n reader, s))
        })
   }"

definition VerifyTransfer :: "'s network \<Rightarrow> string \<Rightarrow> string list \<Rightarrow> 's \<Rightarrow> (gerror option \<times> 's) option" where
  "VerifyTransfer net addr keys s =
     (case net_dial net addr s of
        (Some err, s) \<Rightarrow> Some (Some (Err (''failed to connect for verification: '' @ error_text err)), s)
      | (None, s) \<Rightarrow> verify_loop net addr keys ([], s))"

section \<open>Migrator\<close>

text \<open>
  The migrator works on the cache and the ring of its node, which the operations take and return.
  \<open>m_mu\<close>: a migration holds the lock. \<open>clock k\<close> is the time at which the key \<open>k\<close> is read, \<open>pick\<close> the
  order of the loop over the items, and \<open>between\<close> what other goroutines do to the cache between the
  verification of a task and the deletion of its keys.
\<close>

record Migrator =
  m_mu :: bool

definition NewMigrator :: Migrator where
  "NewMigrator = \<lparr>m_mu = False\<rparr>"

definition read_value :: "(string \<Rightarrow> time) \<Rightarrow> string \<Rightarrow> (string, string) gomap \<times> Cache \<Rightarrow> ((string, string) gomap \<times> Cache) option" where
  "read_value clock k = (\<lambda>(values, c). do {
     (v, c) \<leftarrow> Get (clock k) k c;
     Some (case v of None \<Rightarrow> values | Some x \<Rightarrow> gset k x values, c)
   })"

definition migrate_task ::
    "'s network \<Rightarrow> (string \<Rightarrow> 32 word) \<Rightarrow> ((string, CacheItem) gomap \<Rightarrow> (string, CacheItem) gomap) \<Rightarrow> (string \<Rightarrow> time) \<Rightarrow>
     (Cache \<Rightarrow> Cache) \<Rightarrow> string \<Rightarrow> nat \<Rightarrow> MigrationTask \<Rightarrow> Cache \<times> 's \<Rightarrow> (gerror option \<times> Cache \<times> 's) option" where
  "migrate_task net H pick clock between targetAddr i task = (\<lambda>(c, s). do {
     keys \<leftarrow> GetKeysInHashRange (pick (data c)) (StartHash task) (EndHash task) H c;
     if keys = [] then Some (None, c, s)
     else do {
       (values, c) \<leftarrow> foreach (read_value clock) keys ([], c);
       (err, s) \<leftarrow> TransferKeysBatch net targetAddr keys values 100 s;
       (case err of
          Some e \<Rightarrow> Some (Some (Err (''task '' @ Itoa (int i + 1) @ '' transfer failed: '' @ error_text e)), c, s)
        | None \<Rightarrow> do {
            (err, s) \<leftarrow> VerifyTransfer net targetAddr keys s;
            (case err of
               Some e \<Rightarrow> Some (Some (Err (''task '' @ Itoa (int i + 1) @ '' verification failed: '' @ error_text e)), c, s)
             | None \<Rightarrow> do {
                 c \<leftarrow> foreach Delete keys (between c);
                 Some (None, c, s)
               })
          })
     }
   })"

fun run_tasks ::
    "'s network \<Rightarrow> (string \<Rightarrow> 32 word) \<Rightarrow> ((string, CacheItem) gomap \<Rightarrow> (string, CacheItem) gomap) \<Rightarrow> (string \<Rightarrow> time) \<Rightarrow>
     (Cache \<Rightarrow> Cache) \<Rightarrow> (MigrationTask \<Rightarrow> string) \<Rightarrow> nat \<Rightarrow> MigrationTask list \<Rightarrow> Cache \<times> 's \<Rightarrow>
     (gerror option \<times> Cache \<times> 's) option" where
  "run_tasks net H pick clock between target i [] (c, s) = Some (None, c, s)"
| "run_tasks net H pick clock between target i (task # tasks) (c, s) = do {
     (err, c, s) \<leftarrow> migrate_task net H pick clock between (target task) i task (c, s);
     (case err of
        Some e \<Rightarrow> Some (Some e, c, s)
      | None \<Rightarrow> run_tasks net H pick clock between target (Suc i) tasks (c, s))
   }"

definition MigrateToNewNode ::
    "'s network \<Rightarrow> (string \<Rightarrow> 32 word) \<Rightarrow> ((string, CacheItem) gomap \<Rightarrow> (string, CacheItem) gomap) \<Rightarrow> (string \<Rightarrow> time) \<Rightarrow>
     (Cache \<Rightarrow> Cache) \<Rightarrow> string \<Rightarrow> string \<Rightarrow> Migrator \<Rightarrow> Cache \<times> HashRing \<times> 's \<Rightarrow>
     (gerror option \<times> Cache \<times> HashRing \<times> 's) option" where
  "MigrateToNewNode net H pick clock between newNodeID newNodeAddr m = (\<lambda>(c, hr, s).
     if m_mu m then None
     else do {
       tasks \<leftarrow> CalculateMigrations H newNodeID hr;
       let hr = SetNodeAddress newNodeID newNodeAddr (AddShard H newNodeID hr);
       (err, c, s) \<leftarrow> run_tasks net H pick clock between (\<lambda>_. newNodeAddr) 0 tasks (c, s);
       Some (err, c, hr, s)
     })"

definition MigrateFromLeavingNode ::
    "'s network \<Rightarrow> (string \<Rightarrow> 32 word) \<Rightarrow> ((string, CacheItem) gomap \<Rightarrow> (string, CacheItem) gomap) \<Rightarrow> (string \<Rightarrow> time) \<Rightarrow>
     (Cache \<Rightarrow> Cache) \<Rightarrow> string \<Rightarrow> Migrator \<Rightarrow> Cache \<times> HashRing \<times> 's \<Rightarrow>
     (gerror option \<times> Cache \<times> HashRing \<times> 's) option" where
  "MigrateFromLeavingNode net H pick clock between leavingNodeID m = (\<lambda>(c, hr, s).
     if m_mu m then None
     else do {
       tasks \<leftarrow> CalculateMigrationsForRemoval H leavingNodeID hr;
       if tasks = [] then Some (None, c, SetNodeAddress leavingNodeID [] (RemoveShard H leavingNodeID hr), s)
       else do {
         (err, c, s) \<leftarrow> run_tasks net H pick clock between (\<lambda>task. GetNodeAddress (ToNode task) hr) 0 tasks (c, s);
         (case err of
            Some e \<Rightarrow> Some (Some e, c, hr, s)
          | None \<Rightarrow> Some (None, c, RemoveShard H leavingNodeID hr, s))
       }
     })"

record MigrationStatus =
  InProgress :: bool
  NodeID :: string
  Phase :: string

definition Status :: "Migrator \<Rightarrow> MigrationStatus" where
  "Status m = (if m_mu m then \<lparr>InProgress = True, NodeID = [], Phase = ''unknown''\<rparr>
               else \<lparr>InProgress = False, NodeID = [], Phase = []\<rparr>)"

section \<open>Nodes that store keys\<close>

text \<open>
  The contract of the node at the address \<open>addr\<close>. \<open>holds\<close> gives the values it stores; \<open>ok K\<close> says that
  it is in order and that the keys \<open>K\<close> fit into it together. It answers each command with at most one
  complete message, stores a key that it acknowledges, and keeps all other keys.
\<close>

lemma get0_batch: "k \<in> set ks \<Longrightarrow> get0 (fold (\<lambda>k m. gset k (get0 values k) m) ks m0) k = get0 values k"
proof (induction ks arbitrary: m0)
  case (Cons x ks)
  have "gget (fold (\<lambda>k m. gset k (get0 values k) m) ks m) k = (if k \<in> set ks then Some (get0 values k) else gget m k)" for m
    by (induction ks arbitrary: m) (auto simp: update_conv')
  with Cons.prems show ?case by (auto simp: get0_def update_conv')
qed simp

definition batch :: "string list \<Rightarrow> nat \<Rightarrow> nat \<Rightarrow> string list" where
  "batch keys n i = take n (drop (i * n) keys)"

lemma slice_batch:
  assumes "i * n \<le> length keys"
  shows "slice keys (int i * int n) (min (int i * int n + int n) (int (length keys))) = Some (batch keys n i)"
proof -
  have eq: "min (int i * int n + int n) (int (length keys)) = int (min (i * n + n) (length keys))"
    "int i * int n = int (i * n)" by (simp_all flip: of_nat_mult of_nat_add of_nat_min)
  have "i * n \<le> min (i * n + n) (length keys)" "min (i * n + n) (length keys) \<le> length keys" using assms by simp_all
  moreover have "take (min (i * n + n) (length keys) - i * n) (drop (i * n) keys) = batch keys n i"
    by (simp add: batch_def min_def)
  ultimately show ?thesis unfolding eq(1) unfolding eq(2) slice_def by (simp del: of_nat_min of_nat_mult of_nat_add)
qed

locale key_node =
  fixes net :: "'s network" and addr :: string
    and holds :: "'s \<Rightarrow> string \<Rightarrow> string option"
    and ok :: "string set \<Rightarrow> 's \<Rightarrow> bool"
  assumes dial_ok: "ok K s \<Longrightarrow> net_dial net addr s = (err, s') \<Longrightarrow> ok K s' \<and> holds s' = holds s"
    and set_ok: "ok K s \<Longrightarrow> k \<in> K \<Longrightarrow> small k \<Longrightarrow> small v \<Longrightarrow> EncodeArray [Str ''SET'', Str k, Str v] = Some cmd \<Longrightarrow>
      net_talk net addr cmd s = (err, reply, s') \<Longrightarrow>
      ok K s' \<and> (holds s' = holds s \<or> holds s' = (holds s)(k \<mapsto> v)) \<and>
      (reply = [] \<or> err = None \<and> (\<exists>r. Parse reply = Some (Inr r, length reply) \<and>
        (isOKResponse r \<longrightarrow> holds s' = (holds s)(k \<mapsto> v))))"
    and get_ok: "ok K s \<Longrightarrow> small k \<Longrightarrow> EncodeArray [Str ''GET'', Str k] = Some cmd \<Longrightarrow>
      net_talk net addr cmd s = (err, reply, s') \<Longrightarrow>
      ok K s' \<and> holds s' = holds s \<and> (reply = [] \<or> err = None \<and> (\<exists>r. Parse reply = Some (Inr r, length reply)))"
begin

definition moved :: "(string \<Rightarrow> string) \<Rightarrow> string set \<Rightarrow> 's \<Rightarrow> 's \<Rightarrow> bool" where
  "moved f A s s' \<longleftrightarrow> (\<forall>k. holds s' k = holds s k \<or> k \<in> A \<and> holds s' k = Some (f k))"

lemma moved_refl: "moved f A s s"
  by (simp add: moved_def)

lemma moved_trans: "moved f A s s' \<Longrightarrow> moved f A s' s'' \<Longrightarrow> moved f A s s''"
  unfolding moved_def by metis

lemma moved_mono: "moved f A s s' \<Longrightarrow> A \<subseteq> B \<Longrightarrow> (\<And>k. k \<in> A \<Longrightarrow> f k = g k) \<Longrightarrow> moved g B s s'"
  unfolding moved_def by (metis subset_iff)

lemma moved_keeps: "moved f A s s' \<Longrightarrow> holds s k = Some (f k) \<Longrightarrow> holds s' k = Some (f k)"
  unfolding moved_def by metis

lemma transfer_key_step:
  assumes "ok K s" and "k \<in> K" and "small k" and "small (get0 values k)"
  shows "\<exists>a' f' s'. transfer_key net addr values k (a, f, [], s) = Some (a', f', [], s') \<and> ok K s' \<and> f \<le> f' \<and>
    moved (get0 values) {k} s s' \<and> (f' = f \<longrightarrow> holds s' k = Some (get0 values k))"
proof -
  obtain cmd where cmd: "EncodeArray [Str ''SET'', Str k, Str (get0 values k)] = Some cmd"
    using Parse_EncodeArray[of "[Str ''SET'', Str k, Str (get0 values k)]" "[]"] assms(3,4) by (auto simp: small_def)
  obtain err reply s' where t: "net_talk net addr cmd s = (err, reply, s')" by (metis prod_cases3)
  from set_ok[OF assms cmd t] show ?thesis
    by (cases "reply = []"; cases err)
      (auto simp: transfer_key_def cmd t moved_def Parse.simps[of "[]"] split: sum.splits if_splits dest: fun_cong[of _ _ k])
qed

lemma transfer_keys:
  assumes "ok K s" and "set keys \<subseteq> K" and "\<forall>k \<in> set keys. small k \<and> small (get0 values k)"
  shows "\<exists>a' f' s'. foreach (transfer_key net addr values) keys (a, f, [], s) = Some (a', f', [], s') \<and> ok K s' \<and> f \<le> f' \<and>
    moved (get0 values) (set keys) s s' \<and> (f' = f \<longrightarrow> (\<forall>k \<in> set keys. holds s' k = Some (get0 values k)))"
  using assms
proof (induction keys arbitrary: a f s)
  case (Cons k ks)
  obtain a1 f1 s1 where P: "transfer_key net addr values k (a, f, [], s) = Some (a1, f1, [], s1)" "ok K s1" "f \<le> f1"
    "moved (get0 values) {k} s s1" "f1 = f \<longrightarrow> holds s1 k = Some (get0 values k)"
    using transfer_key_step[of K s k "values" a f] Cons.prems by auto
  obtain a2 f2 s2 where Q: "foreach (transfer_key net addr values) ks (a1, f1, [], s1) = Some (a2, f2, [], s2)" "ok K s2" "f1 \<le> f2"
    "moved (get0 values) (set ks) s1 s2" "f2 = f1 \<longrightarrow> (\<forall>k \<in> set ks. holds s2 k = Some (get0 values k))"
    using Cons.IH[OF P(2), of a1 f1] Cons.prems by auto
  have "moved (get0 values) (set (k # ks)) s s2"
    using moved_mono[OF P(4), of "set (k # ks)" "get0 values"] moved_mono[OF Q(4), of "set (k # ks)" "get0 values"]
    by (intro moved_trans[of _ _ s s1 s2]) auto
  moreover have "\<forall>x \<in> set (k # ks). holds s2 x = Some (get0 values x)" if "f2 = f"
    using that P(3,5) Q(3,5) moved_keeps[OF Q(4)] by auto
  ultimately show ?case using P Q by auto
qed (auto simp: moved_refl)

lemma transfer_on_connection:
  assumes "ok K s" and "set keys \<subseteq> K" and "\<forall>k \<in> set keys. small k \<and> small (get0 values k)"
  shows "\<exists>err s'. transferKeysOnConnection net addr keys values ([], s) = Some (err, [], s') \<and> ok K s' \<and>
    moved (get0 values) (set keys) s s' \<and> (err = None \<longrightarrow> (\<forall>k \<in> set keys. holds s' k = Some (get0 values k)))"
  using transfer_keys[OF assms, of 0 0] by (auto simp: transferKeysOnConnection_def transfer_result_def)

lemma batches_moved:
  assumes "ok K s" and "set keys \<subseteq> K" and "\<forall>k \<in> set keys. small k \<and> small (get0 values k)"
    and "\<forall>i \<in> set is. i * n \<le> length keys"
  shows "\<exists>err s'. batch_loop net addr keys values (int n) is ([], s) = Some (err, s') \<and> ok K s' \<and>
    moved (get0 values) (set keys) s s' \<and> (err = None \<longrightarrow> (\<forall>i \<in> set is. \<forall>k \<in> set (batch keys n i). holds s' k = Some (get0 values k)))"
  using assms
proof (induction "is" arbitrary: s)
  case (Cons i "is")
  let ?b = "batch keys n i" and ?vals = "fold (\<lambda>k m. gset k (get0 values k) m) (batch keys n i) []"
  have b: "set ?b \<subseteq> set keys" by (auto simp: batch_def dest: in_set_takeD in_set_dropD)
  have sl: "slice keys (int i * int n) (min (int i * int n + int n) (int (length keys))) = Some ?b"
    using Cons.prems(4) by (intro slice_batch) auto
  have v: "get0 ?vals k = get0 values k" if "k \<in> set ?b" for k using get0_batch[OF that] .
  have bK: "set ?b \<subseteq> K" and sm: "\<forall>k \<in> set ?b. small k \<and> small (get0 ?vals k)"
    using b v Cons.prems(2,3) by auto
  obtain e1 s1 where P: "transferKeysOnConnection net addr ?b ?vals ([], s) = Some (e1, [], s1)" "ok K s1"
    "moved (get0 ?vals) (set ?b) s s1" "e1 = None \<longrightarrow> (\<forall>k \<in> set ?b. holds s1 k = Some (get0 ?vals k))"
    using transfer_on_connection[OF Cons.prems(1) bK] sm by blast
  have m1: "moved (get0 values) (set keys) s s1" using moved_mono[OF P(3) b v] .
  show ?case
  proof (cases e1)
    case (Some e)
    with P m1 sl show ?thesis by simp
  next
    case None
    obtain e2 s2 where Q: "batch_loop net addr keys values (int n) is ([], s1) = Some (e2, s2)" "ok K s2"
      "moved (get0 values) (set keys) s1 s2"
      "e2 = None \<longrightarrow> (\<forall>i \<in> set is. \<forall>k \<in> set (batch keys n i). holds s2 k = Some (get0 values k))"
      using Cons.IH[OF P(2) Cons.prems(2,3)] Cons.prems(4) by auto
    have "holds s2 k = Some (get0 values k)" if "k \<in> set ?b" for k
      using that P(4) None v moved_keeps[OF Q(3)] by auto
    with P Q None sl moved_trans[OF m1 Q(3)] show ?thesis by auto
  qed
qed (auto simp: moved_refl)

lemma TransferKeysBatch_moved:
  assumes "ok K s" and "set keys \<subseteq> K" and "\<forall>k \<in> set keys. small k \<and> small (get0 values k)" and "0 < n"
  shows "\<exists>err s'. TransferKeysBatch net addr keys values (int n) s = Some (err, s') \<and> ok K s' \<and>
    moved (get0 values) (set keys) s s' \<and> (err = None \<longrightarrow> (\<forall>k \<in> set keys. holds s' k = Some (get0 values k)))"
proof -
  let ?m = "(length keys + n - 1) div n"
  have num: "nat ((int (length keys) + int n - 1) sdiv int n) = ?m"
  proof -
    have "int (length keys) + int n - 1 = int (length keys + n - 1)" using assms(4) by simp
    moreover have "int a sdiv int n = int (a div n)" for a
      using assms(4) by (simp add: signed_divide_int_def sgn_if zdiv_int)
    ultimately show ?thesis by (simp only: nat_int)
  qed
  obtain e s1 where d: "net_dial net addr s = (e, s1)" by (cases "net_dial net addr s")
  have s1: "ok K s1" "holds s1 = holds s" using dial_ok[OF assms(1) d] by auto
  have le: "\<forall>i \<in> set [0..<?m]. i * n \<le> length keys"
  proof
    fix i assume "i \<in> set [0..<?m]"
    then have "Suc i * n \<le> ?m * n" by (intro mult_le_mono) auto
    also have "\<dots> \<le> length keys + n - 1" by simp
    finally show "i * n \<le> length keys" using assms(4) by simp
  qed
  obtain err s' where b: "batch_loop net addr keys values (int n) [0..<?m] ([], s1) = Some (err, s')" "ok K s'"
    "moved (get0 values) (set keys) s1 s'"
    "err = None \<longrightarrow> (\<forall>i \<in> set [0..<?m]. \<forall>k \<in> set (batch keys n i). holds s' k = Some (get0 values k))"
    using batches_moved[OF s1(1) assms(2,3) le] by blast
  have cover: "\<exists>i \<in> set [0..<?m]. k \<in> set (batch keys n i)" if "k \<in> set keys" for k
  proof -
    obtain j where j: "j < length keys" "keys ! j = k" using \<open>k \<in> set keys\<close> by (metis in_set_conv_nth)
    have "(j + n) div n \<le> ?m" using j(1) assms(4) by (intro div_le_mono) auto
    moreover have "(j + n) div n = j div n + 1" using assms(4) by (intro div_add_self2) simp
    ultimately have "j div n < ?m" by linarith
    moreover have "j div n * n \<le> length keys" using j(1) div_times_less_eq_dividend[of j n] by linarith
    then have "batch keys n (j div n) ! (j mod n) = k" "j mod n < length (batch keys n (j div n))"
      using j assms(4) by (auto simp: batch_def less_diff_conv nth_drop)
    ultimately show ?thesis by (auto simp: in_set_conv_nth)
  qed
  have "moved (get0 values) (set keys) s s'" using b(3) s1(2) by (simp add: moved_def)
  moreover have "\<forall>k \<in> set keys. holds s' k = Some (get0 values k)" if "err = None" using b(4) cover that by blast
  moreover have "moved (get0 values) (set keys) s s1" using s1(2) by (simp add: moved_def)
  moreover have "TransferKeysBatch net addr keys values (int n) s = (case e of
      None \<Rightarrow> batch_loop net addr keys values (int n) [0..<?m] ([], s1)
    | Some e \<Rightarrow> Some (Some (Err (''failed to connect to '' @ addr @ '': '' @ error_text e)), s1))"
    using assms(4) by (cases e) (simp_all add: TransferKeysBatch_def num d Let_def)
  ultimately show ?thesis using b(1,2) s1(1) by (cases e) auto
qed

lemma verify_keeps:
  assumes "ok K s" and "\<forall>k \<in> set keys. small k"
  shows "\<exists>err s'. verify_loop net addr keys ([], s) = Some (err, s') \<and> ok K s' \<and> holds s' = holds s"
  using assms
proof (induction keys arbitrary: s)
  case (Cons k ks)
  obtain cmd where cmd: "EncodeArray [Str ''GET'', Str k] = Some cmd"
    using Parse_EncodeArray[of "[Str ''GET'', Str k]" "[]"] Cons.prems(2) by (auto simp: small_def)
  obtain err reply s1 where t: "net_talk net addr cmd s = (err, reply, s1)" by (metis prod_cases3)
  have g: "ok K s1" "holds s1 = holds s" "reply = [] \<or> err = None \<and> (\<exists>r. Parse reply = Some (Inr r, length reply))"
    using get_ok[OF Cons.prems(1) _ cmd t] Cons.prems(2) by auto
  show ?case using Cons.IH[OF g(1)] Cons.prems(2) g
    by (cases err) (auto simp: cmd t Parse.simps[of "[]"])
qed simp

lemma VerifyTransfer_keeps:
  assumes "ok K s" and "\<forall>k \<in> set keys. small k"
  shows "\<exists>err s'. VerifyTransfer net addr keys s = Some (err, s') \<and> ok K s' \<and> holds s' = holds s"
proof -
  obtain e s1 where d: "net_dial net addr s = (e, s1)" by (cases "net_dial net addr s")
  show ?thesis using dial_ok[OF assms(1) d] verify_keeps[of K s1 keys] assms(2)
    by (cases e) (auto simp: VerifyTransfer_def d)
qed

end

section \<open>What a migration does\<close>

text \<open>The value that is sent for a key: the empty string for an entry that has expired.\<close>

definition value_sent :: "(string \<Rightarrow> time) \<Rightarrow> (string \<Rightarrow> (string \<times> time) option) \<Rightarrow> string \<Rightarrow> string" where
  "value_sent clock m k = (case m k of None \<Rightarrow> [] | Some (v, t) \<Rightarrow> if expired (clock k) t then [] else v)"

lemma value_sent_cong: "m k = m' k \<Longrightarrow> value_sent clock m k = value_sent clock m' k"
  by (simp add: value_sent_def)

lemma read_values:
  assumes "cache_ready c" and "\<forall>k. gget vals k = None \<or> gget vals k = Some (value_sent clock (entries c) k)"
  shows "\<exists>vals' c'. foreach (read_value clock) keys (vals, c) = Some (vals', c') \<and> cache_ready c' \<and> entries c' = entries c \<and>
    maxSize c' = maxSize c \<and> (\<forall>k. gget vals' k = None \<or> gget vals' k = Some (value_sent clock (entries c) k)) \<and>
    (\<forall>k. k \<in> set keys \<or> gget vals k \<noteq> None \<longrightarrow> get0 vals' k = value_sent clock (entries c) k)"
  using assms
proof (induction keys arbitrary: vals c)
  case Nil
  have "get0 vals k = value_sent clock (entries c) k" if "gget vals k \<noteq> None" for k
    using Nil(2)[rule_format, of k] that by (auto simp: get0_def)
  with Nil show ?case by simp
next
  case (Cons k keys)
  obtain c1 where c1: "Get (clock k) k c = Some ((case entries c k of None \<Rightarrow> None | Some (v, t) \<Rightarrow> if expired (clock k) t then None else Some v), c1)"
    "cache_ready c1" "entries c1 = entries c" "maxSize c1 = maxSize c"
    using Get_ready[OF Cons.prems(1)] by blast
  let ?x = "case entries c k of None \<Rightarrow> None | Some (v, t) \<Rightarrow> if expired (clock k) t then None else Some v"
  let ?vals = "case ?x of None \<Rightarrow> vals | Some x \<Rightarrow> gset k x vals"
  have step: "read_value clock k (vals, c) = Some (?vals, c1)" using c1(1) by (simp add: read_value_def)
  have inv: "\<forall>j. gget ?vals j = None \<or> gget ?vals j = Some (value_sent clock (entries c) j)"
    using Cons.prems(2) by (auto simp: value_sent_def update_conv' split: option.splits)
  then obtain vals' c' where IH: "foreach (read_value clock) keys (?vals, c1) = Some (vals', c')" "cache_ready c'"
    "entries c' = entries c" "maxSize c' = maxSize c" "\<forall>k. gget vals' k = None \<or> gget vals' k = Some (value_sent clock (entries c) k)"
    "\<forall>j. j \<in> set keys \<or> gget ?vals j \<noteq> None \<longrightarrow> get0 vals' j = value_sent clock (entries c) j"
    using Cons.IH[OF c1(2), of ?vals] c1(3,4) by auto
  have "get0 vals' k = value_sent clock (entries c) k"
  proof (cases ?x)
    case None
    then have "value_sent clock (entries c) k = []" by (auto simp: value_sent_def split: option.splits if_splits)
    with IH(5)[rule_format, of k] show ?thesis by (auto simp: get0_def)
  next
    case (Some x)
    then have "gget ?vals k \<noteq> None" by (simp add: update_conv')
    with IH(6) show ?thesis by blast
  qed
  moreover have "gget ?vals j \<noteq> None" if "gget vals j \<noteq> None" for j
    using that by (auto simp: update_conv' split: option.splits)
  ultimately show ?case using step IH by auto
qed

lemma delete_all:
  assumes "cache_ready c"
  shows "\<exists>c'. foreach Delete keys c = Some c' \<and> cache_ready c' \<and> maxSize c' = maxSize c \<and>
    (\<forall>k. entries c' k = (if k \<in> set keys then None else entries c k))"
  using assms
proof (induction keys arbitrary: c)
  case (Cons k ks)
  obtain c1 where "Delete k c = Some c1" "cache_ready c1" "entries c1 = (entries c)(k := None)" "maxSize c1 = maxSize c"
    using Delete_ready[OF Cons.prems] by blast
  with Cons.IH[of c1] show ?case by auto
qed simp

lemma keys_in_range:
  assumes "cache_ready c" and "is_range (pick (data c)) (data c)"
  shows "\<exists>keys. GetKeysInHashRange (pick (data c)) a b H c = Some keys \<and>
    set keys = {k \<in> dom (entries c). hashInRange (H k) a b}"
proof -
  have "dom (entries c) = fst ` set (data c)" by (simp add: entries_dom dom_map_of_conv_image_fst)
  moreover have "fst ` set (pick (data c)) = fst ` set (data c)"
    using assms(2) by (metis dom_map_of_conv_image_fst is_range_def)
  ultimately show ?thesis using assms(1) by (auto simp: GetKeysInHashRange_def RLock_def cache_ready_def)
qed

lemma ready_range: "cache_ready c \<Longrightarrow> ranges pick \<Longrightarrow> is_range (pick (data c)) (data c)"
  by (auto simp: cache_ready_def represents_def cache_ok_def ranges_def)

context key_node
begin

lemma migrate_task_moves:
  assumes "ok K s" and "cache_ready c" and "is_range (pick (data c)) (data c)" and "dom (entries c) \<subseteq> K"
    and small: "\<forall>k \<in> dom (entries c). small k \<and> small (value_sent clock (entries c) k)"
    and R: "R = {k \<in> dom (entries c). hashInRange (H k) (StartHash task) (EndHash task)}"
  shows "\<exists>err c' s'. migrate_task net H pick clock (\<lambda>c. c) addr i task (c, s) = Some (err, c', s') \<and> ok K s' \<and>
    cache_ready c' \<and> maxSize c' = maxSize c \<and> moved (value_sent clock (entries c)) R s s' \<and>
    (if err = None then (\<forall>k. entries c' k = (if k \<in> R then None else entries c k)) \<and>
       (\<forall>k \<in> R. holds s' k = Some (value_sent clock (entries c) k))
     else entries c' = entries c)"
proof -
  obtain keys where keys: "GetKeysInHashRange (pick (data c)) (StartHash task) (EndHash task) H c = Some keys" "set keys = R"
    using keys_in_range[of c pick] assms(2,3) R by blast
  obtain vals c1 where c1: "foreach (read_value clock) keys ([], c) = Some (vals, c1)" "cache_ready c1"
    "entries c1 = entries c" "maxSize c1 = maxSize c" "\<forall>k \<in> R. get0 vals k = value_sent clock (entries c) k"
    using read_values[OF assms(2), of "[]" clock keys] keys(2) by auto
  have sm: "\<forall>k \<in> set keys. small k \<and> small (get0 vals k)" using small c1(5) keys(2) R by auto
  have KR: "set keys \<subseteq> K" using assms(4) keys(2) R by auto
  obtain e1 s1 where b: "TransferKeysBatch net addr keys vals 100 s = Some (e1, s1)" "ok K s1" "moved (get0 vals) R s s1"
    "e1 = None \<longrightarrow> (\<forall>k \<in> R. holds s1 k = Some (get0 vals k))"
    using TransferKeysBatch_moved[OF assms(1) KR sm, of 100] keys(2) by auto
  obtain e2 s2 where v: "VerifyTransfer net addr keys s1 = Some (e2, s2)" "ok K s2" "holds s2 = holds s1"
    using VerifyTransfer_keeps[OF b(2), of keys] sm by auto
  obtain c2 where c2: "foreach Delete keys c1 = Some c2" "cache_ready c2" "maxSize c2 = maxSize c"
    "\<forall>k. entries c2 k = (if k \<in> R then None else entries c k)"
    using delete_all[OF c1(2), of keys] c1(3,4) keys(2) by auto
  have m1: "moved (value_sent clock (entries c)) R s s1" using moved_mono[OF b(3)] c1(5) by blast
  then have m2: "moved (value_sent clock (entries c)) R s s2" by (simp add: moved_def v(3))
  show ?thesis
  proof (cases "keys = []")
    case True
    with keys assms(1,2) show ?thesis by (auto simp: migrate_task_def moved_refl)
  next
    case False
    have "migrate_task net H pick clock (\<lambda>c. c) addr i task (c, s) = (case e1 of
        Some e \<Rightarrow> Some (Some (Err (''task '' @ Itoa (int i + 1) @ '' transfer failed: '' @ error_text e)), c1, s1)
      | None \<Rightarrow> (case e2 of
            Some e \<Rightarrow> Some (Some (Err (''task '' @ Itoa (int i + 1) @ '' verification failed: '' @ error_text e)), c1, s2)
          | None \<Rightarrow> Some (None, c2, s2)))"
      using False by (simp add: migrate_task_def keys(1) c1(1) b(1) v(1) c2(1) split: option.split)
    then show ?thesis using b(2,4) v(2,3) c1(2-5) c2(2-4) m1 m2 by (cases e1; cases e2) auto
  qed
qed

lemma run_tasks_move:
  assumes "ok K s" and "cache_ready c" and "ranges pick" and "dom (entries c) \<subseteq> K"
    and "\<forall>k \<in> dom (entries c). small k \<and> small (value_sent clock (entries c) k)"
  shows "\<exists>err c' s'. run_tasks net H pick clock (\<lambda>c. c) (\<lambda>_. addr) i tasks (c, s) = Some (err, c', s') \<and> ok K s' \<and>
    cache_ready c' \<and> (\<forall>k. entries c' k = entries c k \<or> entries c' k = None \<and> k \<in> dom (entries c) \<and>
      holds s' k = Some (value_sent clock (entries c) k) \<and>
      (\<exists>task \<in> set tasks. hashInRange (H k) (StartHash task) (EndHash task))) \<and>
    moved (value_sent clock (entries c)) (dom (entries c)) s s' \<and>
    (err = None \<longrightarrow> (\<forall>k task. task \<in> set tasks \<longrightarrow> hashInRange (H k) (StartHash task) (EndHash task) \<longrightarrow> entries c' k = None))"
  using assms
proof (induction tasks arbitrary: i s c)
  case (Cons task tasks)
  let ?f = "value_sent clock (entries c)"
  let ?R = "{k \<in> dom (entries c). hashInRange (H k) (StartHash task) (EndHash task)}"
  obtain e1 c1 s1 where P: "migrate_task net H pick clock (\<lambda>c. c) addr i task (c, s) = Some (e1, c1, s1)" "ok K s1"
    "cache_ready c1" "moved ?f ?R s s1"
    "if e1 = None then (\<forall>k. entries c1 k = (if k \<in> ?R then None else entries c k)) \<and> (\<forall>k \<in> ?R. holds s1 k = Some (?f k))
     else entries c1 = entries c"
    using migrate_task_moves[where pick = pick and i = i, OF Cons.prems(1,2) ready_range[OF Cons.prems(2,3)] Cons.prems(4,5) refl] by blast
  have m1: "moved ?f (dom (entries c)) s s1" using moved_mono[OF P(4)] by auto
  show ?case
  proof (cases e1)
    case (Some e)
    with P m1 show ?thesis by simp
  next
    case None
    then have c1: "entries c1 k = (if k \<in> ?R then None else entries c k)" and h1: "k \<in> ?R \<Longrightarrow> holds s1 k = Some (?f k)" for k
      using P(5) by auto
    have f: "value_sent clock (entries c1) k = ?f k" if "k \<in> dom (entries c1)" for k
      using that c1[of k] by (intro value_sent_cong) (auto split: if_splits)
    have d: "dom (entries c1) \<subseteq> dom (entries c)" "\<forall>k \<in> dom (entries c1). small k \<and> small (value_sent clock (entries c1) k)"
      using c1 Cons.prems(5) f by (auto split: if_splits)
    obtain err c' s' where Q: "run_tasks net H pick clock (\<lambda>c. c) (\<lambda>_. addr) (Suc i) tasks (c1, s1) = Some (err, c', s')" "ok K s'"
      "cache_ready c'"
      "\<forall>k. entries c' k = entries c1 k \<or> entries c' k = None \<and> k \<in> dom (entries c1) \<and> holds s' k = Some (value_sent clock (entries c1) k) \<and>
      (\<exists>task \<in> set tasks. hashInRange (H k) (StartHash task) (EndHash task))"
      "moved (value_sent clock (entries c1)) (dom (entries c1)) s1 s'"
      "err = None \<longrightarrow> (\<forall>k task. task \<in> set tasks \<longrightarrow> hashInRange (H k) (StartHash task) (EndHash task) \<longrightarrow> entries c' k = None)"
      using Cons.IH[OF P(2,3) Cons.prems(3) order_trans[OF d(1) Cons.prems(4)] d(2), of "Suc i"] by blast
    have "moved ?f (dom (entries c)) s1 s'" using moved_mono[OF Q(5) d(1)] f by blast
    then have "moved ?f (dom (entries c)) s s'" by (rule moved_trans[OF m1])
    moreover have "entries c' k = entries c k \<or> entries c' k = None \<and> k \<in> dom (entries c) \<and> holds s' k = Some (?f k) \<and>
      (\<exists>t \<in> set (task # tasks). hashInRange (H k) (StartHash t) (EndHash t))" for k
    proof (cases "k \<in> ?R")
      case True
      then have "entries c' k = None" "k \<notin> dom (entries c1)" using Q(4) c1[of k] by (auto dest: spec[of _ k])
      moreover have "holds s' k = holds s1 k" using Q(5) calculation(2) by (auto simp: moved_def)
      ultimately show ?thesis using True h1[OF True] by auto
    next
      case False
      then have "entries c1 k = entries c k" using c1[of k] by (simp only: if_False)
      then show ?thesis using Q(4)[rule_format, of k] value_sent_cong[of "entries c1" k "entries c" clock]
        by (simp add: domIff) blast
    qed
    moreover have "entries c' k = None" if "hashInRange (H k) (StartHash task) (EndHash task)" for k
      using Q(4)[rule_format, of k] c1[of k] that by (cases "entries c k") (simp_all add: domIff)
    ultimately show ?thesis using P(1) None Q(1,2,3,6) by auto
  qed
qed (auto simp: moved_refl)

lemma MigrateToNewNode_moves:
  assumes "ok K s" and "cache_ready c" and "ranges pick" and "dom (entries c) \<subseteq> K"
    and "\<forall>k \<in> dom (entries c). small k \<and> small (value_sent clock (entries c) k)"
    and "CalculateMigrations H nid hr = Some tasks"
  shows "\<exists>err c' s'. MigrateToNewNode net H pick clock (\<lambda>c. c) nid addr NewMigrator (c, hr, s) =
      Some (err, c', SetNodeAddress nid addr (AddShard H nid hr), s') \<and> ok K s' \<and> cache_ready c' \<and>
    (\<forall>k. entries c' k = entries c k \<or> entries c' k = None \<and> k \<in> dom (entries c) \<and> holds s' k = Some (value_sent clock (entries c) k) \<and>
      (\<exists>task \<in> set tasks. hashInRange (H k) (StartHash task) (EndHash task))) \<and>
    moved (value_sent clock (entries c)) (dom (entries c)) s s' \<and>
    (err = None \<longrightarrow> (\<forall>k task. task \<in> set tasks \<longrightarrow> hashInRange (H k) (StartHash task) (EndHash task) \<longrightarrow> entries c' k = None))"
  using run_tasks_move[OF assms(1-5), of H 0 tasks] assms(6) by (auto simp: MigrateToNewNode_def NewMigrator_def)

end

end
