(* ===== verification/Server_State.thy ===== *)
theory Server_State
  imports Replication PubSub Health Key_Transfer
begin

text \<open>
  The state that the request handler works on: the mutable state of a node
  (\<open>internal/server/state.go\<close>) with the routing decision, and the objects that all connections of a
  server share. The theory shows to which node a request for a key is sent.
\<close>

section \<open>Node state\<close>

text \<open>
  A pointer that may be nil is an option. The lock is held for single assignments only, so each
  method is one step; \<open>ShouldForwardRequest\<close> holds the read lock while \<open>IsClusterMode\<close> takes it
  again. The cache is the one of the server; \<open>ns_cache\<close> says that the reference is set.
\<close>

record NodeState =
  ns_role :: string
  ns_leader :: "Leader option"
  ns_leaderAddr :: string
  ns_hashRing :: "HashRing option"
  ns_config :: "Config option"
  ns_migrator :: "Migrator option"
  ns_cache :: bool
  ns_healthChecker :: "HealthChecker option"

definition NewNodeState :: "string \<Rightarrow> Leader option \<Rightarrow> string \<Rightarrow> NodeState" where
  "NewNodeState role leader leaderAddr =
     \<lparr>ns_role = role, ns_leader = leader, ns_leaderAddr = leaderAddr, ns_hashRing = None, ns_config = None,
      ns_migrator = None, ns_cache = False, ns_healthChecker = None\<rparr>"

definition SetHashRing :: "HashRing \<Rightarrow> NodeState \<Rightarrow> NodeState" where
  "SetHashRing hr ns = ns\<lparr>ns_hashRing := Some hr\<rparr>"

definition SetConfig :: "Config \<Rightarrow> NodeState \<Rightarrow> NodeState" where
  "SetConfig cfg ns = ns\<lparr>ns_config := Some cfg\<rparr>"

definition SetRole :: "string \<Rightarrow> NodeState \<Rightarrow> NodeState" where
  "SetRole role ns = ns\<lparr>ns_role := role\<rparr>"

definition SetLeader :: "Leader \<Rightarrow> NodeState \<Rightarrow> NodeState" where
  "SetLeader leader ns = ns\<lparr>ns_leader := Some leader\<rparr>"

definition SetLeaderAddr :: "string \<Rightarrow> NodeState \<Rightarrow> NodeState" where
  "SetLeaderAddr addr ns = ns\<lparr>ns_leaderAddr := addr\<rparr>"

definition SetMigrator :: "Migrator \<Rightarrow> NodeState \<Rightarrow> NodeState" where
  "SetMigrator migrator ns = ns\<lparr>ns_migrator := Some migrator\<rparr>"

definition SetCache :: "NodeState \<Rightarrow> NodeState" where
  "SetCache ns = ns\<lparr>ns_cache := True\<rparr>"

definition SetHealthChecker :: "HealthChecker \<Rightarrow> NodeState \<Rightarrow> NodeState" where
  "SetHealthChecker hc ns = ns\<lparr>ns_healthChecker := Some hc\<rparr>"

text \<open>What a promotion does to the node state through the interface \<open>NodeStateUpdater\<close>.\<close>

definition promoted_state :: "election \<Rightarrow> NodeState \<Rightarrow> NodeState" where
  "promoted_state e ns = (case e of Promoted leader \<Rightarrow> SetLeader leader (SetRole ''leader'' ns) | _ \<Rightarrow> ns)"

definition state_IsClusterMode :: "NodeState \<Rightarrow> bool" where
  "state_IsClusterMode ns \<longleftrightarrow> ns_hashRing ns \<noteq> None \<and> (case ns_config ns of None \<Rightarrow> False | Some cfg \<Rightarrow> IsClusterMode cfg)"

text \<open>The format \<open>"%s:%d"\<close> and the search for the address of a node.\<close>

definition host_port :: "string \<Rightarrow> int \<Rightarrow> string" where
  "host_port host port = host @ '':'' @ Itoa port"

definition client_addr :: "NodeInfo list \<Rightarrow> string \<Rightarrow> string" where
  "client_addr nodes nodeID =
     (case find (\<lambda>n. n_ID n = nodeID) nodes of None \<Rightarrow> [] | Some n \<Rightarrow> host_port (n_Host n) (n_Port n))"

definition ShouldForwardRequest :: "(string \<Rightarrow> 32 word) \<Rightarrow> string \<Rightarrow> bool \<Rightarrow> NodeState \<Rightarrow> bool \<times> string \<times> string" where
  "ShouldForwardRequest H k isWrite ns =
     (if \<not> state_IsClusterMode ns then (False, [], [])
      else case (ns_hashRing ns, ns_config ns) of
        (Some hr, Some cfg) \<Rightarrow>
          (case GetShard H k hr of
             Inl _ \<Rightarrow> (False, [], [])
           | Inr responsibleShardID \<Rightarrow>
               (case GetShardForNode cfg (c_NodeID cfg) of
                  Inl _ \<Rightarrow> (False, [], [])
                | Inr myShard \<Rightarrow>
                    if responsibleShardID = sh_ShardID myShard
                    then if \<not> isWrite then (False, [], [])
                         else (case GetShardLeader responsibleShardID hr of
                            Inl _ \<Rightarrow> (False, [], [])
                          | Inr leaderNodeID \<Rightarrow>
                              if leaderNodeID = c_NodeID cfg then (False, [], [])
                              else (True, leaderNodeID, client_addr (c_Nodes cfg) leaderNodeID))
                    else (case GetShardLeader responsibleShardID hr of
                       Inl _ \<Rightarrow> (False, [], [])
                     | Inr leaderNodeID \<Rightarrow> (True, leaderNodeID, client_addr (c_Nodes cfg) leaderNodeID))))
      | _ \<Rightarrow> (False, [], []))"

section \<open>Server state\<close>

text \<open>What all connections of a server share, and the other nodes behind the network.\<close>

record 's world =
  w_cache :: Cache
  w_aof :: AOF
  w_node :: NodeState
  w_ps :: PubSub
  w_net :: 's

text \<open>
  What a turn of the handler finds outside: the times at which its operations read the clock, the
  success of the system calls and of the writes to followers (numbered by the commands of a
  transaction), the iteration orders of the maps, the hash function of the ring, the network, what
  other goroutines do to the cache during a migration, and the measured duration.
\<close>

record 's env =
  e_clock :: "nat \<Rightarrow> time"
  e_keyclock :: "string \<Rightarrow> time"
  e_io :: "nat \<Rightarrow> syscall \<Rightarrow> bool"
  e_short :: "nat \<Rightarrow> nat"
  e_ok :: "nat \<Rightarrow> nat \<Rightarrow> bool"
  e_items :: "(string, CacheItem) gomap \<Rightarrow> (string, CacheItem) gomap"
  e_names :: "(string, bool) gomap \<Rightarrow> (string, bool) gomap"
  e_subs :: "(conn, nat) gomap \<Rightarrow> (conn, nat) gomap"
  e_ring :: "(32 word, string) gomap \<Rightarrow> (32 word, string) gomap"
  e_health :: "(string, NodeHealth) gomap \<Rightarrow> (string, NodeHealth) gomap"
  e_hash :: "string \<Rightarrow> 32 word"
  e_net :: "'s network"
  e_between :: "Cache \<Rightarrow> Cache"
  e_duration :: duration

text \<open>The type assertion \<open>cmd[i].(string)\<close>.\<close>

definition arg :: "iface list \<Rightarrow> nat \<Rightarrow> string option" where
  "arg cmd i = do { v \<leftarrow> index cmd i; as_string v }"

lemma arg_map_Str [simp]: "arg (map Str ss) i = index ss i"
  by (auto simp: arg_def index_def)

section \<open>Routing\<close>

lemma ShouldForwardRequest_role [simp]:
  "ShouldForwardRequest H k b (SetRole r ns) = ShouldForwardRequest H k b ns"
  "ShouldForwardRequest H k b (SetLeader l ns) = ShouldForwardRequest H k b ns"
  by (simp_all add: ShouldForwardRequest_def state_IsClusterMode_def SetRole_def SetLeader_def)

lemma GetShardForNode_NodeID [simp]: "GetShardForNode (cfg\<lparr>c_NodeID := x\<rparr>) nodeID = GetShardForNode cfg nodeID"
  by (simp add: GetShardForNode_def)

text \<open>
  Routing in a cluster. Let the nodes share a ring and a configuration in which the shard that
  owns a key has a leader. Then every node that belongs to a shard sends a write for the key to that
  leader, and the leader handles it itself: a write is handled by exactly one node, and one redirect
  suffices. A read is handled by every node of the shard and sent to the leader by all others.
\<close>

lemma requests_reach_owner:
  assumes "GetShard H k hr = Inr sid" and "GetShardLeader sid hr = Inr lead"
    and "GetShardForNode cfg lead = Inr owner" and "sh_ShardID owner = sid"
    and "GetShardForNode cfg self = Inr mine" and "c_Nodes cfg \<noteq> []" and "self \<noteq> []"
    and "ns_hashRing ns = Some hr" and "ns_config ns = Some (cfg\<lparr>c_NodeID := self\<rparr>)"
  shows "ShouldForwardRequest H k True ns =
      (if self = lead then (False, [], []) else (True, lead, client_addr (c_Nodes cfg) lead)) \<and>
    ShouldForwardRequest H k False ns =
      (if sh_ShardID mine = sid then (False, [], []) else (True, lead, client_addr (c_Nodes cfg) lead))"
  using assms by (auto simp: ShouldForwardRequest_def state_IsClusterMode_def IsClusterMode_def)

definition sample_node :: "string \<Rightarrow> int \<Rightarrow> NodeInfo" where
  "sample_node nid port = \<lparr>n_ID = nid, n_Host = ''h'', n_Port = port, n_ReplPort = port + 1000, n_Priority = 1, n_ShardID = ''s'', n_Role = []\<rparr>"

text \<open>Two nodes that form one shard, seen from the node \<open>self\<close>.\<close>

definition sample_config :: "string \<Rightarrow> Config" where
  "sample_config self = DefaultConfig\<lparr>c_NodeID := self, c_Nodes := [sample_node ''a'' 7000, sample_node ''b'' 7001],
     c_Shards := [\<lparr>sh_ShardID = ''s'', sh_LeaderID = ''a'', sh_Followers = [''b'']\<rparr>]\<rparr>"

definition sample_ring :: "(string \<Rightarrow> 32 word) \<Rightarrow> HashRing" where
  "sample_ring H = SetShardNodes ''s'' [''a'', ''b''] (AddShard H ''s'' (NewHashRing 1))"

definition sample_state :: "(string \<Rightarrow> 32 word) \<Rightarrow> string \<Rightarrow> string \<Rightarrow> NodeState" where
  "sample_state H role self = SetHashRing (sample_ring H) (SetConfig (sample_config self) (NewNodeState role None []))"

lemma sample_GetShard: "GetShard (\<lambda>_. 0) k (sample_ring (\<lambda>_. 0)) = Inr ''s''"
  by (simp add: sample_ring_def AddShard_def NewHashRing_def SetShardNodes_def GetShard_def get0_def Search_def search_loop.simps)

lemma requests_reach_owner_witness:
  "ShouldForwardRequest (\<lambda>_. 0) ''k'' True (sample_state (\<lambda>_. 0) ''follower'' ''b'') = (True, ''a'', host_port ''h'' 7000) \<and>
   ShouldForwardRequest (\<lambda>_. 0) ''k'' False (sample_state (\<lambda>_. 0) ''follower'' ''b'') = (False, [], [])"
proof -
  let ?s = "\<lparr>sh_ShardID = ''s'', sh_LeaderID = ''a'', sh_Followers = [''b'']\<rparr>"
  have "ShouldForwardRequest (\<lambda>_. 0) ''k'' True (sample_state (\<lambda>_. 0) ''follower'' ''b'') =
      (if ''b'' = ''a'' then (False, [], []) else (True, ''a'', client_addr (c_Nodes (sample_config ''b'')) ''a'')) \<and>
    ShouldForwardRequest (\<lambda>_. 0) ''k'' False (sample_state (\<lambda>_. 0) ''follower'' ''b'') =
      (if sh_ShardID ?s = ''s'' then (False, [], []) else (True, ''a'', client_addr (c_Nodes (sample_config ''b'')) ''a''))"
    by (rule requests_reach_owner[where owner = ?s, OF sample_GetShard])
      (simp_all add: sample_ring_def sample_config_def sample_state_def sample_node_def GetShardLeader_def GetShardNodes_def
        SetShardNodes_def AddShard_def NewHashRing_def GetShardForNode_def SetHashRing_def SetConfig_def)
  then show ?thesis by (simp add: client_addr_def sample_config_def sample_node_def)
qed

end
