(* ===== verification/Cluster_Commands.thy ===== *)
theory Cluster_Commands
  imports Server_State
begin

text \<open>
  The CLUSTER commands (\<open>internal/server/cluster_commands.go\<close>): changes of the topology with the
  migration of keys and the notification of the other nodes, and the status reports. Every handler
  returns the bytes it writes to the connection and the new state of the server. A nil ring or
  configuration that is dereferenced, and an argument that is not a string, is a panic.
\<close>

definition put_ring :: "HashRing \<Rightarrow> 's world \<Rightarrow> 's world" where
  "put_ring hr w = w\<lparr>w_node := SetHashRing hr (w_node w)\<rparr>"

definition reply_OK :: string where
  "reply_OK = EncodeSimpleString ''OK''"

definition handleClusterTopology :: "'s env \<Rightarrow> iface list \<Rightarrow> 's world \<Rightarrow> (string \<times> 's world) option" where
  "handleClusterTopology env cmd w =
     (if length cmd < 5 then Some (EncodeError ''TOPOLOGY requires operation, nodeID, and address'', w)
      else do {
        operation \<leftarrow> arg cmd 2;
        targetNodeID \<leftarrow> arg cmd 3;
        targetNodeAddr \<leftarrow> arg cmd 4;
        if operation = ''ADD''
        then do {
          hr \<leftarrow> ns_hashRing (w_node w);
          Some (reply_OK, put_ring (SetNodeAddress targetNodeID targetNodeAddr (AddShard (e_hash env) targetNodeID hr)) w)
        }
        else if operation = ''REMOVE''
        then do {
          hr \<leftarrow> ns_hashRing (w_node w);
          Some (reply_OK, put_ring (SetNodeAddress targetNodeID [] (RemoveShard (e_hash env) targetNodeID hr)) w)
        }
        else Some (EncodeError ''Unknown TOPOLOGY operation'', w)
      })"

definition notifyNodeAboutTopologyChange ::
    "'s network \<Rightarrow> string \<Rightarrow> string \<Rightarrow> string \<Rightarrow> string \<Rightarrow> 's \<Rightarrow> (gerror option \<times> 's) option" where
  "notifyNodeAboutTopologyChange net nodeAddr operation targetNodeID targetNodeAddr s =
     (case net_dial net nodeAddr s of
        (Some err, s) \<Rightarrow> Some (Some err, s)
      | (None, s) \<Rightarrow> do {
          cmd \<leftarrow> EncodeArray [Str ''CLUSTER'', Str ''TOPOLOGY'', Str operation, Str targetNodeID, Str targetNodeAddr];
          (case net_talk net nodeAddr cmd s of
             (Some err, reply, s) \<Rightarrow> Some (Some err, s)
           | (None, reply, s) \<Rightarrow> do {
               (res, n) \<leftarrow> Parse reply;
               Some (case res of Inl err \<Rightarrow> Some err | Inr _ \<Rightarrow> None, s)
             })
        })"

text \<open>The loop over the nodes of the configuration; an error is logged and ignored.\<close>

definition broadcast :: "'s network \<Rightarrow> Config \<Rightarrow> string \<Rightarrow> string \<Rightarrow> string \<Rightarrow> 's \<Rightarrow> 's option" where
  "broadcast net cfg operation targetNodeID targetNodeAddr s =
     foreach (\<lambda>node s.
       if n_ID node = c_NodeID cfg then Some s
       else map_option snd (notifyNodeAboutTopologyChange net (host_port (n_Host node) (n_Port node))
              operation targetNodeID targetNodeAddr s)) (c_Nodes cfg) s"

text \<open>The nodes that the ring knows.\<close>

definition known_nodes :: "'s env \<Rightarrow> HashRing \<Rightarrow> string list" where
  "known_nodes env hr = GetNodes (e_ring env (hashToShard hr)) (e_names env)"

definition handleClusterAddNode :: "'s env \<Rightarrow> iface list \<Rightarrow> 's world \<Rightarrow> (string \<times> 's world) option" where
  "handleClusterAddNode env cmd w =
     (if length cmd < 4 then Some (EncodeError ''ADDNODE requires nodeID and address'', w)
      else do {
        newNodeID \<leftarrow> arg cmd 2;
        newNodeAddr \<leftarrow> arg cmd 3;
        hr \<leftarrow> ns_hashRing (w_node w);
        if newNodeID \<in> set (known_nodes env hr)
        then Some (EncodeError (''Node '' @ newNodeID @ '' already exists in cluster''), w)
        else (case net_dial (e_net env) newNodeAddr (w_net w) of
           (Some err, s) \<Rightarrow>
             Some (EncodeError (''Cannot connect to node '' @ newNodeID @ '' at '' @ newNodeAddr @
               ''. Make sure the node is running first. Error: '' @ error_text err), w\<lparr>w_net := s\<rparr>)
         | (None, s) \<Rightarrow>
             (case ns_migrator (w_node w) of
                None \<Rightarrow> Some (EncodeError ''Cluster not initialized'', w\<lparr>w_net := s\<rparr>)
              | Some migrator \<Rightarrow> do {
                  (err, c, hr, s) \<leftarrow> MigrateToNewNode (e_net env) (e_hash env) (e_items env) (e_keyclock env) (e_between env)
                    newNodeID newNodeAddr migrator (w_cache w, hr, s);
                  let w = put_ring hr (w\<lparr>w_cache := c, w_net := s\<rparr>);
                  (case err of
                     Some e \<Rightarrow> Some (EncodeError (''Migration failed: '' @ error_text e), w)
                   | None \<Rightarrow> do {
                       cfg \<leftarrow> ns_config (w_node w);
                       s \<leftarrow> broadcast (e_net env) cfg ''ADD'' newNodeID newNodeAddr (w_net w);
                       (err, s) \<leftarrow> notifyNodeAboutTopologyChange (e_net env) newNodeAddr ''ADD'' newNodeID newNodeAddr s;
                       Some (reply_OK, w\<lparr>w_net := s\<rparr>)
                     })
                }))
      })"

definition handleClusterRemoveNode :: "'s env \<Rightarrow> iface list \<Rightarrow> 's world \<Rightarrow> (string \<times> 's world) option" where
  "handleClusterRemoveNode env cmd w =
     (if length cmd < 3 then Some (EncodeError ''REMOVENODE requires nodeID'', w)
      else do {
        nodeID \<leftarrow> arg cmd 2;
        hr \<leftarrow> ns_hashRing (w_node w);
        if nodeID \<notin> set (known_nodes env hr) then Some ([], w)
        else (case ns_migrator (w_node w) of
           None \<Rightarrow> Some (EncodeError ''Cluster is not initialized'', w)
         | Some migrator \<Rightarrow> do {
             (err, c, hr, s) \<leftarrow> MigrateFromLeavingNode (e_net env) (e_hash env) (e_items env) (e_keyclock env) (e_between env)
               nodeID migrator (w_cache w, hr, w_net w);
             let w = put_ring hr (w\<lparr>w_cache := c, w_net := s\<rparr>);
             (case err of
                Some e \<Rightarrow> Some (EncodeError (''Migration failed: '' @ error_text e), w)
              | None \<Rightarrow> do {
                  cfg \<leftarrow> ns_config (w_node w);
                  s \<leftarrow> broadcast (e_net env) cfg ''REMOVE'' nodeID [] (w_net w);
                  let leavingNodeAddr = GetNodeAddress nodeID hr;
                  s \<leftarrow> (if leavingNodeAddr \<noteq> []
                        then map_option snd (notifyNodeAboutTopologyChange (e_net env) leavingNodeAddr ''REMOVE'' nodeID [] s)
                        else Some s);
                  Some (reply_OK, w\<lparr>w_net := s\<rparr>)
                })
           })
      })"

definition node_line :: "HealthChecker option \<Rightarrow> NodeInfo \<Rightarrow> string" where
  "node_line hc n =
     n_ID n @ '' '' @ host_port (n_Host n) (n_Port n) @ '' '' @
     (case hc of None \<Rightarrow> ''active'' | Some hc \<Rightarrow> status_String (GetNodeStatus hc (n_ID n))) @ [CHR 0x0A]"

definition handleClusterNodes :: "'s world \<Rightarrow> string" where
  "handleClusterNodes w =
     (case ns_config (w_node w) of
        None \<Rightarrow> EncodeError ''Cluster is not initialized''
      | Some cfg \<Rightarrow>
          EncodeBulkString (concat (map (node_line (ns_healthChecker (w_node w))) (c_Nodes cfg))) False)"

definition health_line :: "string \<times> NodeHealth \<Rightarrow> string" where
  "health_line = (\<lambda>(nodeID, h). nodeID @ '' '' @ h_Address h @ '' '' @ status_String (h_Status h) @ [CHR 0x0A])"

definition handleClusterHealth :: "'s env \<Rightarrow> 's world \<Rightarrow> string" where
  "handleClusterHealth env w =
     (case ns_healthChecker (w_node w) of
        None \<Rightarrow> EncodeError ''Health checker not initialized''
      | Some hc \<Rightarrow>
          let allStatuses = GetAllNodeStatus (nodeHealth hc)
          in EncodeBulkString (concat (map health_line (e_health env allStatuses))) False)"

definition handleClusterCommand :: "'s env \<Rightarrow> iface list \<Rightarrow> 's world \<Rightarrow> (string \<times> 's world) option" where
  "handleClusterCommand env cmd w =
     (if length cmd < 2 then Some (EncodeError ''CLUSTER command requires subcommand'', w)
      else do {
        subcommand \<leftarrow> arg cmd 1;
        if subcommand = ''ADDNODE'' then handleClusterAddNode env cmd w
        else if subcommand = ''REMOVENODE'' then handleClusterRemoveNode env cmd w
        else if subcommand = ''NODES'' then Some (handleClusterNodes w, w)
        else if subcommand = ''TOPOLOGY'' then handleClusterTopology env cmd w
        else if subcommand = ''HEALTH'' then Some (handleClusterHealth env w, w)
        else Some (EncodeError ''Unknown CLUSTER subcommand'', w)
      })"

section \<open>Facts\<close>

text \<open>REMOVENODE of a node that the ring does not know sends nothing at all to the client.\<close>

lemma remove_unknown_node_is_silent:
  assumes "ns_hashRing (w_node w) = Some hr" and "nodeID \<notin> set (known_nodes env hr)"
  shows "handleClusterCommand env [Str ''CLUSTER'', Str ''REMOVENODE'', Str nodeID] w = Some ([], w)"
  using assms by (simp add: handleClusterCommand_def handleClusterRemoveNode_def arg_def index_def)

text \<open>Outside cluster mode the ring is nil, and a change of the topology ends the process.\<close>

lemma topology_needs_ring:
  assumes "ns_hashRing (w_node w) = None"
  shows "handleClusterCommand env [Str ''CLUSTER'', Str ''ADDNODE'', Str nodeID, Str addr] w = None"
    and "handleClusterCommand env [Str ''CLUSTER'', Str ''REMOVENODE'', Str nodeID] w = None"
  using assms by (simp_all add: handleClusterCommand_def handleClusterAddNode_def handleClusterRemoveNode_def arg_def index_def)

text \<open>
  ADDNODE and TOPOLOGY ADD enter the id of a node into a ring of shards, and no command enters the
  nodes of a shard: the ring has no leader for what it assigns to the new node.
\<close>

lemma AddShard_other [simp]:
  "shardToNodes (AddShard H sid hr) = shardToNodes hr" "nodeAddresses (AddShard H sid hr) = nodeAddresses hr"
proof -
  have "shardToNodes (fold (\<lambda>i hr. hr\<lparr>hashToShard := gset (f i) sid (hashToShard hr), hashValues := hashValues hr @ [f i]\<rparr>) is hr) = shardToNodes hr \<and>
    nodeAddresses (fold (\<lambda>i hr. hr\<lparr>hashToShard := gset (f i) sid (hashToShard hr), hashValues := hashValues hr @ [f i]\<rparr>) is hr) = nodeAddresses hr"
    for f and "is" :: "nat list"
    by (induction "is" arbitrary: hr) auto
  then show "shardToNodes (AddShard H sid hr) = shardToNodes hr" "nodeAddresses (AddShard H sid hr) = nodeAddresses hr"
    by (simp_all add: AddShard_def Let_def)
qed

lemma GetShardLeader_AddShard [simp]: "GetShardLeader x (AddShard H sid hr) = GetShardLeader x hr"
  by (simp add: GetShardLeader_def GetShardNodes_def)

lemma GetShardLeader_SetNodeAddress [simp]: "GetShardLeader x (SetNodeAddress n a hr) = GetShardLeader x hr"
  by (simp add: GetShardLeader_def GetShardNodes_def SetNodeAddress_def)

lemma GetShard_SetNodeAddress [simp]: "GetShard H k (SetNodeAddress n a hr) = GetShard H k hr"
  by (simp add: GetShard_def SetNodeAddress_def)

end
