(* ===== verification/Handler.thy ===== *)
theory Handler
  imports Cluster_Commands
begin

text \<open>
  The request handler (\<open>internal/server/handler.go\<close>): the loop over the commands of a connection,
  subscriber mode, transactions, routing, and the commands on the cache with the write path to the
  followers and the log. A handler returns the bytes it writes to its connection; errors of writes to
  the connection are ignored by the code.
\<close>

section \<open>Connections\<close>

record ConnectionState =
  subscriberMode :: bool
  inTransaction :: bool
  commandQueue :: "iface list list"
  transactionError :: "gerror option"

definition fresh_connection :: ConnectionState where
  "fresh_connection = \<lparr>subscriberMode = False, inTransaction = False, commandQueue = [], transactionError = None\<rparr>"

definition requiresLeader :: "string \<Rightarrow> bool" where
  "requiresLeader operation =
     (if operation = ''SET'' \<or> operation = ''DEL'' then True
      else if operation = ''GET'' then False
      else True)"

definition canQueueCommand :: "string \<Rightarrow> bool" where
  "canQueueCommand command =
     (if command = ''MULTI'' \<or> command = ''EXEC'' \<or> command = ''DISCARD'' then False
      else if command \<in> set [''SUBSCRIBE'', ''UNSUBSCRIBE'', ''PUBLISH'', ''PSUBSCRIBE'', ''PUNSUBSCRIBE''] then False
      else if command = ''CLUSTER'' then False
      else True)"

section \<open>Write path\<close>

text \<open>The call of \<open>leader.Replicate\<close> if there is a leader, and of \<open>aof.Append\<close>; errors are logged only.\<close>

definition replicate_write :: "'s env \<Rightarrow> nat \<Rightarrow> string \<Rightarrow> string \<Rightarrow> string \<Rightarrow> int \<Rightarrow> 's world \<Rightarrow> 's world option" where
  "replicate_write env i operation k v ttl w =
     (case ns_leader (w_node w) of
        None \<Rightarrow> Some w
      | Some leader \<Rightarrow> do {
          (err, leader) \<leftarrow> Replicate (e_ok env i) operation k v ttl leader;
          Some (w\<lparr>w_node := SetLeader leader (w_node w)\<rparr>)
        })"

definition append_write :: "'s env \<Rightarrow> nat \<Rightarrow> iface list \<Rightarrow> 's world \<Rightarrow> 's world option" where
  "append_write env i cmd w = do {
     aofCommand \<leftarrow> EncodeArray cmd;
     Some (w\<lparr>w_aof := snd (Append (e_io env i) (e_short env i) aofCommand (w_aof w))\<rparr>)
   }"

definition readonly_error :: string where
  "readonly_error = EncodeError ''ERR READONLY You can't write against a read only replica''"

definition handleSet :: "'s env \<Rightarrow> iface list \<Rightarrow> 's world \<Rightarrow> (string \<times> 's world) option" where
  "handleSet env cmd w =
     (if ns_role (w_node w) = ''follower'' then Some (readonly_error, w)
      else if length cmd < 3 \<or> length cmd > 5 then Some (EncodeError ''Length of command doesn't match'', w)
      else do {
        k \<leftarrow> arg cmd 1;
        v \<leftarrow> arg cmd 2;
        ttl \<leftarrow> (if length cmd = 5
               then do {
                 qualifier \<leftarrow> arg cmd 3;
                 if ToUpper qualifier \<noteq> ''EX'' then Some (Inl (EncodeError ''ERR syntax error''))
                 else do {
                   seconds \<leftarrow> arg cmd 4;
                   Some (case Atoi seconds of
                      None \<Rightarrow> Inl (EncodeError ''ERR value is not an integer'')
                    | Some ttlSec \<Rightarrow> Inr (seconds_dur ttlSec))
                 }
               }
               else if length cmd = 4
               then do {
                 seconds \<leftarrow> arg cmd 3;
                 Some (case Atoi seconds of
                    None \<Rightarrow> Inl (EncodeError ''Couldn't convert seconds to a string'')
                  | Some ttlSec \<Rightarrow> Inr (seconds_dur ttlSec))
               }
               else Some (Inr 0));
        (case ttl of
           Inl reply \<Rightarrow> Some (reply, w)
         | Inr ttl \<Rightarrow> do {
             c \<leftarrow> Set (e_clock env 0) k v ttl (w_cache w);
             let w = w\<lparr>w_cache := c\<rparr>;
             let ttlSeconds = Seconds ttl;
             w \<leftarrow> replicate_write env 0 OpSet k v ttlSeconds w;
             w \<leftarrow> append_write env 0 [Str ''SET'', Str k, Str v, Str (Itoa ttlSeconds)] w;
             Some (reply_OK, w)
           })
      })"

definition handleGet :: "'s env \<Rightarrow> iface list \<Rightarrow> 's world \<Rightarrow> (string \<times> 's world) option" where
  "handleGet env cmd w =
     (if length cmd \<noteq> 2 then Some (EncodeError ''Length of command doesn't match'', w)
      else do {
        k \<leftarrow> arg cmd 1;
        (result, c) \<leftarrow> Get (e_clock env 0) k (w_cache w);
        Some (case result of None \<Rightarrow> EncodeBulkString [] True | Some v \<Rightarrow> EncodeBulkString v False, w\<lparr>w_cache := c\<rparr>)
      })"

definition handleDelete :: "'s env \<Rightarrow> iface list \<Rightarrow> 's world \<Rightarrow> (string \<times> 's world) option" where
  "handleDelete env cmd w =
     (if ns_role (w_node w) = ''follower'' then Some (readonly_error, w)
      else if length cmd \<noteq> 2 then Some (EncodeError ''Length of command doesn't match'', w)
      else do {
        k \<leftarrow> arg cmd 1;
        c \<leftarrow> Delete k (w_cache w);
        let w = w\<lparr>w_cache := c\<rparr>;
        w \<leftarrow> replicate_write env 0 OpDelete k [] 0 w;
        w \<leftarrow> append_write env 0 [Str ''DEL'', Str k] w;
        Some (EncodeInteger 1, w)
      })"

definition handleDBSize :: "'s env \<Rightarrow> 's world \<Rightarrow> (string \<times> 's world) option" where
  "handleDBSize env w = do {
     keys \<leftarrow> GetAllKeys (e_items env (data (w_cache w))) (w_cache w);
     Some (EncodeInteger (int (length keys)), w)
   }"

definition handlePing :: string where
  "handlePing = EncodeSimpleString ''PONG''"

section \<open>Transactions\<close>

definition queue_error :: "iface list \<Rightarrow> string \<Rightarrow> gerror option" where
  "queue_error cmd command =
     (let n = length cmd
      in if command = ''SET'' \<and> (n < 3 \<or> n > 5) then Some (Err ''wrong number of arguments for 'set' command'')
         else if command = ''GET'' \<and> n \<noteq> 2 then Some (Err ''wrong number of arguments for 'get' command'')
         else if command = ''DEL'' \<and> n \<noteq> 2 then Some (Err ''wrong number of arguments for 'del' command'')
         else if command = ''DBSIZE'' \<and> n \<noteq> 1 then Some (Err ''wrong number of arguments for 'dbsize' command'')
         else if command = ''PING'' \<and> n > 2 then Some (Err ''wrong number of arguments for 'ping' command'')
         else None)"

definition queueCommandForTransaction :: "iface list \<Rightarrow> ConnectionState \<Rightarrow> (string \<times> ConnectionState) option" where
  "queueCommandForTransaction cmd cs =
     (if transactionError cs \<noteq> None then Some (EncodeSimpleString ''QUEUED'', cs)
      else do {
        command \<leftarrow> arg cmd 0;
        (case queue_error cmd command of
           Some err \<Rightarrow> Some (EncodeError (error_text err), cs\<lparr>transactionError := Some err\<rparr>)
         | None \<Rightarrow> Some (EncodeSimpleString ''QUEUED'', cs\<lparr>commandQueue := commandQueue cs @ [cmd]\<rparr>))
      })"

definition handleMulti :: "ConnectionState \<Rightarrow> string \<times> ConnectionState" where
  "handleMulti cs =
     (if inTransaction cs then (EncodeError ''ERR MULTI calls can not be nested'', cs)
      else (reply_OK, cs\<lparr>inTransaction := True, commandQueue := [], transactionError := None\<rparr>))"

definition end_transaction :: "ConnectionState \<Rightarrow> ConnectionState" where
  "end_transaction cs = cs\<lparr>inTransaction := False, commandQueue := [], transactionError := None\<rparr>"

definition handleDiscard :: "ConnectionState \<Rightarrow> string \<times> ConnectionState" where
  "handleDiscard cs =
     (if \<not> inTransaction cs then (EncodeError ''ERR DISCARD without MULTI'', cs)
      else (reply_OK, end_transaction cs))"

text \<open>The commands of a transaction on the locked cache; \<open>now\<close> is the time at which the cache reads the clock.\<close>

definition executeSetCommand :: "time \<Rightarrow> iface list \<Rightarrow> Cache \<Rightarrow> (string \<times> Cache) option" where
  "executeSetCommand now cmd c =
     (if length cmd < 3 \<or> length cmd > 5
      then Some (EncodeError ''ERR wrong number of arguments for 'set' command'', c)
      else do {
        k \<leftarrow> arg cmd 1;
        v \<leftarrow> arg cmd 2;
        ttl \<leftarrow> (if length cmd = 5
               then do {
                 qualifier \<leftarrow> arg cmd 3;
                 if ToUpper qualifier \<noteq> ''EX'' then Some (Inl (EncodeError ''ERR syntax error''))
                 else do {
                   seconds \<leftarrow> arg cmd 4;
                   Some (case Atoi seconds of
                      None \<Rightarrow> Inl (EncodeError ''ERR value is not an integer or out of range'')
                    | Some ttlSec \<Rightarrow> Inr (seconds_dur ttlSec))
                 }
               }
               else if length cmd = 4
               then do {
                 seconds \<leftarrow> arg cmd 3;
                 Some (case Atoi seconds of
                    None \<Rightarrow> Inl (EncodeError ''ERR value is not an integer or out of range'')
                  | Some ttlSec \<Rightarrow> Inr (seconds_dur ttlSec))
               }
               else Some (Inr 0));
        (case ttl of
           Inl reply \<Rightarrow> Some (reply, c)
         | Inr ttl \<Rightarrow> do { c \<leftarrow> SetInternal now k v ttl c; Some (reply_OK, c) })
      })"

definition executeGetCommand :: "time \<Rightarrow> iface list \<Rightarrow> Cache \<Rightarrow> (string \<times> Cache) option" where
  "executeGetCommand now cmd c =
     (if length cmd \<noteq> 2
      then Some (EncodeError ''ERR wrong number of arguments for 'get' command'', c)
      else do {
        k \<leftarrow> arg cmd 1;
        (result, c) \<leftarrow> GetInternal now k c;
        Some (case result of None \<Rightarrow> EncodeBulkString [] True | Some v \<Rightarrow> EncodeBulkString v False, c)
      })"

definition executeDeleteCommand :: "iface list \<Rightarrow> Cache \<Rightarrow> (string \<times> Cache) option" where
  "executeDeleteCommand cmd c =
     (if length cmd \<noteq> 2
      then Some (EncodeError ''ERR wrong number of arguments for 'del' command'', c)
      else do {
        k \<leftarrow> arg cmd 1;
        c \<leftarrow> DeleteInternal k c;
        Some (EncodeInteger 1, c)
      })"

definition executeDBSizeCommand :: "'s env \<Rightarrow> Cache \<Rightarrow> (string \<times> Cache) option" where
  "executeDBSizeCommand env c = do {
     keys \<leftarrow> GetAllKeys (e_items env (data c)) c;
     Some (EncodeInteger (int (length keys)), c)
   }"

definition executePingCommand :: string where
  "executePingCommand = EncodeSimpleString ''PONG''"

definition execute_command :: "'s env \<Rightarrow> nat \<Rightarrow> iface list \<Rightarrow> Cache \<Rightarrow> (string \<times> Cache) option" where
  "execute_command env i cmd c = do {
     command \<leftarrow> arg cmd 0;
     if command = ''SET'' then executeSetCommand (e_clock env i) cmd c
     else if command = ''GET'' then executeGetCommand (e_clock env i) cmd c
     else if command = ''DEL'' then executeDeleteCommand cmd c
     else if command = ''DBSIZE'' then executeDBSizeCommand env c
     else if command = ''PING'' then Some (executePingCommand, c)
     else Some (EncodeError (''ERR unknown command '' @ [CHR 0x27] @ command @ [CHR 0x27]), c)
   }"

fun execute_queue :: "'s env \<Rightarrow> nat \<Rightarrow> iface list list \<Rightarrow> Cache \<Rightarrow> (string list \<times> Cache) option" where
  "execute_queue env i [] c = Some ([], c)"
| "execute_queue env i (cmd # cmds) c = do {
     (response, c) \<leftarrow> execute_command env i cmd c;
     (results, c) \<leftarrow> execute_queue env (Suc i) cmds c;
     Some (response # results, c)
   }"

text \<open>The second loop of \<open>handleExec\<close>: replication and log. A TTL that is not a number counts as 0.\<close>

definition persist_command :: "'s env \<Rightarrow> nat \<Rightarrow> iface list \<Rightarrow> 's world \<Rightarrow> 's world option" where
  "persist_command env i cmd w = do {
     command \<leftarrow> arg cmd 0;
     if command = ''SET''
     then do {
       k \<leftarrow> arg cmd 1;
       v \<leftarrow> arg cmd 2;
       ttlSeconds \<leftarrow> (if length cmd = 5
                     then do { s \<leftarrow> arg cmd 4; Some (case Atoi s of None \<Rightarrow> 0 | Some n \<Rightarrow> n) }
                     else if length cmd = 4
                     then do { s \<leftarrow> arg cmd 3; Some (case Atoi s of None \<Rightarrow> 0 | Some n \<Rightarrow> n) }
                     else Some 0);
       w \<leftarrow> replicate_write env i OpSet k v ttlSeconds w;
       append_write env i [Str ''SET'', Str k, Str v, Str (Itoa ttlSeconds)] w
     }
     else if command = ''DEL''
     then do {
       k \<leftarrow> arg cmd 1;
       w \<leftarrow> replicate_write env i OpDelete k [] 0 w;
       append_write env i [Str ''DEL'', Str k] w
     }
     else Some w
   }"

fun persist_queue :: "'s env \<Rightarrow> nat \<Rightarrow> iface list list \<Rightarrow> 's world \<Rightarrow> 's world option" where
  "persist_queue env i [] w = Some w"
| "persist_queue env i (cmd # cmds) w = do { w \<leftarrow> persist_command env i cmd w; persist_queue env (Suc i) cmds w }"

definition handleExec :: "'s env \<Rightarrow> ConnectionState \<Rightarrow> 's world \<Rightarrow> (string \<times> ConnectionState \<times> 's world) option" where
  "handleExec env cs w =
     (if \<not> inTransaction cs then Some (EncodeError ''ERR EXEC without MULTI'', cs, w)
      else if transactionError cs \<noteq> None
      then Some (EncodeError ''EXECABORT Transaction discarded because of previous errors.'', end_transaction cs, w)
      else do {
        c \<leftarrow> Lock (w_cache w);
        (results, c) \<leftarrow> execute_queue env 0 (commandQueue cs) c;
        w \<leftarrow> persist_queue env 0 (commandQueue cs) (w\<lparr>w_cache := c\<rparr>);
        Some (''*'' @ Itoa (int (length results)) @ crlf @ concat results, end_transaction cs,
          w\<lparr>w_cache := Unlock (w_cache w)\<rparr>)
      })"

section \<open>Publish and subscribe\<close>

text \<open>The loop of \<open>handleSubscribe\<close>; the first result says whether it reached the end.\<close>

fun subscribe_loop :: "'s env \<Rightarrow> conn \<Rightarrow> iface list \<Rightarrow> PubSub \<Rightarrow> (bool \<times> string \<times> PubSub) option" where
  "subscribe_loop env con [] ps = Some (True, [], ps)"
| "subscribe_loop env con (v # vs) ps =
     (case as_string v of
        None \<Rightarrow> Some (False, EncodeError ''ERR invalid channel'', ps)
      | Some channel \<Rightarrow> do {
          ps \<leftarrow> Subscribe con channel ps;
          let totalSubscriptions = int (length (GetSubscribedChannels (e_names env) con ps));
          confirmation \<leftarrow> EncodeSubscribeConfirmation channel totalSubscriptions;
          (all, out, ps) \<leftarrow> subscribe_loop env con vs ps;
          Some (all, confirmation @ out, ps)
        })"

definition handleSubscribe ::
    "'s env \<Rightarrow> conn \<Rightarrow> iface list \<Rightarrow> PubSub \<Rightarrow> ConnectionState \<Rightarrow> (string \<times> PubSub \<times> ConnectionState) option" where
  "handleSubscribe env con cmd ps cs =
     (if length cmd < 2 then Some (EncodeError ''ERR wrong number of arguments for 'subscribe' command'', ps, cs)
      else do {
        (all, out, ps) \<leftarrow> subscribe_loop env con (tl cmd) ps;
        Some (out, ps, if all then cs\<lparr>subscriberMode := True\<rparr> else cs)
      })"

text \<open>One channel of \<open>handleUnsubscribe\<close>; that the connection was not subscribed is logged only.\<close>

definition unsubscribe_one :: "'s env \<Rightarrow> conn \<Rightarrow> string \<Rightarrow> string \<times> PubSub \<Rightarrow> (string \<times> PubSub) option" where
  "unsubscribe_one env con channel = (\<lambda>(out, ps). do {
     (err, ps) \<leftarrow> Unsubscribe con channel ps;
     let remaining = int (length (GetSubscribedChannels (e_names env) con ps));
     confirmation \<leftarrow> EncodeUnsubscribeConfirmation channel remaining;
     Some (out @ confirmation, ps)
   })"

fun unsubscribe_loop :: "'s env \<Rightarrow> conn \<Rightarrow> iface list \<Rightarrow> string \<times> PubSub \<Rightarrow> (bool \<times> string \<times> PubSub) option" where
  "unsubscribe_loop env con [] (out, ps) = Some (True, out, ps)"
| "unsubscribe_loop env con (v # vs) (out, ps) =
     (case as_string v of
        None \<Rightarrow> Some (False, out @ EncodeError ''ERR invalid channel name'', ps)
      | Some channel \<Rightarrow> do {
          (out, ps) \<leftarrow> unsubscribe_one env con channel (out, ps);
          unsubscribe_loop env con vs (out, ps)
        })"

definition handleUnsubscribe ::
    "'s env \<Rightarrow> conn \<Rightarrow> iface list \<Rightarrow> PubSub \<Rightarrow> ConnectionState \<Rightarrow> (string \<times> PubSub \<times> ConnectionState) option" where
  "handleUnsubscribe env con cmd ps cs =
     (if length cmd = 1
      then do {
        let channels = GetSubscribedChannels (e_names env) con ps;
        (out, ps) \<leftarrow> foreach (unsubscribe_one env con) channels ([], ps);
        Some (out, ps, cs\<lparr>subscriberMode := False\<rparr>)
      }
      else do {
        (all, out, ps) \<leftarrow> unsubscribe_loop env con (tl cmd) ([], ps);
        Some (out, ps,
          if all \<and> length (GetSubscribedChannels (e_names env) con ps) = 0 then cs\<lparr>subscriberMode := False\<rparr> else cs)
      })"

definition handlePublish :: "'s env \<Rightarrow> iface list \<Rightarrow> PubSub \<Rightarrow> (string \<times> PubSub) option" where
  "handlePublish env cmd ps =
     (if length cmd \<noteq> 3 then Some (EncodeError ''ERR wrong number of arguments for 'publish' command'', ps)
      else case as_string (cmd ! 1) of
        None \<Rightarrow> Some (EncodeError ''ERR invalid channel name'', ps)
      | Some channel \<Rightarrow>
          (case as_string (cmd ! 2) of
             None \<Rightarrow> Some (EncodeError ''ERR invalid message'', ps)
           | Some message \<Rightarrow> do {
               let subs = (case gget (subscribers ps) channel of None \<Rightarrow> [] | Some m \<Rightarrow> m);
               (count, ps) \<leftarrow> Publish (e_subs env subs) channel message ps;
               Some (EncodePublishResponse count, ps)
             }))"

section \<open>The loop of a connection\<close>

definition allowedCommands :: "string list" where
  "allowedCommands = [''SUBSCRIBE'', ''UNSUBSCRIBE'', ''PSUBSCRIBE'', ''PUNSUBSCRIBE'', ''PING'', ''QUIT'']"

definition timed :: "'s env \<Rightarrow> 's world \<Rightarrow> 's world" where
  "timed env w = w\<lparr>w_cache := record_metric (RecordOperationDuration (e_duration env)) (w_cache w)\<rparr>"

text \<open>The switch over the commands that come after the routing.\<close>

definition run_command :: "'s env \<Rightarrow> iface \<Rightarrow> iface list \<Rightarrow> ConnectionState \<Rightarrow> 's world \<Rightarrow> (string \<times> ConnectionState \<times> 's world) option" where
  "run_command env command cmd cs w =
     (if command = Str ''SET'' then do { (out, w) \<leftarrow> handleSet env cmd w; Some (out, cs, w) }
      else if command = Str ''GET'' then do { (out, w) \<leftarrow> handleGet env cmd w; Some (out, cs, w) }
      else if command = Str ''DEL'' then do { (out, w) \<leftarrow> handleDelete env cmd w; Some (out, cs, w) }
      else if command = Str ''DBSIZE'' then do { (out, w) \<leftarrow> handleDBSize env w; Some (out, cs, w) }
      else if command = Str ''PING'' then Some (handlePing, cs, w)
      else if command = Str ''CLUSTER'' then do { (out, w) \<leftarrow> handleClusterCommand env cmd w; Some (out, cs, w) }
      else if command = Str ''MULTI'' then (let (out, cs) = handleMulti cs in Some (out, cs, w))
      else if command = Str ''EXEC'' then handleExec env cs w
      else if command = Str ''DISCARD'' then (let (out, cs) = handleDiscard cs in Some (out, cs, w))
      else do {
        name \<leftarrow> as_string command;
        Some (EncodeError (''ERR Unknown command '' @ [CHR 0x27] @ name @ [CHR 0x27]), cs, w)
      })"

text \<open>The key of the command and the redirect to the node that owns it.\<close>

definition route_command :: "'s env \<Rightarrow> iface \<Rightarrow> iface list \<Rightarrow> ConnectionState \<Rightarrow> 's world \<Rightarrow> (string \<times> ConnectionState \<times> 's world) option" where
  "route_command env command cmd cs w = do {
     k \<leftarrow> (if length cmd \<ge> 2 then arg cmd 1 else Some []);
     let isWrite = (command = Str ''SET'' \<or> command = Str ''DEL'');
     if state_IsClusterMode (w_node w) \<and> k \<noteq> []
     then (case ShouldForwardRequest (e_hash env) k isWrite (w_node w) of
             (shouldForward, targetNodeID, targetAddr) \<Rightarrow>
               if shouldForward then Some (''-MOVED '' @ targetNodeID @ '' '' @ targetAddr @ crlf, cs, w)
               else run_command env command cmd cs w)
     else run_command env command cmd cs w
   }"

text \<open>Pub/sub and cluster commands come first; everything else is routed.\<close>

definition dispatch :: "'s env \<Rightarrow> conn \<Rightarrow> iface \<Rightarrow> iface list \<Rightarrow> ConnectionState \<Rightarrow> 's world \<Rightarrow> (string \<times> ConnectionState \<times> 's world) option" where
  "dispatch env con command cmd cs w =
     (if command = Str ''SUBSCRIBE''
      then do { (out, ps, cs) \<leftarrow> handleSubscribe env con cmd (w_ps w) cs; Some (out, cs, w\<lparr>w_ps := ps\<rparr>) }
      else if command = Str ''UNSUBSCRIBE''
      then do { (out, ps, cs) \<leftarrow> handleUnsubscribe env con cmd (w_ps w) cs; Some (out, cs, w\<lparr>w_ps := ps\<rparr>) }
      else if command = Str ''PUBLISH''
      then do { (out, ps) \<leftarrow> handlePublish env cmd (w_ps w); Some (out, cs, w\<lparr>w_ps := ps\<rparr>) }
      else if command = Str ''CLUSTER''
      then do { (out, w) \<leftarrow> handleClusterCommand env cmd w; Some (out, cs, w) }
      else route_command env command cmd cs w)"

text \<open>
  The body of the loop of \<open>handleConnection\<close> for a parsed value; the first result says whether the
  loop goes on.
\<close>

definition handle_turn ::
    "'s env \<Rightarrow> conn \<Rightarrow> iface \<Rightarrow> ConnectionState \<Rightarrow> 's world \<Rightarrow> (bool \<times> string \<times> ConnectionState \<times> 's world) option" where
  "handle_turn env con result cs w =
     (case as_slice result of
        None \<Rightarrow> Some (False, [], cs, w)
      | Some cmd \<Rightarrow> do {
          command \<leftarrow> index cmd 0;
          (out, cs, w) \<leftarrow>
            (if subscriberMode cs \<and> (\<forall>c \<in> set allowedCommands. command \<noteq> Str c)
             then Some (EncodeError ''ERR only (P)SUBSCRIBE / (P)UNSUBSCRIBE / PING / QUIT allowed in this context'', cs, w)
             else case (if inTransaction cs then as_string command else None) of
               None \<Rightarrow> dispatch env con command cmd cs w
             | Some cmdStr \<Rightarrow>
                 if cmdStr = ''EXEC'' \<or> cmdStr = ''DISCARD'' then dispatch env con command cmd cs w
                 else if canQueueCommand cmdStr
                 then do { (out, cs) \<leftarrow> queueCommandForTransaction cmd cs; Some (out, cs, w) }
                 else Some (EncodeError (''ERR command '' @ [CHR 0x27] @ cmdStr @ '' cannot be used in a transaction''), cs, w));
          Some (True, out, cs, timed env w)
        })"

text \<open>
  The loop: \<open>reader\<close> are the bytes that arrive on the connection, \<open>envs i\<close> what the turn \<open>i\<close> finds
  outside, and \<open>others i\<close> what other connections do to the shared state before that turn.
\<close>

function handle_loop ::
    "(nat \<Rightarrow> 's env) \<Rightarrow> (nat \<Rightarrow> 's world \<Rightarrow> 's world) \<Rightarrow> conn \<Rightarrow> nat \<Rightarrow> string \<Rightarrow> ConnectionState \<Rightarrow> 's world \<Rightarrow>
     (string \<times> ConnectionState \<times> 's world) option" where
  "handle_loop envs others con i reader cs w =
     (case Parse reader of
        None \<Rightarrow> None
      | Some (Inl err, k) \<Rightarrow> Some ([], cs, w)
      | Some (Inr result, k) \<Rightarrow> do {
          (go, out, cs, w) \<leftarrow> handle_turn (envs i) con result cs (others i w);
          if \<not> go then Some (out, cs, w)
          else do {
            (out', cs, w) \<leftarrow> handle_loop envs others con (Suc i) (drop k reader) cs w;
            Some (out @ out', cs, w)
          }
        })"
  by pat_completeness auto
termination
  by (relation "measure (\<lambda>(_, _, _, _, reader, _). length reader)") (auto dest!: Parse_progress)

declare handle_loop.simps [simp del]

definition handleConnection ::
    "(nat \<Rightarrow> 's env) \<Rightarrow> (nat \<Rightarrow> 's world \<Rightarrow> 's world) \<Rightarrow> ((string, bool) gomap \<Rightarrow> (string, bool) gomap) \<Rightarrow> conn \<Rightarrow> string \<Rightarrow>
     's world \<Rightarrow> (string \<times> 's world) option" where
  "handleConnection envs others pick con reader w = do {
     let w = w\<lparr>w_cache := record_metric IncrementActiveConnections (w_cache w)\<rparr>;
     (out, cs, w) \<leftarrow> handle_loop envs others con 0 reader fresh_connection w;
     let w = w\<lparr>w_cache := record_metric DecrementActiveConnections (w_cache w)\<rparr>;
     let channelSet = (case gget (subscriptions (w_ps w)) con of None \<Rightarrow> [] | Some m \<Rightarrow> m);
     ps \<leftarrow> RemoveConnection (pick channelSet) con (w_ps w);
     Some (out, w\<lparr>w_ps := ps\<rparr>)
   }"

end
