(* ===== verification/Startup.thy ===== *)
theory Startup
  imports Handler
begin

text \<open>
  The start of a server (\<open>internal/server/server.go\<close>), the choice between the modes in
  \<open>cmd/server/main.go\<close> and the set-up of the logger (\<open>internal/logger/logger.go\<close>).

  A start function runs until the accept loop; its result is the node that listens, or the fact that
  it returned before. A panic is \<open>None\<close>. The objects that the server shares with its connections are
  those of the type \<open>world\<close>; a field of the server that points to one of them says whether it is set.
\<close>

section \<open>State\<close>

record Server =
  sv_cfg :: Config
  sv_listener :: bool
  sv_aof :: bool
  sv_leader :: bool
  sv_follower :: "Follower option"
  sv_cancel :: bool
  sv_activeConns :: "conn list"
  sv_replPort :: int

definition New_server :: "Config \<Rightarrow> Server" where
  "New_server cfg = \<lparr>sv_cfg = cfg, sv_listener = False, sv_aof = False, sv_leader = False, sv_follower = None,
     sv_cancel = False, sv_activeConns = [], sv_replPort = 0\<rparr>"

definition ReplPort :: "Server \<Rightarrow> int" where
  "ReplPort s = sv_replPort s"

text \<open>
  What a start finds outside: the success of the system calls, the files, the times at which the
  recovered entries and the registered nodes are stamped, whether the replication port can be bound
  (first and second attempt), the port that the system chooses, whether the client port can be
  bound, a new identifier, the hash function of the ring, and what the shared metrics collector has
  recorded so far.
\<close>

record boot =
  b_io :: "syscall \<Rightarrow> bool"
  b_disk :: "(string, string) gomap"
  b_clockS :: "nat \<Rightarrow> time"
  b_clockA :: "nat \<Rightarrow> time"
  b_now :: "string \<Rightarrow> time"
  b_binds :: "nat \<Rightarrow> int \<Rightarrow> bool"
  b_dynamic :: "int option"
  b_accepts :: bool
  b_uuid :: string
  b_hash :: "string \<Rightarrow> 32 word"
  b_metrics :: "metric list"

text \<open>
  A node that listens: its client port, the shared objects, and the follower that runs beside it.
  A start that returned leaves a log behind once it has been opened.
\<close>

record 's node =
  nd_port :: int
  nd_world :: "'s world"
  nd_follower :: "Follower option"

datatype 's booted = Returned "AOF option" | Listening "'s node"

section \<open>Cache and log\<close>

text \<open>All three start functions create the cache, open the log and recover from it in this way.\<close>

definition load_store :: "boot \<Rightarrow> Config \<Rightarrow> (AOF option + Cache \<times> AOF) option" where
  "load_store b cfg =
     (let myCache = NewCache (c_MaxCacheSize cfg) (b_metrics b)
      in case NewAOF (b_io b) (c_AOFFileName cfg) (c_SnapshotFileName cfg) (GetSyncPolicy cfg) (c_GrowthFactor cfg) (b_disk b) of
           Inl _ \<Rightarrow> Some (Inl None)
         | Inr aof \<Rightarrow> do {
             (err, myCache) \<leftarrow> RecoverAOF (b_io b) (b_clockS b) (b_clockA b) aof (c_AOFFileName cfg) (c_SnapshotFileName cfg) myCache;
             Some (case err of Some _ \<Rightarrow> Inl (Some aof) | None \<Rightarrow> Inr (myCache, aof))
           })"

section \<open>Simple mode\<close>

text \<open>The conversion to \<open>int32\<close> wraps around.\<close>

definition i32 :: "int \<Rightarrow> int" where
  "i32 n = sint (word_of_int n :: 32 word)"

definition simple_repl_port :: "int \<Rightarrow> int" where
  "simple_repl_port port =
     (let rport = i64 (port + 1000) in if rport > 65535 then port mod 1000 + 50000 else rport)"

definition start_leader :: "boot \<Rightarrow> Config \<Rightarrow> (Leader \<times> int) option" where
  "start_leader b cfg =
     (let rport = simple_repl_port (c_Port cfg)
      in case NewLeader (b_binds b 0) rport of
           Inr leader \<Rightarrow> Some (leader, rport)
         | Inl _ \<Rightarrow>
             (case b_dynamic b of
                None \<Rightarrow> None
              | Some rport \<Rightarrow>
                  (case NewLeader (b_binds b 1) rport of Inl _ \<Rightarrow> None | Inr leader \<Rightarrow> Some (leader, rport))))"

definition follower_port :: "Config \<Rightarrow> int" where
  "follower_port cfg = (if c_ReplPort cfg = 0 then i64 (c_Port cfg + 1000) else c_ReplPort cfg)"

definition peer_addrs :: "Config \<Rightarrow> string list" where
  "peer_addrs cfg = (if c_PeerReplAddrs cfg \<noteq> [] then Split (c_PeerReplAddrs cfg) (CHR '','') else [])"

text \<open>
  When \<open>NewFollower\<close> fails, the error is logged only and the method \<open>Start\<close> of a nil follower is
  called in a goroutine: its first access to the follower panics and ends the process.
\<close>

definition Start :: "boot \<Rightarrow> 's \<Rightarrow> Server \<Rightarrow> (Server \<times> 's booted) option" where
  "Start b net s = do {
     let cfg = sv_cfg s;
     let s = s\<lparr>sv_cancel := True\<rparr>;
     store \<leftarrow> load_store b cfg;
     (case store of
        Inl aof \<Rightarrow> Some (s\<lparr>sv_aof := aof \<noteq> None\<rparr>, Returned aof)
      | Inr (myCache, aof) \<Rightarrow> do {
          let s = s\<lparr>sv_aof := True\<rparr>;
          let ps = NewPubSub;
          let nodeState = NewNodeState (c_Role cfg) None [];
          started \<leftarrow>
            (if c_Role cfg = ''leader''
             then Some (case start_leader b cfg of
                None \<Rightarrow> None
              | Some (leader, rport) \<Rightarrow> Some (s\<lparr>sv_leader := True, sv_replPort := i32 rport\<rparr>, SetLeader leader nodeState))
             else (case NewFollower (c_LeaderAddr cfg) (b_uuid b) [] (c_Priority cfg) (follower_port cfg) (peer_addrs cfg) of
                Inl _ \<Rightarrow> None
              | Inr follower \<Rightarrow> Some (Some (s\<lparr>sv_follower := Some follower\<rparr>, nodeState))));
          Some (case started of
             None \<Rightarrow> (s, Returned (Some aof))
           | Some (s, nodeState) \<Rightarrow>
               if \<not> b_accepts b then (s, Returned (Some aof))
               else (s\<lparr>sv_listener := True\<rparr>,
                 Listening \<lparr>nd_port = c_Port cfg,
                   nd_world = \<lparr>w_cache = myCache, w_aof = aof, w_node = nodeState, w_ps = ps, w_net = net\<rparr>,
                   nd_follower = sv_follower s\<rparr>))
        })
   }"

section \<open>Cluster mode\<close>

text \<open>The ring is one object; the node state, the migrator and the health callbacks refer to it.\<close>

definition update_ring :: "(HashRing \<Rightarrow> HashRing) \<Rightarrow> NodeState \<Rightarrow> NodeState" where
  "update_ring f ns = ns\<lparr>ns_hashRing := map_option f (ns_hashRing ns)\<rparr>"

definition shard_ring :: "(string \<Rightarrow> 32 word) \<Rightarrow> Config \<Rightarrow> HashRing" where
  "shard_ring H cfg =
     fold (\<lambda>shard hr. SetShardNodes (sh_ShardID shard) ([sh_LeaderID shard] @ sh_Followers shard) (AddShard H (sh_ShardID shard) hr))
       (c_Shards cfg) (NewHashRing 150)"

definition set_addresses :: "Config \<Rightarrow> NodeState \<Rightarrow> NodeState" where
  "set_addresses cfg ns =
     fold (\<lambda>node. update_ring (SetNodeAddress (n_ID node) (host_port (n_Host node) (n_Port node)))) (c_Nodes cfg) ns"

text \<open>The callbacks of a leader; they run in goroutines of their own.\<close>

definition node_failed :: "(string \<Rightarrow> 32 word) \<Rightarrow> string \<Rightarrow> NodeState \<Rightarrow> NodeState" where
  "node_failed H failedNodeID = update_ring (\<lambda>hr. SetNodeAddress failedNodeID [] (RemoveShard H failedNodeID hr))"

definition node_recovered :: "(string \<Rightarrow> 32 word) \<Rightarrow> Config \<Rightarrow> string \<Rightarrow> NodeState \<Rightarrow> NodeState" where
  "node_recovered H cfg recoveredNodeID ns =
     fold (\<lambda>node ns.
       if n_ID node = recoveredNodeID
       then update_ring (\<lambda>hr. SetNodeAddress recoveredNodeID (host_port (n_Host node) (n_Port node)) (AddShard H recoveredNodeID hr)) ns
       else ns) (c_Nodes cfg) ns"

definition health_callback :: "(string \<Rightarrow> 32 word) \<Rightarrow> Config \<Rightarrow> health_event \<Rightarrow> NodeState \<Rightarrow> NodeState" where
  "health_callback H cfg ev =
     (case ev of NodeFailed nid \<Rightarrow> node_failed H nid | NodeRecovered nid \<Rightarrow> node_recovered H cfg nid)"

definition new_checker :: "boot \<Rightarrow> (NodeInfo \<Rightarrow> bool) \<Rightarrow> Config \<Rightarrow> HealthChecker" where
  "new_checker b watched cfg =
     SetCallbacks (fold (\<lambda>node hc.
         if watched node then RegisterNode (b_now b (n_ID node)) (n_ID node) (host_port (n_Host node) (n_Port node)) hc else hc)
       (c_Nodes cfg) (NewHealthChecker (seconds_dur 5) 3 (seconds_dur 2)))"

definition startClientListener :: "boot \<Rightarrow> 's \<Rightarrow> int \<Rightarrow> Cache \<Rightarrow> AOF \<Rightarrow> NodeState \<Rightarrow> Follower option \<Rightarrow> 's node option" where
  "startClientListener b net port myCache aof nodeState follower =
     (if \<not> b_accepts b then None
      else Some \<lparr>nd_port = port,
        nd_world = \<lparr>w_cache = myCache, w_aof = aof, w_node = nodeState, w_ps = NewPubSub, w_net = net\<rparr>,
        nd_follower = follower\<rparr>)"

definition startAsLeader :: "boot \<Rightarrow> 's \<Rightarrow> NodeInfo \<Rightarrow> Cache \<Rightarrow> AOF \<Rightarrow> Config \<Rightarrow> HashRing \<Rightarrow> 's node option" where
  "startAsLeader b net myNode myCache aof cfg hashRing =
     (let nodeState = NewNodeState ''leader'' None [];
          nodeState = SetHashRing hashRing (SetConfig cfg nodeState);
          nodeState = set_addresses cfg nodeState;
          nodeState = SetCache (SetMigrator NewMigrator nodeState);
          nodeState = SetHealthChecker (new_checker b (\<lambda>node. n_ID node \<noteq> c_NodeID cfg) cfg) nodeState
      in case NewLeader (b_binds b 0) (n_ReplPort myNode) of
           Inl _ \<Rightarrow> None
         | Inr leader \<Rightarrow> startClientListener b net (n_Port myNode) myCache aof (SetLeader leader nodeState) None)"

text \<open>
  The search for the node with a given identifier, and the two addresses of the leader of the shard.
  The node with the highest priority exists since there are nodes.
\<close>

definition repl_addr :: "NodeInfo list \<Rightarrow> string \<Rightarrow> string" where
  "repl_addr nodes nodeID =
     (case find (\<lambda>n. n_ID n = nodeID) nodes of None \<Rightarrow> [] | Some n \<Rightarrow> host_port (n_Host n) (n_ReplPort n))"

definition startAsFollower ::
    "boot \<Rightarrow> 's \<Rightarrow> NodeInfo \<Rightarrow> Cache \<Rightarrow> AOF \<Rightarrow> string \<Rightarrow> NodeInfo list \<Rightarrow> Config \<Rightarrow> HashRing \<Rightarrow> 's node option option" where
  "startAsFollower b net myNode myCache aof leaderAddr nodes cfg hashRing = do {
     let nodeState = NewNodeState ''follower'' None leaderAddr;
     let nodeState = SetHashRing hashRing (SetConfig cfg nodeState);
     let nodeState = set_addresses cfg nodeState;
     let nodeState = SetCache (SetMigrator NewMigrator nodeState);
     leaderNode \<leftarrow> GetHighestPriorityNode cfg;
     let nodeState = SetHealthChecker (new_checker b (\<lambda>node. n_ID node \<noteq> c_NodeID cfg \<and> n_ID node \<noteq> n_ID leaderNode) cfg) nodeState;
     let myShard = GetShardForNode cfg (c_NodeID cfg);
     let shardLeaderReplAddr = (case myShard of Inl _ \<Rightarrow> [] | Inr shard \<Rightarrow> repl_addr (c_Nodes cfg) (sh_LeaderID shard));
     let shardLeaderReplAddr = (if shardLeaderReplAddr = [] then leaderAddr else shardLeaderReplAddr);
     let leaderClientAddr = (case myShard of Inl _ \<Rightarrow> [] | Inr shard \<Rightarrow> client_addr (c_Nodes cfg) (sh_LeaderID shard));
     let nodeState = SetLeaderAddr leaderClientAddr nodeState;
     Some (case NewFollower shardLeaderReplAddr (n_ID myNode) nodes (n_Priority myNode) (n_ReplPort myNode) (peer_addrs cfg) of
        Inl _ \<Rightarrow> None
      | Inr follower \<Rightarrow> startClientListener b net (n_Port myNode) myCache aof nodeState (Some follower))
   }"

definition pending_ring :: "(string \<Rightarrow> 32 word) \<Rightarrow> Config \<Rightarrow> HashRing" where
  "pending_ring H cfg =
     fold (\<lambda>node hr. SetNodeAddress (n_ID node) (host_port (n_Host node) (n_Port node)) (AddShard H (n_ID node) hr))
       (c_Nodes cfg) (NewHashRing 150)"

text \<open>The deferred call that closes the log when a start function returns.\<close>

definition close_deferred :: "boot \<Rightarrow> AOF \<Rightarrow> AOF" where
  "close_deferred b aof = snd (Close (b_io b) (\<lambda>a. a) aof)"

definition booted_node :: "boot \<Rightarrow> AOF \<Rightarrow> 's node option \<Rightarrow> 's booted" where
  "booted_node b aof nd = (case nd of None \<Rightarrow> Returned (Some (close_deferred b aof)) | Some nd \<Rightarrow> Listening nd)"

definition startPendingNode :: "boot \<Rightarrow> 's \<Rightarrow> Config \<Rightarrow> 's booted option" where
  "startPendingNode b net cfg = do {
     store \<leftarrow> load_store b cfg;
     Some (case store of
        Inl aof \<Rightarrow> Returned (map_option (close_deferred b) aof)
      | Inr (myCache, aof) \<Rightarrow>
          let hashRing = pending_ring (b_hash b) cfg;
              nodeState = NewNodeState ''pending'' None [];
              nodeState = SetHashRing hashRing (SetConfig cfg nodeState);
              nodeState = SetCache (SetMigrator NewMigrator nodeState);
              port = (if c_Port cfg > 0 then c_Port cfg else 8382)
          in booted_node b aof (startClientListener b net port myCache aof nodeState None))
   }"

definition StartClusterMode :: "boot \<Rightarrow> 's \<Rightarrow> Config \<Rightarrow> 's booted option" where
  "StartClusterMode b net cfg =
     (case GetMyNode cfg of
        Inl _ \<Rightarrow> startPendingNode b net cfg
      | Inr myNode \<Rightarrow> do {
          store \<leftarrow> load_store b cfg;
          (case store of
             Inl aof \<Rightarrow> Some (Returned (map_option (close_deferred b) aof))
           | Inr (myCache, aof) \<Rightarrow>
               let hashRing = shard_ring (b_hash b) cfg
               in if IsShardLeader cfg
                  then Some (booted_node b aof (startAsLeader b net myNode myCache aof cfg hashRing))
                  else (case GetShardForNode cfg (c_NodeID cfg) of
                     Inl _ \<Rightarrow> Some (Returned (Some (close_deferred b aof)))
                   | Inr myShard \<Rightarrow>
                       (case find (\<lambda>n. n_ID n = sh_LeaderID myShard) (c_Nodes cfg) of
                          None \<Rightarrow> Some (Returned (Some (close_deferred b aof)))
                        | Some leaderNode \<Rightarrow> do {
                            nd \<leftarrow> startAsFollower b net myNode myCache aof (host_port (n_Host leaderNode) (n_ReplPort leaderNode)) (c_Nodes cfg) cfg hashRing;
                            Some (booted_node b aof nd)
                          })))
        })"

definition getHighestPriority :: "NodeInfo list \<Rightarrow> int" where
  "getHighestPriority nodes = fold (\<lambda>node highest. if n_Priority node > highest then n_Priority node else highest) nodes 0"

section \<open>Main program\<close>

text \<open>The default logger of the process: its output format and the least level that is written.\<close>

datatype slog_level = SlogDebug | SlogInfo | SlogWarn | SlogError

datatype slog_format = JSONHandler | TextHandler

record Logger =
  lg_handler :: slog_format
  lg_level :: slog_level

definition slogLevel :: "string \<Rightarrow> slog_level" where
  "slogLevel level =
     (if level = ''debug'' then SlogDebug
      else if level = ''info'' then SlogInfo
      else if level = ''warn'' then SlogWarn
      else if level = ''error'' then SlogError
      else SlogInfo)"

definition InitLogger :: "string \<Rightarrow> Logger" where
  "InitLogger level = \<lparr>lg_handler = JSONHandler, lg_level = slogLevel level\<rparr>"

definition InitTextLogger :: "string \<Rightarrow> Logger" where
  "InitTextLogger level = \<lparr>lg_handler = TextHandler, lg_level = slogLevel level\<rparr>"

definition main_logger :: "Config \<Rightarrow> Logger" where
  "main_logger cfg =
     (let logger = InitLogger ''info'' in if c_LogLevel cfg \<noteq> ''info'' then InitLogger (c_LogLevel cfg) else logger)"

definition main_server ::
    "(string \<Rightarrow> gerror + string) \<Rightarrow> (string \<Rightarrow> gerror + yamlConfig) \<Rightarrow> (string \<times> string) list \<Rightarrow> boot \<Rightarrow> 's \<Rightarrow>
     (Logger \<times> 's booted) option" where
  "main_server readFile unmarshal flags b net = do {
     let cfg = main_config readFile unmarshal flags;
     r \<leftarrow> (if IsClusterMode cfg then StartClusterMode b net cfg else map_option snd (Start b net (New_server cfg)));
     Some (main_logger cfg, r)
   }"

end
