(* ===== verification/Client_Lib.thy ===== *)
theory Client_Lib
  imports Key_Transfer
begin

text \<open>
  The client library (\<open>pkg/client/client.go\<close>): a connection to a server, commands that follow
  redirects, and transactions. The servers are the state \<open>'s\<close> behind a network, as in
  \<open>Key_Transfer\<close>. Every method holds the mutex of the client from start to end, so the methods are
  atomic operations on the client.
\<close>

section \<open>Connection\<close>

text \<open>
  \<open>cl_reader\<close> are the bytes that arrived and are not yet read. A write error stays in the buffered
  writer, so that every later write fails as well.
\<close>

record Client =
  cl_addr :: string
  cl_open :: bool
  cl_reader :: string
  cl_werr :: "gerror option"

definition MaxRedirects :: nat where
  "MaxRedirects = 5"

definition connected :: "string \<Rightarrow> Client" where
  "connected addr = \<lparr>cl_addr = addr, cl_open = True, cl_reader = [], cl_werr = None\<rparr>"

definition NewClient :: "'s network \<Rightarrow> string \<Rightarrow> 's \<Rightarrow> (gerror + Client) \<times> 's" where
  "NewClient net addr s =
     (case net_dial net addr s of
        (Some err, s) \<Rightarrow> (Inl (Err (''failed to connect: '' @ error_text err)), s)
      | (None, s) \<Rightarrow> (Inr (connected addr), s))"

definition client_Close :: "Client \<Rightarrow> Client" where
  "client_Close c = c\<lparr>cl_open := False\<rparr>"

text \<open>
  \<open>WriteString\<close> and \<open>Flush\<close>. The error of the first is that of an earlier write, or that of a command
  that does not fit into the buffer of 4096 bytes; the error of the second is that of this write.
\<close>

definition write_flush :: "'s network \<Rightarrow> string \<Rightarrow> Client \<times> 's \<Rightarrow> (bool \<times> gerror) option \<times> Client \<times> 's" where
  "write_flush net bytes = (\<lambda>(c, s).
     case cl_werr c of
       Some err \<Rightarrow> (Some (True, err), c, s)
     | None \<Rightarrow>
         if \<not> cl_open c
         then let err = Err ''use of closed network connection''
              in (Some (length bytes > 4096, err), c\<lparr>cl_werr := Some err\<rparr>, s)
         else let (err, reply, s) = net_talk net (cl_addr c) bytes s;
                  c = c\<lparr>cl_reader := cl_reader c @ reply, cl_werr := err\<rparr>
              in (map_option (\<lambda>e. (length bytes > 4096, e)) err, c, s))"

text \<open>The verb \<open>%v\<close> for the values that the parser returns.\<close>

fun fmt_v :: "iface \<Rightarrow> string" and fmt_vs :: "iface list \<Rightarrow> string" where
  "fmt_v (Str v) = v"
| "fmt_v (IntV n) = Itoa n"
| "fmt_v (Int64 n) = Itoa n"
| "fmt_v (Slice vs) = ''['' @ fmt_vs vs @ '']''"
| "fmt_v NilSlice = ''[]''"
| "fmt_vs [] = []"
| "fmt_vs [v] = fmt_v v"
| "fmt_vs (v # w # vs) = fmt_v v @ '' '' @ fmt_vs (w # vs)"

definition parse_reply :: "Client \<Rightarrow> ((gerror + iface) \<times> Client) option" where
  "parse_reply c = do {
     (result, n) \<leftarrow> Parse (cl_reader c);
     Some (result, c\<lparr>cl_reader := drop n (cl_reader c)\<rparr>)
   }"

definition readResponse :: "Client \<Rightarrow> ((gerror + string) \<times> Client) option" where
  "readResponse c = do {
     (result, c) \<leftarrow> parse_reply c;
     Some (case result of
        Inl err \<Rightarrow> Inl err
      | Inr (Int64 n) \<Rightarrow> Inr ('':'' @ Itoa n @ crlf)
      | Inr v \<Rightarrow> Inr (fmt_v v), c)
   }"

section \<open>Commands\<close>

text \<open>The loop of \<open>executeCommandWithRedirect\<close> with \<open>left\<close> redirects to come.\<close>

fun redirect_loop :: "'s network \<Rightarrow> iface list \<Rightarrow> nat \<Rightarrow> Client \<times> 's \<Rightarrow> ((gerror + string) \<times> Client \<times> 's) option" where
  "redirect_loop net command 0 (c, s) = Some (Inl (Err (''too many redirects ('' @ Itoa (int MaxRedirects) @ '')'')), c, s)"
| "redirect_loop net command (Suc left) (c, s) = do {
     encoded \<leftarrow> EncodeArray command;
     (case write_flush net encoded (c, s) of
        (Some (inWrite, err), c, s) \<Rightarrow>
          Some (Inl (Err ((if inWrite then ''failed to write command: '' else ''failed to flush: '') @ error_text err)), c, s)
      | (None, c, s) \<Rightarrow> do {
          (response, c) \<leftarrow> readResponse c;
          (case response of
             Inl err \<Rightarrow> Some (Inl (Err (''failed to read response: '' @ error_text err)), c, s)
           | Inr response \<Rightarrow>
               if IsRedirect response
               then (case ParseRedirect response of
                  Inl err \<Rightarrow> Some (Inl (Err (''failed to parse redirect: '' @ error_text err)), c, s)
                | Inr redirect \<Rightarrow>
                    (case net_dial net (Address redirect) s of
                       (Some err, s) \<Rightarrow> Some (Inl (Err (''failed to connect to leader: '' @ error_text err)), client_Close c, s)
                     | (None, s) \<Rightarrow> redirect_loop net command left (connected (Address redirect), s)))
               else Some (Inr response, c, s))
        })
   }"

definition executeCommandWithRedirect ::
    "'s network \<Rightarrow> iface list \<Rightarrow> Client \<times> 's \<Rightarrow> ((gerror + string) \<times> Client \<times> 's) option" where
  "executeCommandWithRedirect net command = redirect_loop net command MaxRedirects"

text \<open>The commands that accept only some replies; \<open>what\<close> introduces the errors.\<close>

definition expect ::
    "'s network \<Rightarrow> iface list \<Rightarrow> string list \<Rightarrow> string \<Rightarrow> string \<Rightarrow> Client \<times> 's \<Rightarrow> (gerror option \<times> Client \<times> 's) option" where
  "expect net command replies whatErr what x = do {
     (response, x) \<leftarrow> executeCommandWithRedirect net command x;
     Some (case response of
        Inl err \<Rightarrow> Some (Err (whatErr @ error_text err))
      | Inr response \<Rightarrow> if response \<notin> set replies then Some (Err (what @ response)) else None, x)
   }"

definition client_Set :: "'s network \<Rightarrow> string \<Rightarrow> string \<Rightarrow> Client \<times> 's \<Rightarrow> (gerror option \<times> Client \<times> 's) option" where
  "client_Set net k v = expect net [Str ''SET'', Str k, Str v] [''OK''] [] ''unexpected response: ''"

definition client_SetWithTTL :: "'s network \<Rightarrow> string \<Rightarrow> string \<Rightarrow> int \<Rightarrow> Client \<times> 's \<Rightarrow> (gerror option \<times> Client \<times> 's) option" where
  "client_SetWithTTL net k v ttl = expect net [Str ''SET'', Str k, Str v, Str (Itoa ttl)] [''OK''] [] ''unexpected response: ''"

definition client_Get :: "'s network \<Rightarrow> string \<Rightarrow> Client \<times> 's \<Rightarrow> ((gerror + string) \<times> Client \<times> 's) option" where
  "client_Get net k = executeCommandWithRedirect net [Str ''GET'', Str k]"

definition client_Delete :: "'s network \<Rightarrow> string \<Rightarrow> Client \<times> 's \<Rightarrow> (gerror option \<times> Client \<times> 's) option" where
  "client_Delete net k = expect net [Str ''DEL'', Str k] [''OK'', '':1'' @ crlf, ''1''] [] ''unexpected response: ''"

section \<open>Transactions\<close>

definition client_Multi :: "'s network \<Rightarrow> Client \<times> 's \<Rightarrow> (gerror option \<times> Client \<times> 's) option" where
  "client_Multi net = expect net [Str ''MULTI''] [''OK''] ''MULTI failed: '' ''MULTI failed: ''"

definition client_Discard :: "'s network \<Rightarrow> Client \<times> 's \<Rightarrow> (gerror option \<times> Client \<times> 's) option" where
  "client_Discard net = expect net [Str ''DISCARD''] [''OK''] ''DISCARD failed: '' ''DISCARD failed: ''"

text \<open>The verb \<open>%T\<close> for the values that the parser returns.\<close>

fun fmt_T :: "iface \<Rightarrow> string" where
  "fmt_T (Str v) = ''string''"
| "fmt_T (IntV n) = ''int''"
| "fmt_T (Int64 n) = ''int64''"
| "fmt_T _ = ''[]interface {}''"

definition client_Exec :: "'s network \<Rightarrow> Client \<times> 's \<Rightarrow> ((gerror + string list) \<times> Client \<times> 's) option" where
  "client_Exec net x = do {
     command \<leftarrow> EncodeArray [Str ''EXEC''];
     (case write_flush net command x of
        (Some (inWrite, err), c, s) \<Rightarrow>
          Some (Inl (Err ((if inWrite then ''failed to write EXEC: '' else ''failed to flush EXEC: '') @ error_text err)), c, s)
      | (None, c, s) \<Rightarrow> do {
          (result, c) \<leftarrow> parse_reply c;
          Some (case result of
             Inl err \<Rightarrow> Inl (Err (''failed to read EXEC response: '' @ error_text err))
           | Inr result \<Rightarrow>
               (case result of
                  Slice resultArray \<Rightarrow> Inr (map fmt_v resultArray)
                | NilSlice \<Rightarrow> Inr []
                | Str str \<Rightarrow>
                    if HasPrefix str ''-'' then Inl (Err (''EXEC error: '' @ str))
                    else Inl (Err (''unexpected EXEC response type: '' @ fmt_T result))
                | _ \<Rightarrow> Inl (Err (''unexpected EXEC response type: '' @ fmt_T result))), c, s)
        })
   }"

record TransactionPipeline =
  tp_commands :: "iface list list"
  tp_started :: bool

definition NewTransaction :: TransactionPipeline where
  "NewTransaction = \<lparr>tp_commands = [], tp_started = False\<rparr>"

definition tp_add :: "iface list \<Rightarrow> TransactionPipeline \<Rightarrow> TransactionPipeline" where
  "tp_add cmd tp = tp\<lparr>tp_commands := tp_commands tp @ [cmd]\<rparr>"

definition tp_Set :: "string \<Rightarrow> string \<Rightarrow> TransactionPipeline \<Rightarrow> TransactionPipeline" where
  "tp_Set k v = tp_add [Str ''SET'', Str k, Str v]"

definition tp_SetWithTTL :: "string \<Rightarrow> string \<Rightarrow> int \<Rightarrow> TransactionPipeline \<Rightarrow> TransactionPipeline" where
  "tp_SetWithTTL k v ttl = tp_add [Str ''SET'', Str k, Str v, Str (Itoa ttl)]"

definition tp_Get :: "string \<Rightarrow> TransactionPipeline \<Rightarrow> TransactionPipeline" where
  "tp_Get k = tp_add [Str ''GET'', Str k]"

definition tp_Del :: "string \<Rightarrow> TransactionPipeline \<Rightarrow> TransactionPipeline" where
  "tp_Del k = tp_add [Str ''DEL'', Str k]"

text \<open>The loop over the commands; an error has already discarded the transaction.\<close>

fun queue_commands :: "'s network \<Rightarrow> iface list list \<Rightarrow> Client \<times> 's \<Rightarrow> (gerror option \<times> Client \<times> 's) option" where
  "queue_commands net [] x = Some (None, x)"
| "queue_commands net (cmd # cmds) x = do {
     (response, x) \<leftarrow> executeCommandWithRedirect net cmd x;
     (case response of
        Inl err \<Rightarrow> do {
          (_, x) \<leftarrow> client_Discard net x;
          Some (Some (Err (''command failed during transaction: '' @ error_text err)), x)
        }
      | Inr response \<Rightarrow>
          if response \<noteq> ''QUEUED''
          then do {
            (_, x) \<leftarrow> client_Discard net x;
            Some (Some (Err (''command rejected during transaction: '' @ response)), x)
          }
          else queue_commands net cmds x)
   }"

definition tp_Execute ::
    "'s network \<Rightarrow> TransactionPipeline \<Rightarrow> Client \<times> 's \<Rightarrow> ((gerror + string list) \<times> TransactionPipeline \<times> Client \<times> 's) option" where
  "tp_Execute net tp x = do {
     (err, x) \<leftarrow> client_Multi net x;
     (case err of
        Some e \<Rightarrow> Some (Inl (Err (''failed to start transaction: '' @ error_text e)), tp, x)
      | None \<Rightarrow> do {
          let tp = tp\<lparr>tp_started := True\<rparr>;
          (err, x) \<leftarrow> queue_commands net (tp_commands tp) x;
          (case err of
             Some e \<Rightarrow> Some (Inl e, tp, x)
           | None \<Rightarrow> do {
               (results, x) \<leftarrow> client_Exec net x;
               Some (case results of Inl e \<Rightarrow> Inl (Err (''EXEC failed: '' @ error_text e)) | Inr rs \<Rightarrow> Inr rs, tp, x)
             })
        })
   }"

definition tp_Cancel :: "'s network \<Rightarrow> TransactionPipeline \<Rightarrow> Client \<times> 's \<Rightarrow> (gerror option \<times> Client \<times> 's) option" where
  "tp_Cancel net tp x = (if \<not> tp_started tp then Some (None, x) else client_Discard net x)"

definition SendCommand :: "'s network \<Rightarrow> string list \<Rightarrow> Client \<times> 's \<Rightarrow> ((gerror + string) \<times> Client \<times> 's) option" where
  "SendCommand net args x = do {
     cmd \<leftarrow> EncodeArray (map Str args);
     (case write_flush net cmd x of
        (Some (inWrite, err), c, s) \<Rightarrow>
          Some (Inl (Err ((if inWrite then ''failed to write command: '' else ''failed to flush: '') @ error_text err)), c, s)
      | (None, c, s) \<Rightarrow> do {
          (response, c) \<leftarrow> parse_reply c;
          Some (case response of
             Inl err \<Rightarrow> Inl (Err (''failed to read response: '' @ error_text err))
           | Inr v \<Rightarrow> Inr (fmt_v v), c, s)
        })
   }"

end
