(* ===== verification/Handler_Laws.thy ===== *)
theory Handler_Laws
  imports Handler Replication_Laws
begin

text \<open>
  The request handler as a client sees it. For a connection that sends SET, GET and DEL commands the
  bytes it gets back are those of a finite map, the log holds the writes, and the followers are sent
  them, so a replica equals it.
\<close>

section \<open>Commands as bytes\<close>

definition words_bytes :: "string list \<Rightarrow> string" where
  "words_bytes ws = (case EncodeArray (map Str ws) of None \<Rightarrow> [] | Some e \<Rightarrow> e)"

definition words_ok :: "string list \<Rightarrow> bool" where
  "words_ok ws \<longleftrightarrow> (\<forall>s \<in> set ws. small s) \<and> int (length ws) \<le> 17592186044416"

lemma Parse_words:
  assumes "words_ok ws"
  shows "Parse (words_bytes ws @ rest) = Some (Inr (Slice (map Str ws)), length (words_bytes ws))"
proof -
  have "map parsed (map Str ws) = map Str ws" by simp
  then show ?thesis using Parse_EncodeArray[of "map Str ws" rest] assms
    by (auto simp: words_bytes_def words_ok_def small_def)
qed

section \<open>The write path never fails\<close>

lemma Replicate_total:
  assumes "operation = OpSet \<or> operation = OpDelete"
  shows "\<exists>l'. Replicate ok operation k v ttl l = Some (None, l')"
  using assms by (elim disjE) (simp_all add: Replicate_def EncodeReplicateCommand_def EncodeArray_def repl_names Let_def)

text \<open>The node state after a write: the leader has taken the call.\<close>

definition replicated_node :: "(nat \<Rightarrow> bool) \<Rightarrow> call \<Rightarrow> NodeState \<Rightarrow> NodeState" where
  "replicated_node ok x ns =
     (case ns_leader ns of None \<Rightarrow> ns | Some l \<Rightarrow> (case replicate_call ok x l of None \<Rightarrow> ns | Some l' \<Rightarrow> SetLeader l' ns))"

lemma replicate_write_eq:
  assumes "operation = OpSet \<or> operation = OpDelete"
  shows "replicate_write env i operation k v ttl w =
    Some (w\<lparr>w_node := replicated_node (e_ok env i) (operation, k, v, ttl) (w_node w)\<rparr>)"
proof (cases "ns_leader (w_node w)")
  case (Some l)
  with Replicate_total[OF assms, of "e_ok env i" k v ttl l] show ?thesis
    by (auto simp: replicate_write_def replicated_node_def replicate_call_def)
qed (simp add: replicate_write_def replicated_node_def)

lemma append_write_eq:
  "append_write env i (map Str ws) w = Some (w\<lparr>w_aof := snd (Append (e_io env i) (e_short env i) (words_bytes ws) (w_aof w))\<rparr>)"
  using EncodeArray_strings[of ws] by (auto simp: append_write_def words_bytes_def)

lemma routing_replicated [simp]:
  "ShouldForwardRequest H k b (replicated_node ok x ns) = ShouldForwardRequest H k b ns"
  "ns_role (replicated_node ok x ns) = ns_role ns"
  by (simp_all add: replicated_node_def split: option.splits) (simp_all add: SetLeader_def)

section \<open>Requests and the map they describe\<close>

datatype request = RSet string string | RGet string | RDel string

fun words_of :: "request \<Rightarrow> string list" where
  "words_of (RSet k v) = [''SET'', k, v]"
| "words_of (RGet k) = [''GET'', k]"
| "words_of (RDel k) = [''DEL'', k]"

fun key_of :: "request \<Rightarrow> string" where
  "key_of (RSet k v) = k" | "key_of (RGet k) = k" | "key_of (RDel k) = k"

fun map_step :: "request \<Rightarrow> (string \<Rightarrow> string option) \<Rightarrow> string \<Rightarrow> string option" where
  "map_step (RSet k v) m = m(k \<mapsto> v)"
| "map_step (RGet k) m = m"
| "map_step (RDel k) m = m(k := None)"

fun map_reply :: "request \<Rightarrow> (string \<Rightarrow> string option) \<Rightarrow> string" where
  "map_reply (RSet k v) m = EncodeSimpleString ''OK''"
| "map_reply (RGet k) m = (case m k of None \<Rightarrow> EncodeBulkString [] True | Some v \<Rightarrow> EncodeBulkString v False)"
| "map_reply (RDel k) m = EncodeInteger 1"

fun map_replies :: "request list \<Rightarrow> (string \<Rightarrow> string option) \<Rightarrow> string" where
  "map_replies [] m = []"
| "map_replies (r # rs) m = map_reply r m @ map_replies rs (map_step r m)"

text \<open>What a request adds to the log and to the replication stream.\<close>

fun op_of :: "request \<Rightarrow> Operation list" where
  "op_of (RSet k v) = [\<lparr>op_Type = ''SET'', op_Key = k, op_Value = v, op_TTL = 0\<rparr>]"
| "op_of (RGet k) = []"
| "op_of (RDel k) = [\<lparr>op_Type = ''DEL'', op_Key = k, op_Value = [], op_TTL = 0\<rparr>]"

fun call_of :: "request \<Rightarrow> call list" where
  "call_of (RSet k v) = [(OpSet, k, v, 0)]"
| "call_of (RGet k) = []"
| "call_of (RDel k) = [(OpDelete, k, [], 0)]"

text \<open>A cache that holds a map, without expiry times.\<close>

definition holds_map :: "Cache \<Rightarrow> (string \<Rightarrow> string option) \<Rightarrow> bool" where
  "holds_map c m \<longleftrightarrow> cache_ready c \<and> entries c = (\<lambda>k. map_option (\<lambda>v. (v, 0)) (m k))"

lemma holds_map_dom: "holds_map c m \<Longrightarrow> dom (entries c) = dom m"
  by (auto simp: holds_map_def dom_def)

definition plain :: "ConnectionState \<Rightarrow> bool" where
  "plain cs \<longleftrightarrow> \<not> subscriberMode cs \<and> \<not> inTransaction cs"

text \<open>The node accepts writes and handles every key itself.\<close>

definition serves :: "'s env \<Rightarrow> NodeState \<Rightarrow> bool" where
  "serves env ns \<longleftrightarrow> ns_role ns \<noteq> ''follower'' \<and> (\<forall>k b. \<not> fst (ShouldForwardRequest (e_hash env) k b ns))"

definition logged :: "'s env \<Rightarrow> request \<Rightarrow> AOF \<Rightarrow> AOF" where
  "logged env r a = fold (\<lambda>op a. snd (Append (e_io env 0) (e_short env 0) (op_bytes op) a)) (op_of r) a"

definition sent :: "'s env \<Rightarrow> request \<Rightarrow> NodeState \<Rightarrow> NodeState" where
  "sent env r ns = fold (replicated_node (e_ok env 0)) (call_of r) ns"

lemma expiry_no_ttl [simp]: "expiry now 0 = 0"
  by (simp add: expiry_def)

lemma Seconds_no_ttl [simp]: "Seconds 0 = 0"
  by (simp add: Seconds_below_one)

lemma run_request:
  assumes "holds_map (w_cache w) m" and "finite K" and "dom m \<union> {key_of r} \<subseteq> K" and "card K \<le> cache_room (w_cache w)"
    and "ns_role (w_node w) \<noteq> ''follower''" and "small (key_of r)"
  shows "\<exists>c'. run_command env (Str (hd (words_of r))) (map Str (words_of r)) cs w =
      Some (map_reply r m, cs, w\<lparr>w_cache := c', w_aof := logged env r (w_aof w), w_node := sent env r (w_node w)\<rparr>) \<and>
    holds_map c' (map_step r m) \<and> cache_room c' = cache_room (w_cache w)"
proof (cases r)
  case (RSet k v)
  obtain c' where c': "Set (e_clock env 0) k v 0 (w_cache w) = Some c'" "cache_ready c'"
    "entries c' = (entries (w_cache w))(k \<mapsto> (v, expiry (e_clock env 0) 0))" "maxSize c' = maxSize (w_cache w)"
    using Set_ready[of "w_cache w" K k "e_clock env 0" v 0] assms(1-4) RSet holds_map_dom[OF assms(1)]
    by (auto simp: holds_map_def)
  have "op_bytes \<lparr>op_Type = ''SET'', op_Key = k, op_Value = v, op_TTL = 0\<rparr> = words_bytes [''SET'', k, v, Itoa 0]"
    by (simp add: op_bytes_def log_command_def words_bytes_def)
  then have "run_command env (Str (hd (words_of r))) (map Str (words_of r)) cs w =
      Some (map_reply r m, cs, w\<lparr>w_cache := c', w_aof := logged env r (w_aof w), w_node := sent env r (w_node w)\<rparr>)"
    using assms(5) c'(1) append_write_eq[of env 0 "[''SET'', k, v, Itoa 0]"]
    by (simp add: RSet run_command_def handleSet_def arg_def index_def replicate_write_eq reply_OK_def logged_def sent_def)
  moreover have "holds_map c' (map_step r m)" using c' assms(1) by (auto simp: RSet holds_map_def)
  ultimately show ?thesis using c'(4) by (auto simp: cache_room_def)
next
  case (RGet k)
  obtain c' where c': "Get (e_clock env 0) k (w_cache w) = Some (m k, c')" "cache_ready c'"
    "entries c' = entries (w_cache w)" "maxSize c' = maxSize (w_cache w)"
    using Get_ready[of "w_cache w" "e_clock env 0" k] assms(1)
    by (cases "m k") (auto simp: holds_map_def expired_def IsZero_def)
  then have "run_command env (Str (hd (words_of r))) (map Str (words_of r)) cs w =
      Some (map_reply r m, cs, w\<lparr>w_cache := c', w_aof := logged env r (w_aof w), w_node := sent env r (w_node w)\<rparr>)"
    by (simp add: RGet run_command_def handleGet_def arg_def index_def logged_def sent_def split: option.split)
  moreover have "holds_map c' (map_step r m)" using c' assms(1) by (auto simp: RGet holds_map_def)
  ultimately show ?thesis using c'(4) by (auto simp: cache_room_def)
next
  case (RDel k)
  obtain c' where c': "Delete k (w_cache w) = Some c'" "cache_ready c'"
    "entries c' = (entries (w_cache w))(k := None)" "maxSize c' = maxSize (w_cache w)"
    using Delete_ready[of "w_cache w" k] assms(1) by (auto simp: holds_map_def)
  have "op_bytes \<lparr>op_Type = ''DEL'', op_Key = k, op_Value = [], op_TTL = 0\<rparr> = words_bytes [''DEL'', k]"
    by (simp add: op_bytes_def log_command_def words_bytes_def)
  then have "run_command env (Str (hd (words_of r))) (map Str (words_of r)) cs w =
      Some (map_reply r m, cs, w\<lparr>w_cache := c', w_aof := logged env r (w_aof w), w_node := sent env r (w_node w)\<rparr>)"
    using assms(5) c'(1) append_write_eq[of env 0 "[''DEL'', k]"]
    by (simp add: RDel run_command_def handleDelete_def arg_def index_def replicate_write_eq logged_def sent_def)
  moreover have "holds_map c' (map_step r m)" using c' assms(1) by (auto simp: RDel holds_map_def)
  ultimately show ?thesis using c'(4) by (auto simp: cache_room_def)
qed

lemma cache_ready_metrics [simp]:
  "cache_ready (record_metric x c) = cache_ready c" "entries (record_metric x c) = entries c"
  "maxSize (record_metric x c) = maxSize c"
  by (simp_all add: cache_ready_def entries_def[abs_def])

lemma timed_simps [simp]:
  "w_aof (timed env w) = w_aof w" "w_node (timed env w) = w_node w" "w_ps (timed env w) = w_ps w" "w_net (timed env w) = w_net w"
  "holds_map (w_cache (timed env w)) m = holds_map (w_cache w) m" "cache_room (w_cache (timed env w)) = cache_room (w_cache w)"
  by (simp_all add: timed_def holds_map_def cache_room_def)

lemma serve_turn:
  assumes "holds_map (w_cache w) m" and "finite K" and "dom m \<union> {key_of r} \<subseteq> K" and "card K \<le> cache_room (w_cache w)"
    and "serves env (w_node w)" and "small (key_of r)" and "plain cs"
  shows "\<exists>w'. handle_turn env con (Slice (map Str (words_of r))) cs w = Some (True, map_reply r m, cs, w') \<and>
    holds_map (w_cache w') (map_step r m) \<and> cache_room (w_cache w') = cache_room (w_cache w) \<and>
    w_aof w' = logged env r (w_aof w) \<and> w_node w' = sent env r (w_node w) \<and> w_ps w' = w_ps w \<and> w_net w' = w_net w"
proof -
  obtain c' where c': "run_command env (Str (hd (words_of r))) (map Str (words_of r)) cs w =
      Some (map_reply r m, cs, w\<lparr>w_cache := c', w_aof := logged env r (w_aof w), w_node := sent env r (w_node w)\<rparr>)"
    "holds_map c' (map_step r m)" "cache_room c' = cache_room (w_cache w)"
    using run_request[OF assms(1-4) _ assms(6), of env cs] assms(5) by (auto simp: serves_def)
  let ?w = "w\<lparr>w_cache := c', w_aof := logged env r (w_aof w), w_node := sent env r (w_node w)\<rparr>"
  have ws: "hd (words_of r) \<in> {''SET'', ''GET'', ''DEL''}" "index (map Str (words_of r)) 0 = Some (Str (hd (words_of r)))"
    "arg (map Str (words_of r)) 1 = Some (key_of r)" "length (words_of r) \<ge> 2"
    by (cases r; simp add: index_def arg_def)+
  have "route_command env (Str (hd (words_of r))) (map Str (words_of r)) cs w = Some (map_reply r m, cs, ?w)"
    using ws(3,4) assms(5) c'(1) by (simp add: route_command_def serves_def split_beta Let_def del: arg_map_Str)
  then have "dispatch env con (Str (hd (words_of r))) (map Str (words_of r)) cs w = Some (map_reply r m, cs, ?w)"
    using ws(1) by (auto simp: dispatch_def)
  then have "handle_turn env con (Slice (map Str (words_of r))) cs w = Some (True, map_reply r m, cs, timed env ?w)"
    using ws(2) assms(7) by (simp add: handle_turn_def plain_def)
  then show ?thesis using c'(2,3) by auto
qed

section \<open>A stream of requests\<close>

fun logs :: "(nat \<Rightarrow> 's env) \<Rightarrow> nat \<Rightarrow> request list \<Rightarrow> AOF \<Rightarrow> AOF" where
  "logs envs i [] a = a"
| "logs envs i (r # rs) a = logs envs (Suc i) rs (logged (envs i) r a)"

fun sends :: "(nat \<Rightarrow> 's env) \<Rightarrow> nat \<Rightarrow> request list \<Rightarrow> NodeState \<Rightarrow> NodeState" where
  "sends envs i [] ns = ns"
| "sends envs i (r # rs) ns = sends envs (Suc i) rs (sent (envs i) r ns)"

lemma serves_sent [simp]: "serves env (sent env' r ns) = serves env ns"
  by (cases r) (simp_all add: sent_def serves_def)

definition request_bytes :: "request list \<Rightarrow> string" where
  "request_bytes rs = concat (map (\<lambda>r. words_bytes (words_of r)) rs)"

definition request_ok :: "request \<Rightarrow> bool" where
  "request_ok r \<longleftrightarrow> (\<forall>s \<in> set (words_of r). small s)"

lemma request_ok_words: "request_ok r \<Longrightarrow> words_ok (words_of r) \<and> small (key_of r)"
  by (cases r) (auto simp: request_ok_def words_ok_def)

lemma serve_requests:
  assumes "holds_map (w_cache w) m" and "finite K" and "dom m \<union> key_of ` set rs \<subseteq> K" and "card K \<le> cache_room (w_cache w)"
    and "\<forall>i. serves (envs i) (w_node w)" and "list_all request_ok rs" and "plain cs"
  shows "\<exists>w'. handle_loop envs (\<lambda>_ w. w) con i (request_bytes rs) cs w = Some (map_replies rs m, cs, w') \<and>
    holds_map (w_cache w') (fold map_step rs m) \<and> w_aof w' = logs envs i rs (w_aof w) \<and>
    w_node w' = sends envs i rs (w_node w) \<and> w_ps w' = w_ps w"
  using assms
proof (induction rs arbitrary: i m w)
  case Nil
  then show ?case by (simp add: request_bytes_def handle_loop.simps Parse.simps)
next
  case (Cons r rs)
  have ok: "words_ok (words_of r)" "small (key_of r)" using Cons.prems(6) request_ok_words by auto
  obtain w1 where w1: "handle_turn (envs i) con (Slice (map Str (words_of r))) cs w = Some (True, map_reply r m, cs, w1)"
    "holds_map (w_cache w1) (map_step r m)" "cache_room (w_cache w1) = cache_room (w_cache w)"
    "w_aof w1 = logged (envs i) r (w_aof w)" "w_node w1 = sent (envs i) r (w_node w)" "w_ps w1 = w_ps w"
    using serve_turn[OF Cons.prems(1,2) _ Cons.prems(4) Cons.prems(5)[rule_format, of i] ok(2) Cons.prems(7), of con] Cons.prems(3) by auto
  have "dom (map_step r m) \<subseteq> dom m \<union> {key_of r}" by (cases r) auto
  then have dom: "dom (map_step r m) \<union> key_of ` set rs \<subseteq> K" using Cons.prems(3) unfolding list.set image_insert by blast
  obtain w' where w': "handle_loop envs (\<lambda>_ w. w) con (Suc i) (request_bytes rs) cs w1 = Some (map_replies rs (map_step r m), cs, w')"
    "holds_map (w_cache w') (fold map_step rs (map_step r m))" "w_aof w' = logs envs (Suc i) rs (w_aof w1)"
    "w_node w' = sends envs (Suc i) rs (w_node w1)" "w_ps w' = w_ps w1"
    using Cons.IH[OF w1(2) Cons.prems(2) dom, of "Suc i"] Cons.prems(4-7) w1(3,5) by auto
  have "Parse (request_bytes (r # rs)) = Some (Inr (Slice (map Str (words_of r))), length (words_bytes (words_of r)))"
    "drop (length (words_bytes (words_of r))) (request_bytes (r # rs)) = request_bytes rs"
    using Parse_words[OF ok(1)] by (simp_all add: request_bytes_def)
  then have "handle_loop envs (\<lambda>_ w. w) con i (request_bytes (r # rs)) cs w = Some (map_replies (r # rs) m, cs, w')"
    using w1(1) w'(1) by (subst handle_loop.simps) simp
  with w1 w' show ?case by simp
qed

lemma RemoveConnection_total:
  "ps_ok ps \<Longrightarrow> \<forall>m. gget (subscriptions ps) con = Some m \<longrightarrow> is_range ord m \<Longrightarrow> \<exists>ps'. RemoveConnection ord con ps = Some ps' \<and> ps_ok ps'"
  by (rule RemoveConnection_ok[of ps con ord]) auto

lemma serve_connection:
  assumes "holds_map (w_cache w) m" and "finite K" and "dom m \<union> key_of ` set rs \<subseteq> K" and "card K \<le> cache_room (w_cache w)"
    and "\<forall>i. serves (envs i) (w_node w)" and "list_all request_ok rs" and "ps_ok (w_ps w)" and "ranges pick"
  shows "\<exists>w'. handleConnection envs (\<lambda>_ w. w) pick con (request_bytes rs) w = Some (map_replies rs m, w') \<and>
    holds_map (w_cache w') (fold map_step rs m) \<and> w_aof w' = logs envs 0 rs (w_aof w) \<and>
    w_node w' = sends envs 0 rs (w_node w)"
proof -
  let ?w = "w\<lparr>w_cache := record_metric IncrementActiveConnections (w_cache w)\<rparr>"
  have "holds_map (w_cache ?w) m" "card K \<le> cache_room (w_cache ?w)" using assms(1,4) by (simp_all add: holds_map_def cache_room_def)
  then obtain w1 where w1: "handle_loop envs (\<lambda>_ w. w) con 0 (request_bytes rs) fresh_connection ?w = Some (map_replies rs m, fresh_connection, w1)"
    "holds_map (w_cache w1) (fold map_step rs m)" "w_aof w1 = logs envs 0 rs (w_aof w)" "w_node w1 = sends envs 0 rs (w_node w)" "w_ps w1 = w_ps w"
    using serve_requests[of ?w m K rs envs fresh_connection con 0] assms(2,3,5,6) by (auto simp: plain_def fresh_connection_def)
  obtain ps where "RemoveConnection (pick (case gget (subscriptions (w_ps w)) con of None \<Rightarrow> [] | Some m \<Rightarrow> m)) con (w_ps w) = Some ps"
    using RemoveConnection_total[OF assms(7), of con "pick (case gget (subscriptions (w_ps w)) con of None \<Rightarrow> [] | Some m \<Rightarrow> m)"] assms(8)
      ps_okD(2)[OF assms(7), unfolded sets_ok_def]
    by (auto simp: ranges_def)
  with w1 show ?thesis by (auto simp: handleConnection_def holds_map_def Let_def)
qed


definition sample_env :: "unit env" where
  "sample_env = \<lparr>e_clock = \<lambda>_. 5, e_keyclock = \<lambda>_. 5, e_io = \<lambda>_ _. True, e_short = \<lambda>_. 0, e_ok = \<lambda>_ _. True,
     e_items = \<lambda>m. m, e_names = \<lambda>m. m, e_subs = \<lambda>m. m, e_ring = \<lambda>m. m, e_health = \<lambda>m. m, e_hash = \<lambda>_. 0,
     e_net = \<lparr>net_dial = \<lambda>_ s. (Some (Err ''refused''), s), net_talk = \<lambda>_ _ s. (Some (Err ''closed''), [], s)\<rparr>,
     e_between = \<lambda>c. c, e_duration = 1\<rparr>"

definition sample_world :: "NodeState \<Rightarrow> unit world" where
  "sample_world ns = \<lparr>w_cache = NewCache 4 [], w_aof = sample_aof, w_node = ns, w_ps = NewPubSub, w_net = ()\<rparr>"

lemma serves_single: "ns_config ns = None \<Longrightarrow> ns_role ns \<noteq> ''follower'' \<Longrightarrow> serves env ns"
  by (simp add: serves_def ShouldForwardRequest_def state_IsClusterMode_def)

lemma holds_map_New [simp]: "holds_map (NewCache cap ms) Map.empty"
  using cache_ready_New[of cap ms] by (simp add: holds_map_def)

lemma maxSize_New [simp]: "maxSize (NewCache cap ms) = cap"
  by (simp add: NewCache_def)


section \<open>Writes survive a restart\<close>

definition ops_of :: "request list \<Rightarrow> Operation list" where
  "ops_of rs = concat (map op_of rs)"

lemma logged_text:
  assumes "file_open a" and "\<And>s. e_io env 0 s" and "policy a = SyncAlways" and "stable a = length (log_text a)"
    and "gget (disk a) (fileName a) = Some (log_text a)" and "n \<noteq> fileName a"
  shows "log_text (logged env r a) = log_text a @ log_bytes (op_of r) \<and> file_open (logged env r a) \<and>
    policy (logged env r a) = SyncAlways \<and> fileName (logged env r a) = fileName a \<and> snapshotName (logged env r a) = snapshotName a \<and>
    stable (logged env r a) = length (log_text (logged env r a)) \<and>
    gget (disk (logged env r a)) (fileName a) = Some (log_text (logged env r a)) \<and>
    gget (disk (logged env r a)) n = gget (disk a) n"
  using assms by (cases r) (simp_all add: logged_def Append_def Let_def, simp_all add: write_log_def gget_gset)

lemma logs_text:
  assumes "file_open a" and "\<And>i s. e_io (envs i) 0 s" and "policy a = SyncAlways" and "stable a = length (log_text a)"
    and "gget (disk a) (fileName a) = Some (log_text a)" and "n \<noteq> fileName a"
  shows "log_text (logs envs i rs a) = log_text a @ log_bytes (ops_of rs) \<and> fileName (logs envs i rs a) = fileName a \<and>
    snapshotName (logs envs i rs a) = snapshotName a \<and> stable (logs envs i rs a) = length (log_text (logs envs i rs a)) \<and>
    gget (disk (logs envs i rs a)) (fileName a) = Some (log_text (logs envs i rs a)) \<and>
    gget (disk (logs envs i rs a)) n = gget (disk a) n"
  using assms
proof (induction rs arbitrary: i a)
  case (Cons r rs)
  note L = logged_text[OF Cons.prems(1,2,3,4,5,6), of i r]
  then show ?case using Cons.IH[of "logged (envs i) r a" "Suc i"] Cons.prems(2,5,6) by (auto simp: ops_of_def)
qed (simp add: ops_of_def)

lemma ops_of_wf: "list_all request_ok rs \<Longrightarrow> list_all op_wf (ops_of rs)"
proof (induction rs)
  case (Cons r rs)
  then show ?case by (cases r) (auto simp: ops_of_def op_wf_def request_ok_def small_def in_i64_def)
qed (simp add: ops_of_def)

lemma op_eff_step:
  "fold op_eff (zip (map clock [n..<n + length (op_of r)]) (op_of r)) (\<lambda>k. map_option (\<lambda>v. (v, 0)) (m k)) =
     (\<lambda>k. map_option (\<lambda>v. (v, 0)) (map_step r m k))"
  by (cases r) (auto simp: op_eff_def seconds_dur_def i64_def upt_rec)

lemma op_eff_steps:
  "fold op_eff (zip (map clock [n..<n + length (ops_of rs)]) (ops_of rs)) (\<lambda>k. map_option (\<lambda>v. (v, 0)) (m k)) =
     (\<lambda>k. map_option (\<lambda>v. (v, 0)) (fold map_step rs m k))"
proof (induction rs arbitrary: n m)
  case (Cons r rs)
  let ?a = "length (op_of r)" and ?b = "length (ops_of rs)"
  have "[n..<n + (?a + ?b)] = [n..<n + ?a] @ [n + ?a..<n + ?a + ?b]" by (metis add.assoc upt_add_eq_append le_add1)
  then show ?case using Cons.IH[of "n + ?a" "map_step r m"] op_eff_step[of clock n r m]
    by (simp add: ops_of_def zip_append)
qed (simp add: ops_of_def)

lemma ops_of_keys: "op_Key ` set (ops_of rs) \<subseteq> key_of ` set rs"
proof -
  have "op_Key ` set (op_of r) \<subseteq> {key_of r}" for r by (cases r) auto
  then show ?thesis by (fastforce simp: ops_of_def)
qed

section \<open>Replicas\<close>

definition calls_of :: "request list \<Rightarrow> call list" where
  "calls_of rs = concat (map call_of rs)"

lemma calls_of_simps [simp]: "calls_of [] = []" "calls_of (r # rs) = call_of r @ calls_of rs"
  by (simp_all add: calls_of_def)

lemma numbered_append: "numbered n (xs @ ys) = numbered n xs @ numbered (n + int (length xs)) ys"
  by (induction n xs rule: numbered.induct) (simp_all add: add.assoc add.commute)

lemma length_numbered [simp]: "length (numbered n xs) = length xs"
  by (induction n xs rule: numbered.induct) simp_all

lemma sent_leader:
  assumes "ns_leader ns = Some l" and "list_all call_ok (call_of r)" and "0 \<le> seqNum l"
    and "seqNum l + int (length (call_of r)) < 9223372036854775808" and "one_conn conn (followers l)" and "e_ok env 0 conn"
  shows "\<exists>l'. ns_leader (sent env r ns) = Some l' \<and> followers l' = followers l \<and> seqNum l' = seqNum l + int (length (call_of r)) \<and>
    Replication.wire l' conn = Replication.wire l conn @ stream_bytes (numbered (seqNum l) (call_of r))"
proof (cases "call_of r")
  case (Cons x xs)
  then have "xs = []" by (cases r) auto
  then show ?thesis using replicate_calls[where ok = "e_ok env 0", OF assms(2-6)] assms(1) Cons
    by (auto simp: sent_def replicated_node_def SetLeader_def split: Option.bind_splits)
qed (use assms(1) in \<open>simp add: sent_def\<close>)

lemma sends_leader:
  assumes "ns_leader ns = Some l" and "list_all call_ok (calls_of rs)" and "0 \<le> seqNum l"
    and "seqNum l + int (length (calls_of rs)) < 9223372036854775808" and "one_conn conn (followers l)" and "\<forall>i. e_ok (envs i) 0 conn"
  shows "\<exists>l'. ns_leader (sends envs i rs ns) = Some l' \<and> seqNum l' = seqNum l + int (length (calls_of rs)) \<and>
    Replication.wire l' conn = Replication.wire l conn @ stream_bytes (numbered (seqNum l) (calls_of rs))"
  using assms
proof (induction rs arbitrary: i ns l)
  case (Cons r rs)
  obtain l1 where l1: "ns_leader (sent (envs i) r ns) = Some l1" "followers l1 = followers l" "seqNum l1 = seqNum l + int (length (call_of r))"
    "Replication.wire l1 conn = Replication.wire l conn @ stream_bytes (numbered (seqNum l) (call_of r))"
    using sent_leader[OF Cons.prems(1) _ Cons.prems(3) _ Cons.prems(5), of r "envs i"] Cons.prems(2,4,6) by auto
  then show ?case using Cons.IH[OF l1(1), of "Suc i"] Cons.prems by (auto simp: numbered_append algebra_simps)
qed simp

lemma cmd_eff_step:
  "fold cmd_eff (zip (map clock [n..<n + length (call_of r)]) (numbered q (call_of r))) (\<lambda>k. map_option (\<lambda>v. (v, 0)) (m k)) =
     (\<lambda>k. map_option (\<lambda>v. (v, 0)) (map_step r m k))"
  by (cases r) (auto simp: cmd_eff_def repl_names seconds_dur_def i64_def upt_rec)

lemma cmd_eff_steps:
  "fold cmd_eff (zip (map clock [n..<n + length (calls_of rs)]) (numbered q (calls_of rs))) (\<lambda>k. map_option (\<lambda>v. (v, 0)) (m k)) =
     (\<lambda>k. map_option (\<lambda>v. (v, 0)) (fold map_step rs m k))"
proof (induction rs arbitrary: n m q)
  case (Cons r rs)
  let ?a = "length (call_of r)" and ?b = "length (calls_of rs)"
  have "[n..<n + (?a + ?b)] = [n..<n + ?a] @ [n + ?a..<n + ?a + ?b]" by (metis add.assoc upt_add_eq_append le_add1)
  then show ?case using Cons.IH[of "n + ?a" "q + int ?a" "map_step r m"] cmd_eff_step[of clock n r q m]
    by (simp add: numbered_append)
qed simp

lemma calls_of_ok: "list_all request_ok rs \<Longrightarrow> list_all call_ok (calls_of rs)"
proof (induction rs)
  case (Cons r rs)
  then show ?case by (cases r) (auto simp: call_ok_def request_ok_def in_i64_def)
qed simp

lemma calls_of_length: "length (calls_of rs) \<le> length rs"
proof (induction rs)
  case (Cons r rs)
  then show ?case by (cases r) auto
qed simp

lemma calls_of_keys: "(\<lambda>(operation, k, v, ttl). k) ` set (calls_of rs) \<subseteq> key_of ` set rs"
proof (induction rs)
  case (Cons r rs)
  then show ?case by (cases r) auto
qed simp



end
