(* ===== verification/Transactions.thy ===== *)
theory Transactions
  imports Handler_Laws
begin

text \<open>
  Transactions of a connection (MULTI, EXEC, DISCARD in \<open>internal/server/handler.go\<close>): the commands
  that EXEC runs on the locked cache give what the same commands give one by one, a transaction with
  an error changes nothing, and the cases where EXEC differs from the single commands.
\<close>

section \<open>The lock is held throughout\<close>

lemma evict_mu: "evict c = Some c' \<Longrightarrow> mu c' = mu c"
  by (auto simp: evict_def Let_def split: Option.bind_splits option.splits prod.splits if_splits)

lemma internal_mu:
  "SetInternal now k v ttl c = Some c' \<Longrightarrow> mu c' = mu c"
  "GetInternal now k c = Some (r, c') \<Longrightarrow> mu c' = mu c"
  "DeleteInternal k c = Some c' \<Longrightarrow> mu c' = mu c"
  by (auto simp: SetInternal_def GetInternal_def DeleteInternal_def Let_def
      split: Option.bind_splits option.splits if_splits dest!: evict_mu)

lemma execute_command_mu: "execute_command env i cmd c = Some (r, c') \<Longrightarrow> mu c' = mu c"
  by (auto simp: execute_command_def executeSetCommand_def executeGetCommand_def executeDeleteCommand_def executeDBSizeCommand_def Let_def
      split: Option.bind_splits option.splits if_splits sum.splits dest!: internal_mu)

section \<open>EXEC and single commands\<close>

text \<open>What the command \<open>i\<close> of a transaction finds outside.\<close>

definition env_at :: "nat \<Rightarrow> 's env \<Rightarrow> 's env" where
  "env_at i env = env\<lparr>e_clock := \<lambda>_. e_clock env i, e_io := \<lambda>_. e_io env i, e_short := \<lambda>_. e_short env i, e_ok := \<lambda>_. e_ok env i\<rparr>"

fun run_all :: "'s env \<Rightarrow> nat \<Rightarrow> iface list list \<Rightarrow> ConnectionState \<Rightarrow> 's world \<Rightarrow> (string list \<times> 's world) option" where
  "run_all env i [] cs w = Some ([], w)"
| "run_all env i (cmd # cmds) cs w = do {
     command \<leftarrow> index cmd 0;
     (out, cs', w) \<leftarrow> run_command (env_at i env) command cmd cs w;
     (outs, w) \<leftarrow> run_all env (Suc i) cmds cs w;
     Some (out # outs, w)
   }"

text \<open>The commands on which the two agree: a lifetime is a number of seconds that a duration can hold.\<close>

definition ttl_ok :: "string \<Rightarrow> bool" where
  "ttl_ok s \<longleftrightarrow> (case Atoi s of None \<Rightarrow> False | Some n \<Rightarrow> \<bar>n\<bar> \<le> 9223372036)"

datatype command = Plain request | SetSeconds string string string | SetEx string string string string | Ping "string list"

fun command_words :: "command \<Rightarrow> string list" where
  "command_words (Plain r) = words_of r"
| "command_words (SetSeconds k v t) = [''SET'', k, v, t]"
| "command_words (SetEx k v e t) = [''SET'', k, v, e, t]"
| "command_words (Ping ws) = ''PING'' # ws"

fun command_ok :: "command \<Rightarrow> bool" where
  "command_ok (SetSeconds k v t) \<longleftrightarrow> ttl_ok t"
| "command_ok (SetEx k v e t) \<longleftrightarrow> ToUpper e = ''EX'' \<and> ttl_ok t"
| "command_ok (Ping ws) \<longleftrightarrow> length ws \<le> 1"
| "command_ok (Plain r) \<longleftrightarrow> True"

definition cmd_of :: "command \<Rightarrow> iface list" where
  "cmd_of x = map Str (command_words x)"

lemma bind_map_option: "map_option g x \<bind> f = x \<bind> (\<lambda>y. f (g y))"
  by (cases x) simp_all

lemma bind_Some_map: "x \<bind> (\<lambda>y. Some (f y)) = map_option f x"
  by (cases x) simp_all

lemmas map_bind = map_option_bind bind_map_option if_distrib[of "map_option g" for g]

lemma write_path_cache:
  "replicate_write env i operation k v ttl (w\<lparr>w_cache := c\<rparr>) = map_option (\<lambda>w. w\<lparr>w_cache := c\<rparr>) (replicate_write env i operation k v ttl w)"
  "append_write env i cmd (w\<lparr>w_cache := c\<rparr>) = map_option (\<lambda>w. w\<lparr>w_cache := c\<rparr>) (append_write env i cmd w)"
  by (auto simp: replicate_write_def append_write_def map_bind split: option.split prod.split intro!: Option.bind_cong)

lemma persist_command_cache:
  "persist_command env i cmd (w\<lparr>w_cache := c\<rparr>) = map_option (\<lambda>w. w\<lparr>w_cache := c\<rparr>) (persist_command env i cmd w)"
  by (simp add: persist_command_def write_path_cache map_bind cong: if_cong)

lemma env_at_simps [simp]:
  "replicate_write (env_at i env) j operation k v ttl w = replicate_write env i operation k v ttl w"
  "append_write (env_at i env) j cmd w = append_write env i cmd w" "e_clock (env_at i env) j = e_clock env i"
  by (simp_all add: env_at_def replicate_write_def append_write_def split: option.split)

lemma relock: "mu c \<Longrightarrow> (Unlock c)\<lparr>mu := True\<rparr> = c"
  by (simp add: Unlock_def)

lemma unlocked_operations:
  assumes "mu c"
  shows "Set now k v ttl (Unlock c) = map_option Unlock (SetInternal now k v ttl c)"
    "Get now k (Unlock c) = map_option (map_prod id Unlock) (GetInternal now k c)"
    "Delete k (Unlock c) = map_option Unlock (DeleteInternal k c)"
  using locked_operations[of now k v ttl "Unlock c"] relock[OF assms] by simp_all

lemma ttl_okE: "ttl_ok s \<Longrightarrow> \<exists>n. Atoi s = Some n \<and> Seconds (seconds_dur n) = n"
  by (auto simp: ttl_ok_def Seconds_seconds_dur split: option.splits)

lemmas command_defs = cmd_of_def run_command_def handlePing_def execute_command_def executePingCommand_def persist_command_def arg_def index_def

lemma exec_step:
  assumes "command_ok x" and "mu c" and "ns_role (w_node w) \<noteq> ''follower''"
  shows "run_command (env_at i env) (Str (hd (command_words x))) (cmd_of x) cs (w\<lparr>w_cache := Unlock c\<rparr>) =
    do { (r, c') \<leftarrow> execute_command env i (cmd_of x) c;
         w' \<leftarrow> persist_command env i (cmd_of x) (w\<lparr>w_cache := Unlock c'\<rparr>);
         Some (r, cs, w') }"
proof (cases x)
  case (Plain r)
  then show ?thesis using assms(3)
  proof (cases r)
    case (RSet k v)
    then show ?thesis using assms(3)
      by (simp add: Plain command_defs handleSet_def executeSetCommand_def unlocked_operations[OF assms(2)] bind_map_option)
  next
    case (RGet k)
    then show ?thesis using assms(3)
      by (cases "GetInternal (e_clock env i) k c") 
       (auto simp add: Plain command_defs handleGet_def executeGetCommand_def unlocked_operations[OF assms(2)] bind_map_option)
  next
    case (RDel k)
    then show ?thesis using assms(3)
      by (simp add: Plain command_defs handleDelete_def executeDeleteCommand_def unlocked_operations[OF assms(2)] bind_map_option)
  qed
next
  case (SetSeconds k v t)
  then obtain n where "Atoi t = Some n" "Seconds (seconds_dur n) = n" using assms(1) ttl_okE by auto
  then show ?thesis using assms(3) SetSeconds
    by (simp add: command_defs handleSet_def executeSetCommand_def unlocked_operations[OF assms(2)] bind_map_option)
next
  case (SetEx k v e t)
  then obtain n where "Atoi t = Some n" "Seconds (seconds_dur n) = n" "ToUpper e = ''EX''" using assms(1) ttl_okE by auto
  then show ?thesis using assms(3) SetEx
    by (simp add: command_defs handleSet_def executeSetCommand_def unlocked_operations[OF assms(2)] bind_map_option)
qed (simp add: command_defs)

lemma persist_command_role:
  "persist_command env i (cmd_of x) w = Some w' \<Longrightarrow> ns_role (w_node w') = ns_role (w_node w) \<and> w_cache w' = w_cache w"
  by (cases x rule: command_words.cases; cases "case x of Plain r \<Rightarrow> r | _ \<Rightarrow> RGet []")
    (auto simp: command_defs replicate_write_def append_write_def SetLeader_def split: Option.bind_splits option.splits)

lemma exec_queue:
  assumes "list_all command_ok xs" and "mu c" and "ns_role (w_node w) \<noteq> ''follower''"
  shows "run_all env i (map cmd_of xs) cs (w\<lparr>w_cache := Unlock c\<rparr>) =
    do { (rs, c') \<leftarrow> execute_queue env i (map cmd_of xs) c;
         w' \<leftarrow> persist_queue env i (map cmd_of xs) (w\<lparr>w_cache := Unlock c'\<rparr>);
         Some (rs, w') }"
  using assms
proof (induction xs arbitrary: i c w)
  case (Cons x xs)
  have x: "index (cmd_of x) 0 = Some (Str (hd (command_words x)))"
    by (cases x rule: command_words.cases; cases "case x of Plain r \<Rightarrow> r | _ \<Rightarrow> RGet []") (simp_all add: cmd_of_def index_def)
  show ?case
  proof (cases "execute_command env i (cmd_of x) c")
    case None
    then show ?thesis using exec_step[of x c w i env cs] Cons.prems by (simp add: x)
  next
    case (Some rc)
    then obtain r c1 where r: "execute_command env i (cmd_of x) c = Some (r, c1)" by (cases rc) auto
    note c1 = r trans[OF execute_command_mu[OF r] eqTrueI[OF Cons.prems(2)], THEN eqTrueE]
    show ?thesis
    proof (cases "persist_command env i (cmd_of x) w")
      case None
      then show ?thesis using exec_step[of x c w i env cs] Cons.prems c1(1)
        by (auto simp: x persist_command_cache split: Option.bind_split)
    next
      case (Some w1)
      then show ?thesis using exec_step[of x c w i env cs] Cons.prems c1 Cons.IH[OF _ c1(2), of w1 "Suc i"] persist_command_role[OF Some]
        by (auto simp: x persist_command_cache split: Option.bind_split)
    qed
  qed
qed simp

lemma persist_queue_cache:
  "persist_queue env i cmds (w\<lparr>w_cache := c\<rparr>) = map_option (\<lambda>w. w\<lparr>w_cache := c\<rparr>) (persist_queue env i cmds w)"
  by (induction cmds arbitrary: i w) (simp_all add: persist_command_cache map_bind)

definition exec_reply :: "string list \<Rightarrow> string" where
  "exec_reply rs = ''*'' @ Itoa (int (length rs)) @ crlf @ concat rs"

lemma handleExec_eq:
  assumes "\<not> mu (w_cache w)" and "inTransaction cs" and "transactionError cs = None" and "commandQueue cs = map cmd_of xs"
    and "list_all command_ok xs" and "ns_role (w_node w) \<noteq> ''follower''"
  shows "handleExec env cs w = map_option (\<lambda>(rs, w'). (exec_reply rs, end_transaction cs, w')) (run_all env 0 (map cmd_of xs) cs' w)"
proof -
  let ?c = "(w_cache w)\<lparr>mu := True\<rparr>"
  have "Unlock ?c = w_cache w" using assms(1) by (simp add: Unlock_def)
  then have "run_all env 0 (map cmd_of xs) cs' w =
      do { (rs, c') \<leftarrow> execute_queue env 0 (map cmd_of xs) ?c;
           w' \<leftarrow> persist_queue env 0 (map cmd_of xs) (w\<lparr>w_cache := Unlock c'\<rparr>);
           Some (rs, w') }"
    using exec_queue[of xs ?c w env 0 cs'] assms(5,6) by simp
  then show ?thesis using assms(1-4)
    by (auto simp: handleExec_def Lock_def persist_queue_cache map_bind exec_reply_def split: Option.bind_split prod.split)
qed

section \<open>A transaction on the wire\<close>

lemma handle_loop_words:
  assumes "words_ok ws"
  shows "handle_loop envs others con i (words_bytes ws @ rest) cs w =
    do { (go, out, cs, w) \<leftarrow> handle_turn (envs i) con (Slice (map Str ws)) cs (others i w);
         if \<not> go then Some (out, cs, w)
         else do { (out', cs, w) \<leftarrow> handle_loop envs others con (Suc i) rest cs w; Some (out @ out', cs, w) } }"
proof -
  have "drop (length (words_bytes ws)) (words_bytes ws @ rest) = rest" by simp
  then show ?thesis
    by (subst handle_loop.simps) (simp only: Parse_words[OF assms] option.case prod.case sum.case)
qed

lemma handle_loop_Nil [simp]: "handle_loop envs others con i [] cs w = Some ([], cs, w)"
  by (simp add: handle_loop.simps Parse.simps)

lemma queue_turn:
  assumes "\<not> subscriberMode cs" and "inTransaction cs" and "transactionError cs = None" and "command_ok x"
  shows "handle_turn env con (Slice (cmd_of x)) cs w =
    Some (True, EncodeSimpleString ''QUEUED'', cs\<lparr>commandQueue := commandQueue cs @ [cmd_of x]\<rparr>, timed env w)"
  using assms
  by (cases x rule: command_words.cases; cases "case x of Plain r \<Rightarrow> r | _ \<Rightarrow> RGet []")
    (simp_all add: handle_turn_def cmd_of_def index_def arg_def canQueueCommand_def queueCommandForTransaction_def queue_error_def)

definition command_bytes :: "command list \<Rightarrow> string" where
  "command_bytes xs = concat (map (\<lambda>x. words_bytes (command_words x)) xs)"

definition timed_turns :: "(nat \<Rightarrow> 's env) \<Rightarrow> nat \<Rightarrow> nat \<Rightarrow> 's world \<Rightarrow> 's world" where
  "timed_turns envs i n w = fold (\<lambda>j. timed (envs j)) [i..<i + n] w"

lemma timed_turns_Suc: "timed_turns envs i (Suc n) w = timed_turns envs (Suc i) n (timed (envs i) w)"
  by (simp add: timed_turns_def upt_conv_Cons del: upt_Suc)

lemma timed_turns_simps [simp]: "mu (w_cache (timed_turns envs i n w)) = mu (w_cache w)" "w_node (timed_turns envs i n w) = w_node w"
proof -
  have "mu (w_cache (fold (\<lambda>j. timed (envs j)) js w)) = mu (w_cache w) \<and> w_node (fold (\<lambda>j. timed (envs j)) js w) = w_node w" for js
    by (induction js arbitrary: w) (simp_all add: timed_def)
  then show "mu (w_cache (timed_turns envs i n w)) = mu (w_cache w)" "w_node (timed_turns envs i n w) = w_node w"
    by (simp_all add: timed_turns_def)
qed

lemma queue_turns:
  assumes "list_all (\<lambda>x. command_ok x \<and> words_ok (command_words x)) xs"
    and "\<not> subscriberMode cs" and "inTransaction cs" and "transactionError cs = None"
  shows "handle_loop envs (\<lambda>_ w. w) con i (command_bytes xs @ rest) cs w =
    do { (out, cs, w) \<leftarrow> handle_loop envs (\<lambda>_ w. w) con (i + length xs) rest
           (cs\<lparr>commandQueue := commandQueue cs @ map cmd_of xs\<rparr>) (timed_turns envs i (length xs) w);
         Some (concat (replicate (length xs) (EncodeSimpleString ''QUEUED'')) @ out, cs, w) }"
  using assms
proof (induction xs arbitrary: i cs w)
  case Nil
  then show ?case by (simp add: command_bytes_def timed_turns_def)
next
  case (Cons x xs)
  have "handle_loop envs (\<lambda>_ w. w) con i (command_bytes (x # xs) @ rest) cs w =
    do { (out', cs, w) \<leftarrow> handle_loop envs (\<lambda>_ w. w) con (Suc i) (command_bytes xs @ rest)
            (cs\<lparr>commandQueue := commandQueue cs @ [cmd_of x]\<rparr>) (timed (envs i) w);
         Some (EncodeSimpleString ''QUEUED'' @ out', cs, w) }"
    using handle_loop_words[of "command_words x" envs "\<lambda>_ w. w" con i "command_bytes xs @ rest" cs w]
      queue_turn[OF Cons.prems(2-4), of x "envs i" con w] Cons.prems(1) by (simp add: command_bytes_def cmd_of_def)
  then show ?case
    using Cons.IH[of "cs\<lparr>commandQueue := commandQueue cs @ [cmd_of x]\<rparr>" "Suc i" "timed (envs i) w"] Cons.prems
    by (simp add: timed_turns_Suc case_prod_beta')
qed

lemma control_turns:
  assumes "\<not> subscriberMode cs"
  shows "\<not> inTransaction cs \<Longrightarrow> handle_turn env con (Slice [Str ''MULTI'']) cs w =
      Some (True, reply_OK, cs\<lparr>inTransaction := True, commandQueue := [], transactionError := None\<rparr>, timed env w)"
    and "handle_turn env con (Slice [Str ''EXEC'']) cs w = map_option (\<lambda>(out, cs, w). (True, out, cs, timed env w)) (handleExec env cs w)"
  using assms
  by (auto simp: handle_turn_def dispatch_def route_command_def run_command_def index_def arg_def handleMulti_def map_option_case
      split: Option.bind_split option.split)


definition sample_commands :: "command list" where
  "sample_commands = [SetSeconds ''k'' ''v'' ''60'', Plain (RGet ''k''), Plain (RDel ''k''), Ping []]"


section \<open>Transactions that fail\<close>

lemma transaction_turn:
  assumes "\<not> subscriberMode cs" and "inTransaction cs" and "ws \<noteq> []" and "hd ws \<notin> {''EXEC'', ''DISCARD''}"
  shows "\<exists>out cs'. handle_turn env con (Slice (map Str ws)) cs w = Some (True, out, cs', timed env w) \<and>
    \<not> subscriberMode cs' \<and> inTransaction cs' \<and>
    (transactionError cs \<noteq> None \<or> canQueueCommand (hd ws) \<and> queue_error (map Str ws) (hd ws) \<noteq> None \<longrightarrow> transactionError cs' \<noteq> None)"
proof -
  obtain name args where ws: "ws = name # args" using assms(3) by (cases ws) auto
  have "canQueueCommand name \<Longrightarrow> \<exists>out cs'. queueCommandForTransaction (map Str ws) cs = Some (out, cs') \<and>
    \<not> subscriberMode cs' \<and> inTransaction cs' \<and>
    (transactionError cs \<noteq> None \<or> queue_error (map Str ws) name \<noteq> None \<longrightarrow> transactionError cs' \<noteq> None)"
    using assms(1,2) by (auto simp: ws queueCommandForTransaction_def arg_def index_def split: option.split)
  with assms(1,2,4) show ?thesis
    by (cases "canQueueCommand name") (auto simp: ws handle_turn_def index_def)
qed

lemma transaction_turns:
  assumes "list_all (\<lambda>ws. words_ok ws \<and> ws \<noteq> [] \<and> hd ws \<notin> {''EXEC'', ''DISCARD''}) wss"
    and "\<not> subscriberMode cs" and "inTransaction cs"
    and "transactionError cs \<noteq> None \<or> (\<exists>ws \<in> set wss. canQueueCommand (hd ws) \<and> queue_error (map Str ws) (hd ws) \<noteq> None)"
  shows "\<exists>out cs'. handle_loop envs (\<lambda>_ w. w) con i (concat (map words_bytes wss) @ rest) cs w =
      do { (out', cs, w) \<leftarrow> handle_loop envs (\<lambda>_ w. w) con (i + length wss) rest cs' (timed_turns envs i (length wss) w);
           Some (out @ out', cs, w) } \<and>
    \<not> subscriberMode cs' \<and> inTransaction cs' \<and> transactionError cs' \<noteq> None"
  using assms
proof (induction wss arbitrary: i cs w)
  case Nil
  then show ?case by (intro exI[of _ "[]"] exI[of _ cs]) (simp add: timed_turns_def)
next
  case (Cons ws wss)
  obtain out1 cs1 where cs1: "handle_turn (envs i) con (Slice (map Str ws)) cs w = Some (True, out1, cs1, timed (envs i) w)"
    "\<not> subscriberMode cs1" "inTransaction cs1"
    "transactionError cs \<noteq> None \<or> canQueueCommand (hd ws) \<and> queue_error (map Str ws) (hd ws) \<noteq> None \<longrightarrow> transactionError cs1 \<noteq> None"
    using transaction_turn[OF Cons.prems(2,3), of ws "envs i" con w] Cons.prems(1) by auto
  have "transactionError cs1 \<noteq> None \<or> (\<exists>ws \<in> set wss. canQueueCommand (hd ws) \<and> queue_error (map Str ws) (hd ws) \<noteq> None)"
    using cs1(4) Cons.prems(4) by auto
  moreover have "list_all (\<lambda>ws. words_ok ws \<and> ws \<noteq> [] \<and> hd ws \<notin> {''EXEC'', ''DISCARD''}) wss" using Cons.prems(1) by simp
  ultimately obtain out2 cs2 where "handle_loop envs (\<lambda>_ w. w) con (Suc i) (concat (map words_bytes wss) @ rest) cs1 (timed (envs i) w) =
      do { (out', cs, w) \<leftarrow> handle_loop envs (\<lambda>_ w. w) con (Suc i + length wss) rest cs2 (timed_turns envs (Suc i) (length wss) (timed (envs i) w));
           Some (out2 @ out', cs, w) }" "\<not> subscriberMode cs2" "inTransaction cs2" "transactionError cs2 \<noteq> None"
    using Cons.IH[OF _ cs1(2,3), of "Suc i" "timed (envs i) w"] by blast
  then show ?case
    using handle_loop_words[of ws envs "\<lambda>_ w. w" con i "concat (map words_bytes wss) @ rest" cs w] cs1(1) Cons.prems(1)
    by (intro exI[of _ "out1 @ out2"] exI[of _ cs2]) (simp add: timed_turns_Suc case_prod_beta')
qed

text \<open>
  C34: A transaction with an error changes nothing. If one of the commands between MULTI and EXEC has
  the wrong number of arguments, EXEC answers EXECABORT, whatever is queued before or after it; the
  cache, the log, the replication stream and the subscriptions are as before, except for the recorded
  durations, and the connection has left the transaction.
\<close>

theorem failed_transaction_aborts:
  assumes "list_all (\<lambda>ws. words_ok ws \<and> ws \<noteq> [] \<and> hd ws \<notin> {''EXEC'', ''DISCARD''}) wss"
    and "ws \<in> set wss" and "canQueueCommand (hd ws)" and "queue_error (map Str ws) (hd ws) \<noteq> None"
  shows "\<exists>out. handle_loop envs (\<lambda>_ w. w) con 0
      (words_bytes [''MULTI''] @ concat (map words_bytes wss) @ words_bytes [''EXEC'']) fresh_connection w =
    Some (out @ EncodeError ''EXECABORT Transaction discarded because of previous errors.'', fresh_connection,
      timed_turns envs 0 (length wss + 2) w)"
proof -
  have ctl: "words_ok [''MULTI'']" "words_ok [''EXEC'']" by (simp_all add: words_ok_def small_def)
  let ?cs = "fresh_connection\<lparr>inTransaction := True\<rparr>" and ?n = "Suc (length wss)"
  let ?w = "timed_turns envs (Suc 0) (length wss) (timed (envs 0) w)"
  obtain out cs where cs: "handle_loop envs (\<lambda>_ w. w) con (Suc 0) (concat (map words_bytes wss) @ words_bytes [''EXEC'']) ?cs (timed (envs 0) w) =
      do { (out', cs, w) \<leftarrow> handle_loop envs (\<lambda>_ w. w) con (Suc 0 + length wss) (words_bytes [''EXEC'']) cs ?w;
           Some (out @ out', cs, w) }" "\<not> subscriberMode cs" "inTransaction cs" "transactionError cs \<noteq> None"
    using transaction_turns[OF assms(1), of ?cs envs con "Suc 0" "words_bytes [''EXEC'']" "timed (envs 0) w"] assms(2-4)
    by (auto simp: fresh_connection_def)
  have "end_transaction cs = fresh_connection"
    using cs(2) by (simp add: end_transaction_def fresh_connection_def)
  then have "handle_loop envs (\<lambda>_ w. w) con ?n (words_bytes [''EXEC'']) cs ?w =
      Some (EncodeError ''EXECABORT Transaction discarded because of previous errors.'', fresh_connection, timed (envs ?n) ?w)"
    using handle_loop_words[OF ctl(2), of envs "\<lambda>_ w. w" con ?n "[]" cs ?w] control_turns(2)[OF cs(2), of "envs ?n" con ?w] cs(3,4)
    by (simp add: handleExec_def)
  moreover have "timed (envs ?n) ?w = timed_turns envs 0 (length wss + 2) w"
    using timed_turns_Suc[of envs 0 "length wss" w] by (simp add: timed_turns_def)
  ultimately show ?thesis
    using handle_loop_words[OF ctl(1), of envs "\<lambda>_ w. w" con 0 "concat (map words_bytes wss) @ words_bytes [''EXEC'']" fresh_connection w]
      control_turns(1)[of fresh_connection "envs 0" con w] cs(1)
    by (auto simp: fresh_connection_def)
qed

theorem failed_transaction_aborts_witness:
  "\<exists>out. handle_loop (\<lambda>_. sample_env) (\<lambda>_ w. w) 1 0
      (words_bytes [''MULTI''] @ concat (map words_bytes [[''SET'', ''k'', ''v''], [''GET''], [''DEL'', ''k'']]) @ words_bytes [''EXEC''])
      fresh_connection (sample_world (NewNodeState ''leader'' None [])) =
    Some (out @ EncodeError ''EXECABORT Transaction discarded because of previous errors.'', fresh_connection,
      timed_turns (\<lambda>_. sample_env) 0 (length [[''SET'', ''k'', ''v''], [''GET''], [''DEL'', ''k'']] + 2) (sample_world (NewNodeState ''leader'' None [])))"
  by (rule failed_transaction_aborts[where ws = "[''GET'']"])
    (simp_all add: words_ok_def small_def canQueueCommand_def queue_error_def)

text \<open>
  DBSIZE inside a transaction never returns. It is accepted into the queue, but EXEC runs it with
  the cache locked and it asks for the same lock: whatever else is in the queue, EXEC does not return,
  so the lock is never released.
\<close>

lemma dbsize_in_exec_deadlocks:
  assumes "inTransaction cs" and "transactionError cs = None" and "[Str ''DBSIZE''] \<in> set (commandQueue cs)"
  shows "handleExec env cs w = None"
proof -
  have "execute_queue env i cmds c = None" if "mu c" "[Str ''DBSIZE''] \<in> set cmds" for i cmds c
    using that
  proof (induction cmds arbitrary: i c)
    case (Cons cmd cmds)
    show ?case
    proof (cases "cmd = [Str ''DBSIZE'']")
      case True
      with Cons.prems(1) show ?thesis
        by (simp add: execute_command_def arg_def index_def executeDBSizeCommand_def GetAllKeys_def RLock_def)
    next
      case False
      then show ?thesis using Cons by (auto dest: execute_command_mu split: Option.bind_split)
    qed
  qed simp
  then show ?thesis using assms by (auto simp: handleExec_def Lock_def split: Option.bind_split)
qed

lemma dbsize_in_exec_deadlocks_witness:
  "handleExec sample_env (fresh_connection\<lparr>inTransaction := True, commandQueue := [[Str ''PING''], [Str ''DBSIZE'']]\<rparr>)
     (sample_world (NewNodeState ''leader'' None [])) = None"
  by (rule dbsize_in_exec_deadlocks) (simp_all add: fresh_connection_def)

text \<open>
  A follower writes inside a transaction. A single SET on a follower is refused and changes
  nothing, but the same SET between MULTI and EXEC is carried out: the follower's cache then holds the
  value, which its leader never sees.
\<close>

lemma follower_exec_writes:
  assumes "ns_role (w_node w) = ''follower''" and "cache_ready (w_cache w)" and "inTransaction cs"
    and "transactionError cs = None" and "commandQueue cs = [map Str [''SET'', k, v]]" and "ns_leader (w_node w) = None"
  shows "handleSet env (map Str [''SET'', k, v]) w = Some (readonly_error, w) \<and>
    (\<exists>w'. handleExec env cs w = Some (exec_reply [reply_OK], end_transaction cs, w') \<and>
      entries (w_cache w') k = Some (v, 0) \<and> w_node w' = w_node w)"
proof
  show "handleSet env (map Str [''SET'', k, v]) w = Some (readonly_error, w)" using assms(1) by (simp add: handleSet_def)
  obtain c where c: "Set (e_clock env 0) k v 0 (w_cache w) = Some c" "entries c k = Some (v, 0)"
    using Set_never_fails[OF assms(2), of "e_clock env 0" k v 0] by auto
  have mu: "\<not> mu (w_cache w)" using assms(2) by (simp add: cache_ready_def)
  then obtain c1 where "SetInternal (e_clock env 0) k v 0 ((w_cache w)\<lparr>mu := True\<rparr>) = Some c1" "c = Unlock c1"
    using c(1) locked_operations[of "e_clock env 0" k v 0 "w_cache w"] by auto
  with mu c(2) assms show "\<exists>w'. handleExec env cs w = Some (exec_reply [reply_OK], end_transaction cs, w') \<and>
      entries (w_cache w') k = Some (v, 0) \<and> w_node w' = w_node w"
    using append_write_eq[of env 0 "[''SET'', k, v, Itoa 0]"]
    by (auto simp: handleExec_def Lock_def execute_command_def executeSetCommand_def arg_def index_def persist_command_def
        replicate_write_def exec_reply_def)
qed

lemma follower_exec_writes_witness:
  "handleSet sample_env (map Str [''SET'', ''k'', ''v'']) (sample_world (NewNodeState ''follower'' None [])) =
      Some (readonly_error, sample_world (NewNodeState ''follower'' None [])) \<and>
    (\<exists>w'. handleExec sample_env (fresh_connection\<lparr>inTransaction := True, commandQueue := [map Str [''SET'', ''k'', ''v'']]\<rparr>)
        (sample_world (NewNodeState ''follower'' None [])) =
        Some (exec_reply [reply_OK], end_transaction (fresh_connection\<lparr>inTransaction := True, commandQueue := [map Str [''SET'', ''k'', ''v'']]\<rparr>), w') \<and>
      entries (w_cache w') ''k'' = Some (''v'', 0) \<and> w_node w' = w_node (sample_world (NewNodeState ''follower'' None [])))"
  by (rule follower_exec_writes)
    (simp_all add: fresh_connection_def sample_world_def NewNodeState_def cache_ready_New)

end
