(* ===== verification/Server_Progress.thy ===== *)
theory Server_Progress
  imports Transactions
begin

text \<open>
  The server makes progress: on a connection that sends commands, the handler answers every one of
  them and returns when the connection ends, and it keeps the cache, the subscriptions and the queue
  of the transaction well formed, whatever other connections do in between.
\<close>

section \<open>The invariant of a node\<close>

definition world_ok :: "'s world \<Rightarrow> bool" where
  "world_ok w \<longleftrightarrow> cache_ready (w_cache w) \<and> ps_ok (w_ps w)"

text \<open>A queued command has passed the checks; the size of the database is not among them.\<close>

definition queued_ok :: "iface list \<Rightarrow> bool" where
  "queued_ok cmd \<longleftrightarrow> (\<exists>ws. cmd = map Str ws \<and> ws \<noteq> [] \<and> hd ws \<noteq> ''DBSIZE'' \<and> queue_error cmd (hd ws) = None)"

definition conn_ok :: "ConnectionState \<Rightarrow> bool" where
  "conn_ok cs \<longleftrightarrow> list_all queued_ok (commandQueue cs)"

definition locked_ok :: "Cache \<Rightarrow> bool" where
  "locked_ok c \<longleftrightarrow> mu c \<and> cache_ready (Unlock c)"

section \<open>Computations that return\<close>

definition returns :: "'a option \<Rightarrow> ('a \<Rightarrow> bool) \<Rightarrow> bool" where
  "returns m P \<longleftrightarrow> (\<exists>x. m = Some x \<and> P x)"

lemma returns_simps [simp]:
  "returns (Some x) P \<longleftrightarrow> P x" "\<not> returns None P"
  by (simp_all add: returns_def)

lemma returns_bind [simp]: "returns (m \<bind> f) P \<longleftrightarrow> returns m (\<lambda>x. returns (f x) P)"
  by (cases m) simp_all

lemma returns_mono: "returns m Q \<Longrightarrow> (\<And>x. Q x \<Longrightarrow> P x) \<Longrightarrow> returns m P"
  by (auto simp: returns_def)

named_theorems total

section \<open>Commands of a transaction\<close>

lemma internal_total [total]:
  assumes "locked_ok c"
  shows "(\<And>c'. locked_ok c' \<Longrightarrow> P c') \<Longrightarrow> returns (SetInternal now k v ttl c) P"
    "(\<And>r c'. locked_ok c' \<Longrightarrow> Q (r, c')) \<Longrightarrow> returns (GetInternal now k c) Q"
    "(\<And>c'. locked_ok c' \<Longrightarrow> P c') \<Longrightarrow> returns (DeleteInternal k c) P"
proof -
  have c: "mu c" "cache_ready (Unlock c)" using assms by (simp_all add: locked_ok_def)
  show "returns (SetInternal now k v ttl c) P" if "\<And>c'. locked_ok c' \<Longrightarrow> P c'"
    using Set_never_fails[OF c(2), of now k v ttl] c(1)
    by (auto simp: locked_ok_def unlocked_operations internal_mu(1)[where c = c] intro!: that)
  show "returns (GetInternal now k c) Q" if "\<And>r c'. locked_ok c' \<Longrightarrow> Q (r, c')"
    using Get_ready[OF c(2), of now k] c(1)
    by (auto simp: locked_ok_def unlocked_operations internal_mu(2)[where c = c] intro!: that)
  show "returns (DeleteInternal k c) P" if "\<And>c'. locked_ok c' \<Longrightarrow> P c'"
    using Delete_ready[OF c(2), of k] c(1)
    by (auto simp: locked_ok_def unlocked_operations internal_mu(3)[where c = c] intro!: that)
qed

lemma returns_case_option [simp]:
  "returns (case x of None \<Rightarrow> m | Some y \<Rightarrow> f y) P \<longleftrightarrow> (case x of None \<Rightarrow> returns m P | Some y \<Rightarrow> returns (f y) P)"
  by (cases x) simp_all

lemma returns_case_sum [simp]:
  "returns (case x of Inl y \<Rightarrow> g y | Inr y \<Rightarrow> f y) P \<longleftrightarrow> (case x of Inl y \<Rightarrow> returns (g y) P | Inr y \<Rightarrow> returns (f y) P)"
  by (cases x) simp_all

lemma returns_if [simp]: "returns (if b then x else y) P \<longleftrightarrow> (if b then returns x P else returns y P)"
  by simp

lemma returns_prod [simp]: "returns (case x of (a, b) \<Rightarrow> f a b) P \<longleftrightarrow> (case x of (a, b) \<Rightarrow> returns (f a b) P)"
  by (cases x) simp

lemma returns_index [simp]: "returns (index xs i) P \<longleftrightarrow> i < length xs \<and> P (xs ! i)"
  by (auto simp: index_def)

lemma execute_command_total [total]:
  assumes "locked_ok c" and "queued_ok cmd"
  shows "(\<And>r c'. locked_ok c' \<Longrightarrow> P (r, c')) \<Longrightarrow> returns (execute_command env i cmd c) P"
proof -
  assume P: "\<And>r c'. locked_ok c' \<Longrightarrow> P (r, c')"
  obtain ws where ws: "cmd = map Str ws" "ws \<noteq> []" "hd ws \<noteq> ''DBSIZE''" using assms(2) by (auto simp: queued_ok_def)
  then have hd: "ws ! 0 = hd ws" by (simp add: hd_conv_nth)
  have "returns (executeSetCommand now (map Str ws) c) P" for now
    using P assms(1) by (auto simp: executeSetCommand_def intro!: total split: option.split sum.split)
  moreover have "returns (executeGetCommand now (map Str ws) c) P" for now
    using P assms(1) by (auto simp: executeGetCommand_def intro!: total split: option.split)
  moreover have "returns (executeDeleteCommand (map Str ws) c) P"
    using P assms(1) by (auto simp: executeDeleteCommand_def intro!: total)
  ultimately show ?thesis using P assms(1) ws(2,3) by (simp add: ws(1) hd execute_command_def)
qed

lemma execute_queue_total [total]:
  assumes "locked_ok c" and "list_all queued_ok cmds"
  shows "(\<And>r c'. locked_ok c' \<Longrightarrow> P (r, c')) \<Longrightarrow> returns (execute_queue env i cmds c) P"
  using assms
proof (induction cmds arbitrary: i c P)
  case (Cons cmd cmds)
  then show ?case by (auto intro!: execute_command_total[OF Cons.prems(2)] Cons.IH)
qed simp

section \<open>The write path\<close>

lemma write_path_total [total]:
  assumes "world_ok w"
  shows "operation = OpSet \<or> operation = OpDelete \<Longrightarrow> (\<And>w'. world_ok w' \<Longrightarrow> w_cache w' = w_cache w \<Longrightarrow> P w') \<Longrightarrow>
      returns (replicate_write env i operation k v ttl w) P"
    and "(\<And>w'. world_ok w' \<Longrightarrow> w_cache w' = w_cache w \<Longrightarrow> P w') \<Longrightarrow> returns (append_write env i (map Str ws) w) P"
  using assms by (auto simp: replicate_write_eq append_write_eq world_ok_def)

lemmas append_total = write_path_total(2)[where ws = "[a, b]" for a b, simplified] write_path_total(2)[where ws = "[a, b, c, d]" for a b c d, simplified]

section \<open>Single commands\<close>

lemma cache_ready_unlocked: "cache_ready c \<Longrightarrow> \<not> mu c"
  by (simp add: cache_ready_def)

lemma cache_total [total]:
  assumes "cache_ready c"
  shows "(\<And>c'. cache_ready c' \<Longrightarrow> P c') \<Longrightarrow> returns (Set now k v ttl c) P"
    "(\<And>r c'. cache_ready c' \<Longrightarrow> Q (r, c')) \<Longrightarrow> returns (Get now k c) Q"
    "(\<And>c'. cache_ready c' \<Longrightarrow> P c') \<Longrightarrow> returns (Delete k c) P"
    "(\<And>ks. R ks) \<Longrightarrow> returns (GetAllKeys ord c) R"
  using Set_never_fails[OF assms, of now k v ttl] Get_ready[OF assms, of now k] Delete_ready[OF assms, of k] cache_ready_unlocked[OF assms]
  by (auto simp: GetAllKeys_def RLock_def)

lemma world_ok_cache [simp]: "world_ok (w\<lparr>w_cache := c\<rparr>) \<longleftrightarrow> cache_ready c \<and> ps_ok (w_ps w)"
  by (simp add: world_ok_def)

lemma world_okD: "world_ok w \<Longrightarrow> cache_ready (w_cache w)" "world_ok w \<Longrightarrow> ps_ok (w_ps w)"
  by (simp_all add: world_ok_def)

lemma single_total [total]:
  assumes "world_ok w"
  shows "(\<And>out w'. world_ok w' \<Longrightarrow> P (out, w')) \<Longrightarrow> returns (handleSet env (map Str ws) w) P"
    "(\<And>out w'. world_ok w' \<Longrightarrow> P (out, w')) \<Longrightarrow> returns (handleGet env (map Str ws) w) P"
    "(\<And>out w'. world_ok w' \<Longrightarrow> P (out, w')) \<Longrightarrow> returns (handleDelete env (map Str ws) w) P"
    "(\<And>out w'. world_ok w' \<Longrightarrow> P (out, w')) \<Longrightarrow> returns (handleDBSize env w) P"
  using assms world_okD[OF assms]
  by (auto simp: handleSet_def handleGet_def handleDelete_def handleDBSize_def Let_def intro!: total append_total split: option.split sum.split)

lemma persist_queue_total [total]:
  assumes "list_all queued_ok cmds" and "ps_ok (w_ps w)"
  shows "(\<And>w'. w_cache w' = w_cache w \<Longrightarrow> w_ps w' = w_ps w \<Longrightarrow> P w') \<Longrightarrow> returns (persist_queue env i cmds w) P"
  using assms
proof (induction cmds arbitrary: i w P)
  case (Cons cmd cmds)
  obtain ws where ws: "cmd = map Str ws" "ws \<noteq> []" "queue_error (map Str ws) (hd ws) = None"
    using Cons.prems(2) by (auto simp: queued_ok_def)
  then have hd: "ws ! 0 = hd ws" by (simp add: hd_conv_nth)
  have len: "hd ws = ''SET'' \<Longrightarrow> 3 \<le> length ws \<and> length ws \<le> 5" "hd ws = ''DEL'' \<Longrightarrow> length ws = 2"
    using ws(3) by (auto simp: queue_error_def Let_def split: if_splits)
  have "returns (persist_command env i cmd w) (\<lambda>w'. w_cache w' = w_cache w \<and> w_ps w' = w_ps w)"
    using len ws(2) append_write_eq[of env i "[a, b, c, d]" for a b c d] append_write_eq[of env i "[a, b]" for a b]
    by (auto simp: ws(1) hd persist_command_def replicate_write_eq split: option.split)
  then show ?case using Cons.IH Cons.prems by (auto elim!: returns_mono)
qed simp

lemma conn_ok_end [simp]: "conn_ok (end_transaction cs)" "\<not> inTransaction (end_transaction cs)"
  by (simp_all add: conn_ok_def end_transaction_def)

lemma handleExec_total [total]:
  assumes "world_ok w" and "conn_ok cs"
    and P: "\<And>out cs' w'. world_ok w' \<Longrightarrow> conn_ok cs' \<Longrightarrow> inTransaction cs' \<longrightarrow> inTransaction cs \<Longrightarrow> P (out, cs', w')"
  shows "returns (handleExec env cs w) P"
proof (cases "inTransaction cs \<and> transactionError cs = None")
  case True
  note w = world_okD[OF assms(1)]
  have "Unlock ((w_cache w)\<lparr>mu := True\<rparr>) = w_cache w" using cache_ready_unlocked[OF w(1)] by (simp add: Unlock_def)
  then have "locked_ok ((w_cache w)\<lparr>mu := True\<rparr>)" using w(1) by (simp add: locked_ok_def)
  then show ?thesis using True assms(2) w cache_ready_unlocked[OF w(1)] unfolding conn_ok_def
    by (auto simp: handleExec_def Lock_def locked_ok_def intro!: execute_queue_total persist_queue_total P)
qed (use assms in \<open>auto simp: handleExec_def\<close>)

section \<open>Publish and subscribe\<close>

lemma pubsub_total [total]:
  assumes "ps_ok ps"
  shows "(\<And>ps'. ps_ok ps' \<Longrightarrow> P ps') \<Longrightarrow> returns (Subscribe con ch ps) P"
    "(\<And>err ps'. ps_ok ps' \<Longrightarrow> Q (err, ps')) \<Longrightarrow> returns (Unsubscribe con ch ps) Q"
    "(\<And>n ps'. ps_ok ps' \<Longrightarrow> R (n, ps')) \<Longrightarrow> (\<And>m. gget (subscribers ps) ch = Some m \<Longrightarrow> is_range ord m) \<Longrightarrow> returns (Publish ord ch msg ps) R"
proof -
  show "returns (Subscribe con ch ps) P" if "\<And>ps'. ps_ok ps' \<Longrightarrow> P ps'"
    by (rule Subscribe_ok[OF assms, of con ch]) (simp add: that)
  show "returns (Unsubscribe con ch ps) Q" if "\<And>err ps'. ps_ok ps' \<Longrightarrow> Q (err, ps')"
    by (rule Unsubscribe_ok[OF assms, of con ch]) (simp add: that)
  show "returns (Publish ord ch msg ps) R" if R: "\<And>n ps'. ps_ok ps' \<Longrightarrow> R (n, ps')" and ord: "\<And>m. gget (subscribers ps) ch = Some m \<Longrightarrow> is_range ord m"
  proof -
    obtain n ps' where p: "Publish ord ch msg ps = Some (n, ps')" using Publish_ok[OF assms ord] by (auto simp: Let_def)
    then have "ps_step ps ps'" using ord by (intro ps_step.publish) auto
    then show ?thesis using ps_step_ok[OF _ assms] R p by auto
  qed
qed

lemma confirmations_total [simp]:
  "returns (EncodeSubscribeConfirmation ch n) P \<longleftrightarrow> P (the (EncodeSubscribeConfirmation ch n))"
  "returns (EncodeUnsubscribeConfirmation ch n) P \<longleftrightarrow> P (the (EncodeUnsubscribeConfirmation ch n))"
  by (simp_all add: EncodeSubscribeConfirmation_def EncodeUnsubscribeConfirmation_def EncodeArray_def)

lemma subscribe_total [total]:
  assumes "ps_ok ps"
  shows "(\<And>all out ps'. ps_ok ps' \<Longrightarrow> P (all, out, ps')) \<Longrightarrow> returns (subscribe_loop env con vs ps) P"
  using assms
proof (induction vs arbitrary: ps P)
  case (Cons v vs)
  then show ?case by (auto simp: Let_def intro!: pubsub_total Cons.IH split: option.split)
qed simp

lemma unsubscribe_one_total [total]:
  assumes "ps_ok (snd x)"
  shows "(\<And>out ps'. ps_ok ps' \<Longrightarrow> P (out, ps')) \<Longrightarrow> returns (unsubscribe_one env con ch x) P"
  using assms by (auto simp: unsubscribe_one_def Let_def case_prod_beta' intro!: pubsub_total)

lemma unsubscribe_total [total]:
  assumes "ps_ok ps"
  shows "(\<And>all out ps'. ps_ok ps' \<Longrightarrow> P (all, out, ps')) \<Longrightarrow> returns (unsubscribe_loop env con vs (out, ps)) P"
    "(\<And>out ps'. ps_ok ps' \<Longrightarrow> Q (out, ps')) \<Longrightarrow> returns (foreach (unsubscribe_one env con) chs (out, ps)) Q"
proof -
  show "returns (unsubscribe_loop env con vs (out, ps)) P" if "\<And>all out ps'. ps_ok ps' \<Longrightarrow> P (all, out, ps')"
    using assms that
  proof (induction vs arbitrary: out ps P)
    case (Cons v vs)
    then show ?case by (auto intro!: unsubscribe_one_total Cons.IH split: option.split)
  qed simp
  show "returns (foreach (unsubscribe_one env con) chs (out, ps)) Q" if "\<And>out ps'. ps_ok ps' \<Longrightarrow> Q (out, ps')"
    using assms that
  proof (induction chs arbitrary: out ps Q)
    case (Cons ch chs)
    then show ?case by (auto intro!: unsubscribe_one_total Cons.IH)
  qed simp
qed

section \<open>A turn\<close>

lemma conn_ok_mode [simp]: "conn_ok (cs\<lparr>subscriberMode := b\<rparr>) = conn_ok cs"
  by (simp add: conn_ok_def)

lemma pubsub_handlers_total [total]:
  assumes "ps_ok ps" and "conn_ok cs"
  shows "(\<And>out ps' cs'. ps_ok ps' \<Longrightarrow> conn_ok cs' \<Longrightarrow> inTransaction cs' = inTransaction cs \<Longrightarrow> P (out, ps', cs')) \<Longrightarrow>
      returns (handleSubscribe env con cmd ps cs) P"
    "(\<And>out ps' cs'. ps_ok ps' \<Longrightarrow> conn_ok cs' \<Longrightarrow> inTransaction cs' = inTransaction cs \<Longrightarrow> P (out, ps', cs')) \<Longrightarrow>
      returns (handleUnsubscribe env con cmd ps cs) P"
    "ranges (e_subs env) \<Longrightarrow> (\<And>out ps'. ps_ok ps' \<Longrightarrow> Q (out, ps')) \<Longrightarrow> returns (handlePublish env cmd ps) Q"
proof -
  show "returns (handleSubscribe env con cmd ps cs) P"
    if "\<And>out ps' cs'. ps_ok ps' \<Longrightarrow> conn_ok cs' \<Longrightarrow> inTransaction cs' = inTransaction cs \<Longrightarrow> P (out, ps', cs')"
    using assms by (auto simp: handleSubscribe_def intro!: total that split: if_splits)
  show "returns (handleUnsubscribe env con cmd ps cs) P"
    if "\<And>out ps' cs'. ps_ok ps' \<Longrightarrow> conn_ok cs' \<Longrightarrow> inTransaction cs' = inTransaction cs \<Longrightarrow> P (out, ps', cs')"
    using assms by (auto simp: handleUnsubscribe_def Let_def intro!: total that split: if_splits)
  show "returns (handlePublish env cmd ps) Q" if "ranges (e_subs env)" "\<And>out ps'. ps_ok ps' \<Longrightarrow> Q (out, ps')"
    using assms(1) that(1) ps_okD(1)[OF assms(1)]
    by (auto simp: handlePublish_def Let_def ranges_def channels_ok_def intro!: total that(2) split: option.split)
qed

lemma run_command_total [total]:
  assumes "world_ok w" and "conn_ok cs" and "name \<noteq> ''CLUSTER''"
    and P: "\<And>out cs' w'. world_ok w' \<Longrightarrow> conn_ok cs' \<Longrightarrow> inTransaction cs' \<longrightarrow> inTransaction cs \<or> name = ''MULTI'' \<Longrightarrow> P (out, cs', w')"
  shows "returns (run_command env (Str name) (map Str ws) cs w) P"
proof -
  have Q: "\<And>out w'. world_ok w' \<Longrightarrow> P (out, cs, w')" using assms(2) P by simp
  have "returns (do { (out, w) \<leftarrow> handleSet env (map Str ws) w; Some (out, cs, w) }) P"
    "returns (do { (out, w) \<leftarrow> handleGet env (map Str ws) w; Some (out, cs, w) }) P"
    "returns (do { (out, w) \<leftarrow> handleDelete env (map Str ws) w; Some (out, cs, w) }) P"
    "returns (do { (out, w) \<leftarrow> handleDBSize env w; Some (out, cs, w) }) P"
    unfolding returns_bind by (rule single_total[OF assms(1)]; simp add: Q)+
  moreover have "returns (handleExec env cs w) P"
    using handleExec_total[OF assms(1,2)] P by blast
  moreover have "P (fst (handleMulti cs), snd (handleMulti cs), w)" if "name = ''MULTI''"
    using assms(1,2) that by (intro P) (auto simp: handleMulti_def conn_ok_def)
  moreover have "P (fst (handleDiscard cs), snd (handleDiscard cs), w)"
    using assms(1,2) by (intro P) (auto simp: handleDiscard_def)
  ultimately show ?thesis using assms(1,3) Q
    by (simp add: run_command_def case_prod_beta' Let_def del: returns_bind)
qed

lemma dispatch_total [total]:
  assumes "world_ok w" and "conn_ok cs" and "name \<noteq> ''CLUSTER''" and "ranges (e_subs env)" and "ws \<noteq> []"
    and P: "\<And>out cs' w'. world_ok w' \<Longrightarrow> conn_ok cs' \<Longrightarrow> inTransaction cs' \<longrightarrow> inTransaction cs \<or> name = ''MULTI'' \<Longrightarrow> P (out, cs', w')"
  shows "returns (dispatch env con (Str name) (map Str ws) cs w) P"
proof -
  note run = run_command_total[where P = P, OF assms(1-3) P, of env ws]
  have Q: "\<And>out ps cs'. ps_ok ps \<Longrightarrow> conn_ok cs' \<Longrightarrow> inTransaction cs' = inTransaction cs \<Longrightarrow> P (out, cs', w\<lparr>w_ps := ps\<rparr>)"
    using assms(1) by (intro P) (auto simp: world_ok_def)
  note ps = pubsub_handlers_total[OF world_okD(2)[OF assms(1)] assms(2)]
  have "returns (do { (out, ps, cs) \<leftarrow> handleSubscribe env con (map Str ws) (w_ps w) cs; Some (out, cs, w\<lparr>w_ps := ps\<rparr>) }) P"
    "returns (do { (out, ps, cs) \<leftarrow> handleUnsubscribe env con (map Str ws) (w_ps w) cs; Some (out, cs, w\<lparr>w_ps := ps\<rparr>) }) P"
    unfolding returns_bind by (rule ps; simp add: Q)+
  moreover have "returns (do { (out, ps) \<leftarrow> handlePublish env (map Str ws) (w_ps w); Some (out, cs, w\<lparr>w_ps := ps\<rparr>) }) P"
    unfolding returns_bind by (rule ps(3)[OF assms(4)]) (simp add: Q assms(2))
  moreover have "returns (route_command env (Str name) (map Str ws) cs w) P"
    using run P[OF assms(1,2)] by (auto simp: route_command_def Let_def split: prod.split)
  ultimately show ?thesis using assms(3) by (simp add: dispatch_def del: returns_bind)
qed

lemma queue_total:
  assumes "conn_ok cs" and "ws \<noteq> []" and "hd ws \<noteq> ''DBSIZE''"
    and P: "\<And>out cs'. conn_ok cs' \<Longrightarrow> inTransaction cs' = inTransaction cs \<Longrightarrow> P (out, cs')"
  shows "returns (queueCommandForTransaction (map Str ws) cs) P"
proof -
  have "ws ! 0 = hd ws" using assms(2) by (simp add: hd_conv_nth)
  moreover have "conn_ok (cs\<lparr>commandQueue := commandQueue cs @ [map Str ws]\<rparr>)" if "queue_error (map Str ws) (hd ws) = None"
    using assms(1-3) that by (auto simp: conn_ok_def queued_ok_def)
  moreover have "conn_ok (cs\<lparr>transactionError := e\<rparr>)" for e using assms(1) by (simp add: conn_ok_def)
  ultimately show ?thesis using assms(1,2) P
    by (auto simp: queueCommandForTransaction_def split: option.split)
qed

lemma world_ok_timed [simp]: "world_ok (timed env w) = world_ok w"
  by (simp add: world_ok_def timed_def)

lemma handle_turn_total:
  assumes "world_ok w" and "conn_ok cs" and "ws \<noteq> []" and "hd ws \<noteq> ''CLUSTER''" and "inTransaction cs \<longrightarrow> hd ws \<noteq> ''DBSIZE''"
    and "ranges (e_subs env)"
  shows "returns (handle_turn env con (Slice (map Str ws)) cs w) (\<lambda>(go, out, cs', w').
    go \<and> world_ok w' \<and> conn_ok cs' \<and> (inTransaction cs' \<longrightarrow> inTransaction cs \<or> hd ws = ''MULTI''))"
proof -
  let ?P = "\<lambda>(out, cs', w'). world_ok w' \<and> conn_ok cs' \<and> (inTransaction cs' \<longrightarrow> inTransaction cs \<or> hd ws = ''MULTI'')"
  have hd: "ws ! 0 = hd ws" using assms(3) by (simp add: hd_conv_nth)
  have d: "returns (dispatch env con (Str (hd ws)) (map Str ws) cs w) ?P"
    by (rule dispatch_total[OF assms(1,2,4,6,3)]) simp
  have q: "returns (do { (out, cs) \<leftarrow> queueCommandForTransaction (map Str ws) cs; Some (out, cs, w) }) ?P" if "inTransaction cs"
    unfolding returns_bind by (rule queue_total[OF assms(2,3)]) (use assms that in auto)
  define rejected queueing where "rejected = (subscriberMode cs \<and> (\<forall>c \<in> set allowedCommands. Str (hd ws) \<noteq> Str c))"
    and "queueing = (inTransaction cs \<and> \<not> (hd ws = ''EXEC'' \<or> hd ws = ''DISCARD''))"
  consider "rejected" | "\<not> rejected" "queueing" "canQueueCommand (hd ws)" | "\<not> rejected" "queueing" "\<not> canQueueCommand (hd ws)"
    | "\<not> rejected" "\<not> queueing" by blast
  then show ?thesis
  proof cases
    case 2
    with q assms(3) show ?thesis
      by (auto simp: handle_turn_def hd rejected_def queueing_def simp del: set_simps elim!: returns_mono)
  next
    case 4
    have "\<not> inTransaction cs \<or> inTransaction cs \<and> (hd ws = ''EXEC'' \<or> hd ws = ''DISCARD'')" using 4(2) by (auto simp: queueing_def)
    then have "handle_turn env con (Slice (map Str ws)) cs w =
        dispatch env con (Str (hd ws)) (map Str ws) cs w \<bind> (\<lambda>(out, cs, w). Some (True, out, cs, timed env w))"
      using 4(1) assms(3) unfolding rejected_def by (elim disjE) (simp_all add: handle_turn_def index_def hd, blast+)
    with d show ?thesis by (auto elim!: returns_mono)
  qed (use assms(1-3) in \<open>auto simp: handle_turn_def hd rejected_def queueing_def\<close>)
qed

section \<open>A connection\<close>

lemma handle_loop_total:
  assumes "world_ok w" and "conn_ok cs" and "\<forall>i w. world_ok w \<longrightarrow> world_ok (others i w)" and "\<forall>i. ranges (e_subs (envs i))"
    and "Parse rest = Some (Inl err, k)" and "list_all (\<lambda>ws. words_ok ws \<and> ws \<noteq> [] \<and> hd ws \<noteq> ''CLUSTER'') wss"
    and "inTransaction cs \<or> (\<exists>ws \<in> set wss. hd ws = ''MULTI'') \<Longrightarrow> \<forall>ws \<in> set wss. hd ws \<noteq> ''DBSIZE''"
  shows "returns (handle_loop envs others con i (concat (map words_bytes wss) @ rest) cs w) (\<lambda>(out, cs', w'). world_ok w')"
  using assms(1,2,6,7)
proof (induction wss arbitrary: i cs w)
  case Nil
  then show ?case using assms(5) by (simp add: handle_loop.simps)
next
  case (Cons ws wss)
  have ws: "words_ok ws" "ws \<noteq> []" "hd ws \<noteq> ''CLUSTER''" using Cons.prems(3) by simp_all
  have w: "world_ok (others i w)" using Cons.prems(1) assms(3) by simp
  have tx: "inTransaction cs \<longrightarrow> hd ws \<noteq> ''DBSIZE''" using Cons.prems(4) by auto
  have "returns (handle_turn (envs i) con (Slice (map Str ws)) cs (others i w)) (\<lambda>(go, out, cs', w').
      go \<and> returns (handle_loop envs others con (Suc i) (concat (map words_bytes wss) @ rest) cs' w') (\<lambda>(out, cs', w'). world_ok w'))"
    by (rule returns_mono[OF handle_turn_total[OF w Cons.prems(2) ws(2,3) tx]])
      (use assms(4) Cons.prems(3,4) in \<open>auto intro!: Cons.IH\<close>)
  then show ?case using handle_loop_words[OF ws(1), of envs others con i "concat (map words_bytes wss) @ rest" cs w]
    by (auto elim!: returns_mono)
qed



end
