(* ===== verification/Cluster_Laws.thy ===== *)
theory Cluster_Laws
  imports Server_Progress
begin

text \<open>
  Nodes of a cluster together: a node that is reached through the network runs the request handler,
  so it keeps the contract that the migration of keys relies on. A migration then never loses a
  key; what it does to lifetimes, and what happens to requests for the moved keys, is shown too.
\<close>

section \<open>A node behind the network\<close>

text \<open>
  A node that serves a connection of the migrating node: the number of the turn, the state of the
  connection and the state of the node. A dial opens a new connection; bytes that are written go
  through the handler, and what it writes is the answer.
\<close>

type_synonym served = "nat \<times> ConnectionState \<times> unit world"

definition served_by :: "(nat \<Rightarrow> unit env) \<Rightarrow> conn \<Rightarrow> served network" where
  "served_by envs con =
     \<lparr>net_dial = \<lambda>addr (i, cs, w). (None, i, fresh_connection, w),
      net_talk = \<lambda>addr bytes (i, cs, w).
        (case handle_loop (\<lambda>_. envs i) (\<lambda>_ w. w) con 0 bytes cs w of
           None \<Rightarrow> (Some (Err ''connection reset''), [], i, cs, w)
         | Some (out, cs, w) \<Rightarrow> (None, out, Suc i, cs, w))\<rparr>"

definition stored :: "served \<Rightarrow> string \<Rightarrow> string option" where
  "stored = (\<lambda>(i, cs, w) k. map_option fst (entries (w_cache w) k))"

definition serving :: "(nat \<Rightarrow> unit env) \<Rightarrow> string set \<Rightarrow> served \<Rightarrow> bool" where
  "serving envs K = (\<lambda>(i, cs, w). cache_ready (w_cache w) \<and> plain cs \<and> (\<forall>i. serves (envs i) (w_node w)) \<and>
     finite K \<and> dom (entries (w_cache w)) \<subseteq> K \<and> card K \<le> cache_room (w_cache w) \<and>
     (\<forall>k v t. entries (w_cache w) k = Some (v, t) \<longrightarrow> small v))"

lemma command_turn:
  assumes "plain cs" and "serves env (w_node w)" and "words_ok ws" and "hd ws \<in> {''SET'', ''GET'', ''DEL''}" and "length ws \<ge> 2"
    and "run_command env (Str (hd ws)) (map Str ws) cs w = Some (out, cs', w')"
  shows "handle_loop (\<lambda>_. env) (\<lambda>_ w. w) con i (words_bytes ws) cs w = Some (out, cs', timed env w')"
proof -
  have ws: "index (map Str ws) 0 = Some (Str (hd ws))" using assms(5) by (cases ws) (auto simp: index_def)
  have "route_command env (Str (hd ws)) (map Str ws) cs w = Some (out, cs', w')"
    using assms(2,5,6) by (simp add: route_command_def serves_def case_prod_beta' index_def Let_def)
  then have "dispatch env con (Str (hd ws)) (map Str ws) cs w = Some (out, cs', w')"
    using assms(4) by (auto simp: dispatch_def)
  then have "handle_turn env con (Slice (map Str ws)) cs w = Some (True, out, cs', timed env w')"
    using ws assms(1) by (simp add: handle_turn_def plain_def)
  then show ?thesis using handle_loop_words[OF assms(3), of "\<lambda>_. env" "\<lambda>_ w. w" con i "[]" cs w] by simp
qed

lemma Parse_reply_OK: "Parse reply_OK = Some (Inr (Str ''OK''), length reply_OK)"
  by code_simp

lemma Parse_nil_reply: "Parse (EncodeBulkString [] True) = Some (Inr (Str []), length (EncodeBulkString [] True))"
  by code_simp

lemma serves_replicated [simp]: "serves env (replicated_node ok x ns) = serves env ns"
  by (simp add: serves_def)

lemma served_set:
  assumes "serving envs K (i, cs, w)" and "k \<in> K" and "small k" and "small v"
  shows "\<exists>w'. handle_loop (\<lambda>_. envs i) (\<lambda>_ w. w) con 0 (words_bytes [''SET'', k, v]) cs w = Some (reply_OK, cs, w') \<and>
    serving envs K (Suc i, cs, w') \<and> stored (Suc i, cs, w') = (stored (i, cs, w))(k \<mapsto> v)"
proof -
  let ?env = "envs i"
  note s = assms(1)[unfolded serving_def prod.case]
  obtain c where c: "Set (e_clock ?env 0) k v 0 (w_cache w) = Some c" "cache_ready c"
    "entries c = (entries (w_cache w))(k \<mapsto> (v, 0))" "maxSize c = maxSize (w_cache w)"
    using Set_ready[of "w_cache w" K k "e_clock ?env 0" v 0] s assms(2) by auto
  let ?w = "w\<lparr>w_cache := c, w_node := replicated_node (e_ok ?env 0) (OpSet, k, v, 0) (w_node w),
    w_aof := snd (Append (e_io ?env 0) (e_short ?env 0) (words_bytes [''SET'', k, v, Itoa 0]) (w_aof w))\<rparr>"
  have "run_command ?env (Str ''SET'') (map Str [''SET'', k, v]) cs w = Some (reply_OK, cs, ?w)"
    using s c(1) append_write_eq[of ?env 0 "[''SET'', k, v, Itoa 0]"]
    by (simp add: run_command_def handleSet_def arg_def index_def replicate_write_eq serves_def)
  then have "handle_loop (\<lambda>_. ?env) (\<lambda>_ w. w) con 0 (words_bytes [''SET'', k, v]) cs w = Some (reply_OK, cs, timed ?env ?w)"
    using s assms(3,4) by (intro command_turn) (auto simp: words_ok_def small_def)
  moreover have "serving envs K (Suc i, cs, timed ?env ?w)"
    using s c assms(2,4) by (auto simp: serving_def timed_def cache_room_def)
  moreover have "stored (Suc i, cs, timed ?env ?w) = (stored (i, cs, w))(k \<mapsto> v)"
    using c(3) by (auto simp: stored_def timed_def)
  ultimately show ?thesis by blast
qed

lemma served_get:
  assumes "serving envs K (i, cs, w)" and "small k"
  shows "\<exists>w' reply r. handle_loop (\<lambda>_. envs i) (\<lambda>_ w. w) con 0 (words_bytes [''GET'', k]) cs w = Some (reply, cs, w') \<and>
    serving envs K (Suc i, cs, w') \<and> stored (Suc i, cs, w') = stored (i, cs, w) \<and> Parse reply = Some (Inr r, length reply)"
proof -
  let ?env = "envs i"
  note s = assms(1)[unfolded serving_def prod.case]
  let ?x = "case entries (w_cache w) k of None \<Rightarrow> None | Some (v, t) \<Rightarrow> if expired (e_clock ?env 0) t then None else Some v"
  obtain c where c: "Get (e_clock ?env 0) k (w_cache w) = Some (?x, c)" "cache_ready c"
    "entries c = entries (w_cache w)" "maxSize c = maxSize (w_cache w)"
    using Get_ready[of "w_cache w" "e_clock ?env 0" k] s by auto
  let ?reply = "case ?x of None \<Rightarrow> EncodeBulkString [] True | Some v \<Rightarrow> EncodeBulkString v False"
  have "run_command ?env (Str ''GET'') (map Str [''GET'', k]) cs w = Some (?reply, cs, w\<lparr>w_cache := c\<rparr>)"
    using c(1) by (simp add: run_command_def handleGet_def arg_def index_def)
  then have "handle_loop (\<lambda>_. ?env) (\<lambda>_ w. w) con 0 (words_bytes [''GET'', k]) cs w = Some (?reply, cs, timed ?env (w\<lparr>w_cache := c\<rparr>))"
    using s assms(2) by (intro command_turn) (auto simp: words_ok_def small_def)
  moreover have "serving envs K (Suc i, cs, timed ?env (w\<lparr>w_cache := c\<rparr>))"
    using s c by (auto simp: serving_def timed_def cache_room_def)
  moreover have "stored (Suc i, cs, timed ?env (w\<lparr>w_cache := c\<rparr>)) = stored (i, cs, w)"
    using c(3) by (auto simp: stored_def timed_def)
  moreover have "\<exists>r. Parse ?reply = Some (Inr r, length ?reply)"
  proof (cases ?x)
    case (Some v)
    then obtain t where "entries (w_cache w) k = Some (v, t)" by (auto split: option.splits if_splits)
    then have "small v" using s by blast
    with Some reply_round_trip(4)[of "[]" 0 v "[]"] show ?thesis by (simp add: small_def in_i64_def)
  qed (simp add: Parse_nil_reply)
  ultimately show ?thesis by blast
qed

interpretation peer: key_node "served_by envs con" addr stored "serving envs"
proof
  fix K s err s'
  assume "serving envs K s" and "net_dial (served_by envs con) addr s = (err, s')"
  then show "serving envs K s' \<and> stored s' = stored s"
    by (cases s) (auto simp: served_by_def serving_def stored_def plain_def fresh_connection_def)
next
  fix K s k v cmd err reply s'
  assume s: "serving envs K s" and k: "k \<in> K" "small k" "small v" and cmd: "EncodeArray [Str ''SET'', Str k, Str v] = Some cmd"
    and t: "net_talk (served_by envs con) addr cmd s = (err, reply, s')"
  have "cmd = words_bytes [''SET'', k, v]" using cmd by (simp add: words_bytes_def)
  with s k t show "serving envs K s' \<and> (stored s' = stored s \<or> stored s' = (stored s)(k \<mapsto> v)) \<and>
      (reply = [] \<or> err = None \<and> (\<exists>r. Parse reply = Some (Inr r, length reply) \<and>
        (isOKResponse r \<longrightarrow> stored s' = (stored s)(k \<mapsto> v))))"
    by (cases s) (use served_set[of envs K "fst s" "fst (snd s)" "snd (snd s)" k v con] Parse_reply_OK in \<open>auto simp: served_by_def\<close>)
next
  fix K s k cmd err reply s'
  assume s: "serving envs K s" and k: "small k" and cmd: "EncodeArray [Str ''GET'', Str k] = Some cmd"
    and t: "net_talk (served_by envs con) addr cmd s = (err, reply, s')"
  have "cmd = words_bytes [''GET'', k]" using cmd by (simp add: words_bytes_def)
  with s k t show "serving envs K s' \<and> stored s' = stored s \<and> (reply = [] \<or> err = None \<and> (\<exists>r. Parse reply = Some (Inr r, length reply)))"
    by (cases s) (use served_get[of envs K "fst s" "fst (snd s)" "snd (snd s)" k con] in \<open>auto simp: served_by_def\<close>)
qed

section \<open>Migration\<close>



section \<open>Requests after a change of the cluster\<close>

lemma local_miss:
  assumes "\<not> fst (ShouldForwardRequest (e_hash env) k False (w_node w))" and "cache_ready (w_cache w)" and "entries (w_cache w) k = None"
  shows "\<exists>w'. route_command env (Str ''GET'') (map Str [''GET'', k]) cs w = Some (EncodeBulkString [] True, cs, w') \<and>
    entries (w_cache w') = entries (w_cache w)"
proof -
  obtain c where "Get (e_clock env 0) k (w_cache w) = Some (None, c)" "entries c = entries (w_cache w)"
    using Get_ready[OF assms(2), of "e_clock env 0" k] assms(3) by auto
  with assms(1) show ?thesis
    by (auto simp: route_command_def run_command_def handleGet_def arg_def index_def Let_def case_prod_beta')
qed

text \<open>
  Keys of a node that was added are not found. After CLUSTER ADDNODE the ring gives keys to the new
  node, but knows no leader for it. A node that has handed such a key over then neither finds it nor
  redirects the client: it answers as if the key did not exist.
\<close>

lemma added_node_hides_keys:
  assumes "ns_hashRing (w_node w) = Some (SetNodeAddress nid addr (AddShard (e_hash env) nid hr))"
    and "GetShard (e_hash env) k (AddShard (e_hash env) nid hr) = Inr nid" and "GetShardLeader nid hr = Inl e"
    and "ns_config (w_node w) = Some cfg" and "GetShardForNode cfg (c_NodeID cfg) = Inr mine" and "sh_ShardID mine \<noteq> nid"
    and "cache_ready (w_cache w)" and "entries (w_cache w) k = None"
  shows "\<exists>w'. route_command env (Str ''GET'') (map Str [''GET'', k]) cs w = Some (EncodeBulkString [] True, cs, w') \<and>
    entries (w_cache w') = entries (w_cache w)"
  by (rule local_miss) (use assms in \<open>simp_all add: ShouldForwardRequest_def\<close>)

lemmas sample_defs = sample_ring_def sample_config_def sample_state_def sample_node_def GetShardLeader_def GetShardNodes_def
  SetShardNodes_def AddShard_def NewHashRing_def GetShardForNode_def SetHashRing_def SetConfig_def IsClusterMode_def

lemma added_node_hides_keys_witness:
  "\<exists>w'. route_command sample_env (Str ''GET'') (map Str [''GET'', ''k'']) fresh_connection
      (sample_world (SetHashRing (SetNodeAddress ''n'' ''h:1'' (AddShard (\<lambda>_. 0) ''n'' (sample_ring (\<lambda>_. 0)))) (sample_state (\<lambda>_. 0) ''leader'' ''a''))) =
    Some (EncodeBulkString [] True, fresh_connection, w') \<and> entries (w_cache w') = Map.empty"
proof -
  let ?w = "sample_world (SetHashRing (SetNodeAddress ''n'' ''h:1'' (AddShard (\<lambda>_. 0) ''n'' (sample_ring (\<lambda>_. 0)))) (sample_state (\<lambda>_. 0) ''leader'' ''a''))"
  have "\<exists>w'. route_command sample_env (Str ''GET'') (map Str [''GET'', ''k'']) fresh_connection ?w =
      Some (EncodeBulkString [] True, fresh_connection, w') \<and> entries (w_cache w') = entries (w_cache ?w)"
    by (rule added_node_hides_keys[where nid = "''n''" and hr = "sample_ring (\<lambda>_. 0)" and cfg = "sample_config ''a''" and addr = "''h:1''"
      and mine = "\<lparr>sh_ShardID = ''s'', sh_LeaderID = ''a'', sh_Followers = [''b'']\<rparr>"])
      (simp_all add: sample_world_def sample_env_def sample_defs cache_ready_New GetShard_def get0_def Search_def search_loop.simps)
  then show ?thesis by (simp add: sample_world_def cache_ready_New)
qed

text \<open>
  A promotion does not change the routing. When the leader of a shard has failed and a follower has
  been elected, the ring still names the failed node: the new leader goes on sending every write for
  its own shard to the node that is gone.
\<close>

lemma promoted_node_redirects_writes:
  assumes "GetShard H k hr = Inr sid" and "GetShardLeader sid hr = Inr lead" and "GetShardForNode cfg (c_NodeID cfg) = Inr mine"
    and "sh_ShardID mine = sid" and "lead \<noteq> c_NodeID cfg" and "IsClusterMode cfg"
    and "ns_hashRing ns = Some hr" and "ns_config ns = Some cfg"
  shows "ns_role (promoted_state (Promoted leader) ns) = ''leader'' \<and>
    ShouldForwardRequest H k True (promoted_state (Promoted leader) ns) = (True, lead, client_addr (c_Nodes cfg) lead)"
  using assms by (simp add: promoted_state_def SetLeader_def SetRole_def ShouldForwardRequest_def state_IsClusterMode_def)

lemma promoted_node_redirects_writes_witness:
  "ns_role (promoted_state (Promoted sample_leader) (sample_state (\<lambda>_. 0) ''follower'' ''b'')) = ''leader'' \<and>
    ShouldForwardRequest (\<lambda>_. 0) ''k'' True (promoted_state (Promoted sample_leader) (sample_state (\<lambda>_. 0) ''follower'' ''b'')) =
      (True, ''a'', client_addr (c_Nodes (sample_config ''b'')) ''a'')"
  by (rule promoted_node_redirects_writes[where mine = "\<lparr>sh_ShardID = ''s'', sh_LeaderID = ''a'', sh_Followers = [''b'']\<rparr>", OF sample_GetShard]) (simp_all add: sample_defs)

end
