(* ===== verification/Client_Laws.thy ===== *)
theory Client_Laws
  imports Client_Lib Cluster_Laws
begin

text \<open>
  The client library against a server. The locale \<open>map_server\<close> states what the library relies on,
  one answer of the map for each request; its interpretation shows that the request handler keeps
  it. Through the library, a server is a finite map; the cases where it is not are the answers that
  look like redirects, and the redirects that the servers of a cluster really send.
\<close>

section \<open>What the library relies on\<close>

definition idle :: "string \<Rightarrow> Client \<Rightarrow> bool" where
  "idle addr c \<longleftrightarrow> cl_addr c = addr \<and> cl_open c \<and> cl_reader c = [] \<and> cl_werr c = None"

text \<open>The text that the library makes of the answer to a request.\<close>

fun reply_text :: "request \<Rightarrow> (string \<Rightarrow> string option) \<Rightarrow> string" where
  "reply_text (RSet k v) m = ''OK''"
| "reply_text (RGet k) m = (case m k of None \<Rightarrow> [] | Some v \<Rightarrow> v)"
| "reply_text (RDel k) m = ''1''"

fun client_request :: "'s network \<Rightarrow> request \<Rightarrow> Client \<times> 's \<Rightarrow> ((gerror + string) \<times> Client \<times> 's) option" where
  "client_request net (RSet k v) x = do { (err, x) \<leftarrow> client_Set net k v x; Some (case err of None \<Rightarrow> Inr [] | Some e \<Rightarrow> Inl e, x) }"
| "client_request net (RGet k) x = client_Get net k x"
| "client_request net (RDel k) x = do { (err, x) \<leftarrow> client_Delete net k x; Some (case err of None \<Rightarrow> Inr [] | Some e \<Rightarrow> Inl e, x) }"

fun client_run :: "'s network \<Rightarrow> request list \<Rightarrow> Client \<times> 's \<Rightarrow> ((gerror + string) list \<times> Client \<times> 's) option" where
  "client_run net [] x = Some ([], x)"
| "client_run net (r # rs) x = do { (a, x) \<leftarrow> client_request net r x; (as, x) \<leftarrow> client_run net rs x; Some (a # as, x) }"

text \<open>What a program expects of a map: nothing from a write, the value or the empty string from a read.\<close>

fun expected :: "request list \<Rightarrow> (string \<Rightarrow> string option) \<Rightarrow> string list" where
  "expected [] m = []"
| "expected (r # rs) m = (case r of RGet k \<Rightarrow> reply_text r m | _ \<Rightarrow> []) # expected rs (map_step r m)"

definition value_ok :: "request \<Rightarrow> bool" where
  "value_ok r \<longleftrightarrow> request_ok r \<and> (case r of RSet k v \<Rightarrow> \<not> IsRedirect v | _ \<Rightarrow> True)"

lemma Parse_map_reply:
  assumes "\<forall>k v. m k = Some v \<longrightarrow> small v"
  shows "\<exists>x. Parse (map_reply r m) = Some (Inr x, length (map_reply r m)) \<and> fmt_v x = reply_text r m \<and> (\<forall>n. x \<noteq> Int64 n)"
proof (cases r)
  case (RSet k v)
  then show ?thesis using reply_round_trip(1)[of "''OK''" 0 "[]" "[]"] by (simp add: in_i64_def)
next
  case (RGet k)
  then show ?thesis using reply_round_trip(4,5)[of "[]" 0 v "[]" for v] assms
    by (auto simp: in_i64_def small_def split: option.split)
next
  case (RDel k)
  have "Itoa 1 = ''1''" by code_simp
  then show ?thesis using RDel reply_round_trip(3)[of "[]" 1 "[]" "[]"] by (simp add: in_i64_def)
qed

locale map_server =
  fixes net :: "'s network" and addr :: string
    and view :: "'s \<Rightarrow> string \<Rightarrow> string option" and ok :: "string set \<Rightarrow> 's \<Rightarrow> bool"
  assumes request: "ok K s \<Longrightarrow> key_of r \<in> K \<Longrightarrow> request_ok r \<Longrightarrow>
      \<exists>s'. net_talk net addr (words_bytes (words_of r)) s = (None, map_reply r (view s), s') \<and>
        view s' = map_step r (view s) \<and> ok K s'"
    and small_values: "ok K s \<Longrightarrow> view s k = Some v \<Longrightarrow> small v"
begin

lemma execute_request:
  assumes "ok K s" and "key_of r \<in> K" and "request_ok r" and "idle addr c" and "\<not> IsRedirect (reply_text r (view s))"
  shows "\<exists>s'. executeCommandWithRedirect net (map Str (words_of r)) (c, s) = Some (Inr (reply_text r (view s)), c, s') \<and>
    view s' = map_step r (view s) \<and> ok K s'"
proof -
  obtain s' where s': "net_talk net addr (words_bytes (words_of r)) s = (None, map_reply r (view s), s')"
    "view s' = map_step r (view s)" "ok K s'" using request[OF assms(1-3)] by blast
  obtain x where x: "Parse (map_reply r (view s)) = Some (Inr x, length (map_reply r (view s)))"
    "fmt_v x = reply_text r (view s)" "\<forall>n. x \<noteq> Int64 n"
    using Parse_map_reply[of "view s" r] small_values[OF assms(1)] by blast
  obtain e where e: "EncodeArray (map Str (words_of r)) = Some e" "words_bytes (words_of r) = e"
    using EncodeArray_strings[of "words_of r"] by (auto simp: words_bytes_def)
  have c: "c\<lparr>cl_werr := None, cl_reader := []\<rparr> = c" using assms(4) by (simp add: idle_def)
  have "readResponse (c\<lparr>cl_reader := map_reply r (view s), cl_werr := None\<rparr>) = Some (Inr (reply_text r (view s)), c)"
    using x c by (cases x) (simp_all add: readResponse_def parse_reply_def)
  then show ?thesis using assms(4,5) s' e
    by (simp add: executeCommandWithRedirect_def MaxRedirects_def eval_nat_numeral write_flush_def idle_def)
qed

lemma client_request_answers:
  assumes "ok K s" and "key_of r \<in> K" and "value_ok r" and "idle addr c" and "\<forall>k v. view s k = Some v \<longrightarrow> \<not> IsRedirect v"
  shows "\<exists>s'. client_request net r (c, s) = Some (Inr (case r of RGet k \<Rightarrow> reply_text r (view s) | _ \<Rightarrow> []), c, s') \<and>
    view s' = map_step r (view s) \<and> ok K s'"
proof -
  have "\<not> IsRedirect (reply_text r (view s))"
    using assms(5) by (cases r) (auto simp: IsRedirect_def HasPrefix_def split: option.split)
  with execute_request[OF assms(1,2) _ assms(4)] assms(3) show ?thesis
    by (cases r) (auto simp: value_ok_def client_Set_def client_Get_def client_Delete_def expect_def)
qed

lemma client_run_answers:
  assumes "ok K s" and "key_of ` set rs \<subseteq> K" and "list_all value_ok rs" and "idle addr c" and "\<forall>k v. view s k = Some v \<longrightarrow> \<not> IsRedirect v"
  shows "\<exists>s'. client_run net rs (c, s) = Some (map Inr (expected rs (view s)), c, s') \<and> view s' = fold map_step rs (view s) \<and> ok K s'"
  using assms
proof (induction rs arbitrary: s)
  case (Cons r rs)
  have r: "key_of r \<in> K" "value_ok r" using Cons.prems(2,3) by auto
  obtain s1 where s1: "client_request net r (c, s) = Some (Inr (case r of RGet k \<Rightarrow> reply_text r (view s) | _ \<Rightarrow> []), c, s1)"
    "view s1 = map_step r (view s)" "ok K s1"
    using client_request_answers[OF Cons.prems(1) r Cons.prems(4,5)] by blast
  have "\<forall>k v. view s1 k = Some v \<longrightarrow> \<not> IsRedirect v"
    using r(2) Cons.prems(5) unfolding s1(2) by (cases r) (auto simp: value_ok_def)
  then obtain s' where "client_run net rs (c, s1) = Some (map Inr (expected rs (view s1)), c, s')"
    "view s' = fold map_step rs (view s1)" "ok K s'"
    using Cons.IH[OF s1(3)] Cons.prems by auto
  with s1 show ?case by auto
qed simp

end

section \<open>The server keeps the contract\<close>

definition serving_map :: "(nat \<Rightarrow> unit env) \<Rightarrow> string set \<Rightarrow> served \<Rightarrow> bool" where
  "serving_map envs K s \<longleftrightarrow> serving envs K s \<and> (case s of (i, cs, w) \<Rightarrow> holds_map (w_cache w) (stored s))"

lemma stored_holds: "holds_map (w_cache w) m \<Longrightarrow> stored (i, cs, w) = m"
  by (auto simp: stored_def holds_map_def fun_eq_iff option.map_comp comp_def option.map_ident)

interpretation served: map_server "served_by envs con" addr stored "serving_map envs"
proof
  fix K s r
  assume s: "serving_map envs K s" and r: "key_of r \<in> K" "request_ok r"
  obtain i cs w where x: "s = (i, cs, w)" by (cases s)
  have w: "holds_map (w_cache w) (stored s)" "cache_ready (w_cache w)" "plain cs" "\<forall>i. serves (envs i) (w_node w)" "finite K"
    "dom (entries (w_cache w)) \<subseteq> K" "card K \<le> cache_room (w_cache w)" "\<forall>k v t. entries (w_cache w) k = Some (v, t) \<longrightarrow> small v"
    using s by (auto simp: serving_map_def serving_def x)
  have d: "dom (stored s) \<union> {key_of r} \<subseteq> K" using holds_map_dom[OF w(1)] w(6) r(1) by simp
  obtain w' where w': "handle_turn (envs i) con (Slice (map Str (words_of r))) cs w = Some (True, map_reply r (stored s), cs, w')"
    "holds_map (w_cache w') (map_step r (stored s))" "cache_room (w_cache w') = cache_room (w_cache w)"
    "w_node w' = sent (envs i) r (w_node w)"
    using serve_turn[OF w(1,5) d w(7) w(4)[rule_format, of i] _ w(3), of con] request_ok_words[OF r(2)] by blast
  have t: "net_talk (served_by envs con) addr (words_bytes (words_of r)) s = (None, map_reply r (stored s), Suc i, cs, w')"
    using handle_loop_words[of "words_of r" "\<lambda>_. envs i" "\<lambda>_ w. w" con 0 "[]" cs w] request_ok_words[OF r(2)] w'(1)
    by (simp add: served_by_def x)
  have v: "stored (Suc i, cs, w') = map_step r (stored s)"
    using w'(2) by (rule stored_holds)
  have "dom (map_step r (stored s)) \<subseteq> K" using d by (cases r) auto
  then have "dom (entries (w_cache w')) \<subseteq> K" using holds_map_dom[OF w'(2)] by simp
  moreover have "small v" if "entries (w_cache w') k = Some (v, t)" for k v t
    using that w'(2) w(8) r(2) by (cases r) (auto simp: holds_map_def stored_def x request_ok_def split: if_splits)
  ultimately have "serving_map envs K (Suc i, cs, w')"
    using w w' by (auto simp: serving_map_def serving_def v) (simp add: holds_map_def)
  with t v show "\<exists>s'. net_talk (served_by envs con) addr (words_bytes (words_of r)) s = (None, map_reply r (stored s), s') \<and>
      stored s' = map_step r (stored s) \<and> serving_map envs K s'" by blast
next
  fix K s k v
  assume "serving_map envs K s" and "stored s k = Some v"
  then show "small v" by (auto simp: serving_map_def serving_def stored_def split: prod.splits)
qed

text \<open>
  C8: The client library presents the server as a map. A client that connects to a node and sets,
  reads and deletes keys gets from every read the value that was last set, or the empty string if
  there is none, and no errors, as long as the keys fit into the cache and no value looks like a
  redirect. The node then holds the map that the calls describe.
\<close>

theorem client_implements_map:
  assumes "serving_map envs K s" and "key_of ` set rs \<subseteq> K" and "list_all value_ok rs" and "\<forall>k v. stored s k = Some v \<longrightarrow> \<not> IsRedirect v"
  shows "\<exists>c s1 s2. NewClient (served_by envs con) addr s = (Inr c, s1) \<and>
    client_run (served_by envs con) rs (c, s1) = Some (map Inr (expected rs (stored s)), c, s2) \<and>
    stored s2 = fold map_step rs (stored s)"
proof -
  obtain i cs w where x: "s = (i, cs, w)" by (cases s)
  let ?s = "(i, fresh_connection, w)"
  have "serving_map envs K ?s" "stored ?s = stored s"
    using assms(1) by (auto simp: serving_map_def serving_def stored_def x plain_def fresh_connection_def)
  moreover have "idle addr (connected addr)" by (simp add: idle_def connected_def)
  ultimately obtain s2 where "client_run (served_by envs con) rs (connected addr, ?s) = Some (map Inr (expected rs (stored s)), connected addr, s2)"
    "stored s2 = fold map_step rs (stored s)"
    using served.client_run_answers[of envs K ?s rs addr "connected addr" con] assms(2-4) by auto
  moreover have "NewClient (served_by envs con) addr s = (Inr (connected addr), ?s)" by (simp add: NewClient_def served_by_def x)
  ultimately show ?thesis by blast
qed

theorem client_implements_map_witness:
  "\<exists>c s1 s2. NewClient (served_by (\<lambda>_. sample_env) 1) ''h:1'' (0, fresh_connection, sample_world (NewNodeState ''leader'' None [])) = (Inr c, s1) \<and>
    client_run (served_by (\<lambda>_. sample_env) 1) [RSet ''k'' ''v'', RGet ''k'', RDel ''k'', RGet ''k''] (c, s1) =
      Some (map Inr [[], ''v'', [], []], c, s2) \<and> stored s2 = Map.empty"
proof -
  let ?s = "(0, fresh_connection, sample_world (NewNodeState ''leader'' None []))" and ?rs = "[RSet ''k'' ''v'', RGet ''k'', RDel ''k'', RGet ''k'']"
  have st: "stored ?s = Map.empty" by (rule stored_holds) (simp add: sample_world_def)
  have "serving_map (\<lambda>_. sample_env) {''k''} ?s"
    unfolding serving_map_def st
    by (auto simp: serving_def sample_world_def cache_ready_New plain_def fresh_connection_def serves_single NewNodeState_def cache_room_def)
  then have "\<exists>c s1 s2. NewClient (served_by (\<lambda>_. sample_env) 1) ''h:1'' ?s = (Inr c, s1) \<and>
    client_run (served_by (\<lambda>_. sample_env) 1) ?rs (c, s1) = Some (map Inr (expected ?rs (stored ?s)), c, s2) \<and>
    stored s2 = fold map_step ?rs (stored ?s)"
    by (rule client_implements_map) (simp_all add: st value_ok_def request_ok_def small_def IsRedirect_def HasPrefix_def)
  then show ?thesis unfolding st by simp
qed

section \<open>Redirects\<close>

text \<open>
  C39: The library cannot follow the redirects of the servers. The handler answers a request for a key
  of another node with \<open>-MOVED\<close>, the identifier of the node and its address. The library takes the
  identifier for a part of the host name: it dials an address with a space in it. When that fails,
  the call returns an error, and so does every later call of the client, whatever the server does.
\<close>

theorem moved_reply_breaks_client:
  assumes "idle addr c" and "EncodeArray cmd = Some e"
    and "net_talk net addr e s = (None, ''-MOVED '' @ nid @ '' '' @ host_port host port @ crlf, s1)"
    and "in_i64 port" and "CHR '':'' \<notin> set (nid @ host)" and "CHR 0x0A \<notin> set (nid @ host)"
    and "net_dial net (nid @ '' '' @ host_port host port) s1 = (Some err, s2)"
  shows "\<exists>c'. executeCommandWithRedirect net cmd (c, s) = Some (Inl (Err (''failed to connect to leader: '' @ error_text err)), c', s2) \<and>
    (\<forall>cmd2 e2 s3. EncodeArray cmd2 = Some e2 \<longrightarrow> (\<exists>e3 c3. executeCommandWithRedirect net cmd2 (c', s3) = Some (Inl e3, c3, s3)))"
proof -
  define t b where "t = ''MOVED '' @ nid @ '' '' @ host_port host port" and "b = ''-'' @ t @ crlf"
  have "CHR 0x0A \<notin> set t" using assms(6) by (simp add: t_def host_port_def)
  then have P: "Parse b = Some (Inr (Str t), length b)"
    using reply_round_trip(2)[of t 0 "[]" "[]"] by (simp add: EncodeError_def in_i64_def b_def)
  have R: "IsRedirect t" "ParseRedirect t = Inr \<lparr>LeaderHost = nid @ '' '' @ host, LeaderPort = Itoa port\<rparr>"
    using ParseRedirect_text[OF assms(4), of "nid @ '' '' @ host"] assms(5) by (simp_all add: IsRedirect_def HasPrefix_def t_def host_port_def)
  let ?c = "c\<lparr>cl_reader := b, cl_werr := None\<rparr>" and ?c1 = "c\<lparr>cl_werr := None, cl_reader := []\<rparr>"
  have read: "readResponse ?c = Some (Inr t, ?c1)"
    using P by (simp add: readResponse_def parse_reply_def)
  have talk: "write_flush net e (c, s) = (None, ?c, s1)"
    using assms(1,3) by (simp add: write_flush_def idle_def b_def t_def)
  have "executeCommandWithRedirect net cmd (c, s) =
      Some (Inl (Err (''failed to connect to leader: '' @ error_text err)), client_Close ?c1, s2)"
    using assms(2,7) by (simp add: executeCommandWithRedirect_def MaxRedirects_def eval_nat_numeral talk read R Address_def host_port_def)
  moreover have "\<exists>e3 c3. executeCommandWithRedirect net cmd2 (client_Close c1, s3) = Some (Inl e3, c3, s3)"
    if "EncodeArray cmd2 = Some e2" for cmd2 e2 s3 c1
    using that by (cases "cl_werr c1")
      (simp_all add: executeCommandWithRedirect_def MaxRedirects_def eval_nat_numeral write_flush_def client_Close_def Let_def)
  ultimately show ?thesis by blast
qed

theorem moved_reply_breaks_client_witness:
  "\<exists>c'. executeCommandWithRedirect \<lparr>net_dial = \<lambda>_ s. (Some (Err ''no such host''), s),
        net_talk = \<lambda>_ _ s. (None, ''-MOVED '' @ ''b'' @ '' '' @ host_port ''h'' 7001 @ crlf, s)\<rparr> [Str ''GET'', Str ''k''] (connected ''h:7000'', ()) =
      Some (Inl (Err (''failed to connect to leader: '' @ ''no such host'')), c', ())"
proof -
  obtain e where e: "EncodeArray [Str ''GET'', Str ''k''] = Some e" using EncodeArray_strings[of "[''GET'', ''k'']"] by auto
  let ?net = "\<lparr>net_dial = \<lambda>_ s. (Some (Err ''no such host''), s),
    net_talk = \<lambda>_ _ s. (None, ''-MOVED '' @ ''b'' @ '' '' @ host_port ''h'' 7001 @ crlf, s)\<rparr> :: unit network"
  have "\<exists>c'. executeCommandWithRedirect ?net [Str ''GET'', Str ''k''] (connected ''h:7000'', ()) =
      Some (Inl (Err (''failed to connect to leader: '' @ error_text (Err ''no such host''))), c', ()) \<and>
    (\<forall>cmd2 e2 s3. EncodeArray cmd2 = Some e2 \<longrightarrow> (\<exists>e3 c3. executeCommandWithRedirect ?net cmd2 (c', s3) = Some (Inl e3, c3, s3)))"
    by (rule moved_reply_breaks_client[where e = e and nid = "''b''" and host = "''h''" and port = 7001, OF _ e])
      (simp_all add: idle_def connected_def in_i64_def)
  then show ?thesis by auto
qed

end
