(* ===== verification/Cluster_Client.thy ===== *)
theory Cluster_Client
  imports Client_Laws
begin

text \<open>
  The cluster client (\<open>pkg/client/cluster_client.go\<close>): discovery of the nodes from seeds, a ring of its
  own, and commands that go to the node that the ring names. \<open>H\<close> is the hash function of the ring,
  \<open>pick\<close> the order in which the loop over the nodes visits them.
\<close>

section \<open>White space\<close>

text \<open>The encodings of the characters that \<open>unicode.IsSpace\<close> accepts; no character contains another.\<close>

definition spaces :: "string list" where
  "spaces = map (map char_of) ([[9], [10], [11], [12], [13], [32], [0xC2, 0x85], [0xC2, 0xA0], [0xE1, 0x9A, 0x80],
     [0xE2, 0x80, 0x80], [0xE2, 0x80, 0x81], [0xE2, 0x80, 0x82], [0xE2, 0x80, 0x83], [0xE2, 0x80, 0x84], [0xE2, 0x80, 0x85],
     [0xE2, 0x80, 0x86], [0xE2, 0x80, 0x87], [0xE2, 0x80, 0x88], [0xE2, 0x80, 0x89], [0xE2, 0x80, 0x8A],
     [0xE2, 0x80, 0xA8], [0xE2, 0x80, 0xA9], [0xE2, 0x80, 0xAF], [0xE2, 0x81, 0x9F], [0xE3, 0x80, 0x80]] :: nat list list)"

text \<open>The number of bytes of the space at the front, 0 if there is none.\<close>

definition space_len :: "string list \<Rightarrow> string \<Rightarrow> nat" where
  "space_len ps s = (case find (\<lambda>p. prefix p s) ps of None \<Rightarrow> 0 | Some p \<Rightarrow> length p)"

function trim_front :: "string list \<Rightarrow> string \<Rightarrow> string" where
  "trim_front ps s = (if s = [] \<or> space_len ps s = 0 then s else trim_front ps (drop (space_len ps s) s))"
  by pat_completeness auto
termination
  by (relation "measure (\<lambda>(ps, s). length s)") auto

declare trim_front.simps [simp del]

definition TrimSpace :: "string \<Rightarrow> string" where
  "TrimSpace s = rev (trim_front (map rev spaces) (rev (trim_front spaces s)))"

text \<open>\<open>strings.Fields\<close>: \<open>acc\<close> is the field that is being read.\<close>

function fields_from :: "string \<Rightarrow> string \<Rightarrow> string list" where
  "fields_from acc s =
     (if s = [] then (if acc = [] then [] else [acc])
      else if space_len spaces s = 0 then fields_from (acc @ [hd s]) (tl s)
      else (if acc = [] then [] else [acc]) @ fields_from [] (drop (space_len spaces s) s))"
  by pat_completeness auto
termination
  by (relation "measure (\<lambda>(acc, s). length s)") auto

declare fields_from.simps [simp del]

definition Fields :: "string \<Rightarrow> string list" where
  "Fields s = fields_from [] s"

section \<open>State and discovery\<close>

record CNodeInfo =
  ci_ID :: string
  ci_Address :: string
  ci_Status :: string

record ClusterClient =
  cc_seeds :: "string list"
  cc_hashRing :: HashRing
  cc_conns :: "(string, Client) gomap"
  cc_nodes :: "(string, CNodeInfo) gomap"
  cc_stopped :: bool

definition node_entry :: "string \<Rightarrow> (string, CNodeInfo) gomap \<Rightarrow> (string, CNodeInfo) gomap" where
  "node_entry line nodes =
     (let line = TrimSpace line
      in if line = [] then nodes
         else case Fields line of
           i # a # st # _ \<Rightarrow> gset i \<lparr>ci_ID = i, ci_Address = a, ci_Status = st\<rparr> nodes
         | _ \<Rightarrow> nodes)"

text \<open>\<open>Split\<close> gives at least one line, so the test for an empty response never applies.\<close>

definition parseClusterNodes :: "string \<Rightarrow> ClusterClient \<Rightarrow> gerror option \<times> ClusterClient" where
  "parseClusterNodes response cc =
     (let lines = Split (TrimSpace response) (CHR 0x0A)
      in if lines = [] then (Some (Err ''empty CLUSTER NODES response''), cc\<lparr>cc_nodes := []\<rparr>)
         else let cc = cc\<lparr>cc_nodes := fold node_entry lines []\<rparr>
              in (if cc_nodes cc = [] then Some (Err ''no valid nodes found in CLUSTER NODES response'') else None, cc))"

definition ring_node :: "(string \<Rightarrow> 32 word) \<Rightarrow> string \<times> CNodeInfo \<Rightarrow> HashRing \<Rightarrow> HashRing" where
  "ring_node H = (\<lambda>(nodeID, nodeInfo) hr.
     if ci_Status nodeInfo \<noteq> ''active'' then hr else SetNodeAddress nodeID (ci_Address nodeInfo) (AddShard H nodeID hr))"

definition buildHashRing ::
    "(string \<Rightarrow> 32 word) \<Rightarrow> ((string, CNodeInfo) gomap \<Rightarrow> (string, CNodeInfo) gomap) \<Rightarrow> ClusterClient \<Rightarrow> ClusterClient" where
  "buildHashRing H pick cc = cc\<lparr>cc_hashRing := fold (ring_node H) (pick (cc_nodes cc)) (cc_hashRing cc)\<rparr>"

fun discover_from ::
    "'s network \<Rightarrow> (string \<Rightarrow> 32 word) \<Rightarrow> ((string, CNodeInfo) gomap \<Rightarrow> (string, CNodeInfo) gomap) \<Rightarrow> string list \<Rightarrow> gerror option \<Rightarrow>
     ClusterClient \<times> 's \<Rightarrow> (gerror option \<times> ClusterClient \<times> 's) option" where
  "discover_from net H pick [] lastErr (cc, s) =
     Some (Some (Err (''failed to discover topology from any seed: '' @
       (case lastErr of None \<Rightarrow> ''<nil>'' | Some err \<Rightarrow> error_text err))), cc, s)"
| "discover_from net H pick (seedAddr # seeds) lastErr (cc, s) =
     (case NewClient net seedAddr s of
        (Inl err, s) \<Rightarrow>
          discover_from net H pick seeds (Some (Err (''failed to connect to seed '' @ seedAddr @ '': '' @ error_text err))) (cc, s)
      | (Inr seedClient, s) \<Rightarrow> do {
          (response, seedClient, s) \<leftarrow> SendCommand net [''CLUSTER'', ''NODES''] (seedClient, s);
          (case response of
             Inl err \<Rightarrow>
               discover_from net H pick seeds (Some (Err (''CLUSTER NODES command failed on '' @ seedAddr @ '': '' @ error_text err))) (cc, s)
           | Inr response \<Rightarrow>
               (case parseClusterNodes response cc of
                  (Some err, cc) \<Rightarrow>
                    discover_from net H pick seeds (Some (Err (''failed to parse CLUSTER NODES response: '' @ error_text err))) (cc, s)
                | (None, cc) \<Rightarrow> Some (None, buildHashRing H pick cc, s)))
        })"

definition discoverTopology ::
    "'s network \<Rightarrow> (string \<Rightarrow> 32 word) \<Rightarrow> ((string, CNodeInfo) gomap \<Rightarrow> (string, CNodeInfo) gomap) \<Rightarrow>
     ClusterClient \<times> 's \<Rightarrow> (gerror option \<times> ClusterClient \<times> 's) option" where
  "discoverTopology net H pick = (\<lambda>(cc, s). discover_from net H pick (cc_seeds cc) None (cc, s))"

definition NewClusterClient ::
    "'s network \<Rightarrow> (string \<Rightarrow> 32 word) \<Rightarrow> ((string, CNodeInfo) gomap \<Rightarrow> (string, CNodeInfo) gomap) \<Rightarrow> string list \<Rightarrow> 's \<Rightarrow>
     ((gerror + ClusterClient) \<times> 's) option" where
  "NewClusterClient net H pick seeds s =
     (if seeds = [] then Some (Inl (Err ''at least one seed address is required''), s)
      else do {
        let cc = \<lparr>cc_seeds = seeds, cc_hashRing = NewHashRing 150, cc_conns = [], cc_nodes = [], cc_stopped = False\<rparr>;
        (err, cc, s) \<leftarrow> discoverTopology net H pick (cc, s);
        Some (case err of
           Some e \<Rightarrow> Inl (Err (''failed to discover cluster topology: '' @ error_text e))
         | None \<Rightarrow> Inr cc, s)
      })"

section \<open>Commands\<close>

definition locate :: "(string \<Rightarrow> 32 word) \<Rightarrow> string \<Rightarrow> ClusterClient \<Rightarrow> gerror + string" where
  "locate H k cc =
     (case GetNode H k (cc_hashRing cc) of
        Inl err \<Rightarrow> Inl (Err (''failed to find node for key '' @ k @ '': '' @ error_text err))
      | Inr nodeID \<Rightarrow>
          let address = GetNodeAddress nodeID (cc_hashRing cc)
          in if address = [] then Inl (Err (''no address found for node '' @ nodeID)) else Inr address)"

definition getOrCreateConnection ::
    "'s network \<Rightarrow> string \<Rightarrow> ClusterClient \<times> 's \<Rightarrow> (gerror + Client) \<times> ClusterClient \<times> 's" where
  "getOrCreateConnection net address = (\<lambda>(cc, s).
     case gget (cc_conns cc) address of
       Some conn \<Rightarrow> (Inr conn, cc, s)
     | None \<Rightarrow>
         (case NewClient net address s of
            (Inl err, s) \<Rightarrow> (Inl (Err (''failed to connect to '' @ address @ '': '' @ error_text err)), cc, s)
          | (Inr conn, s) \<Rightarrow> (Inr conn, cc\<lparr>cc_conns := gset address conn (cc_conns cc)\<rparr>, s)))"

text \<open>
  The part that the commands share: the address of the key's node, the connection to it, and the
  command of the client library on that connection. The left result is an error before the command.
\<close>

definition on_node ::
    "'s network \<Rightarrow> (string \<Rightarrow> 32 word) \<Rightarrow> string \<Rightarrow> (Client \<times> 's \<Rightarrow> ('r \<times> Client \<times> 's) option) \<Rightarrow> ClusterClient \<times> 's \<Rightarrow>
     ((gerror + 'r) \<times> ClusterClient \<times> 's) option" where
  "on_node net H k command = (\<lambda>(cc, s).
     case locate H k cc of
       Inl err \<Rightarrow> Some (Inl err, cc, s)
     | Inr address \<Rightarrow>
         (case getOrCreateConnection net address (cc, s) of
            (Inl err, cc, s) \<Rightarrow> Some (Inl err, cc, s)
          | (Inr conn, cc, s) \<Rightarrow> do {
              (r, conn, s) \<leftarrow> command (conn, s);
              Some (Inr r, cc\<lparr>cc_conns := gset address conn (cc_conns cc)\<rparr>, s)
            }))"

text \<open>A command that fails with MOVED refreshes the topology and starts again, as often as that happens.\<close>

partial_function (option) cc_Get ::
    "'s network \<Rightarrow> (string \<Rightarrow> 32 word) \<Rightarrow> ((string, CNodeInfo) gomap \<Rightarrow> (string, CNodeInfo) gomap) \<Rightarrow> string \<Rightarrow>
     ClusterClient \<times> 's \<Rightarrow> ((gerror + string) \<times> ClusterClient \<times> 's) option" where
  "cc_Get net H pick k x = do {
     (r, x) \<leftarrow> on_node net H k (client_Get net k) x;
     (case r of
        Inl err \<Rightarrow> Some (Inl err, x)
      | Inr (Inr result) \<Rightarrow> Some (Inr result, x)
      | Inr (Inl err) \<Rightarrow>
          if HasPrefix (error_text err) ''MOVED''
          then do {
            (refreshErr, x) \<leftarrow> discoverTopology net H pick x;
            (case refreshErr of
               Some e \<Rightarrow> Some (Inl (Err (''failed to refresh topology: '' @ error_text e)), x)
             | None \<Rightarrow> cc_Get net H pick k x)
          }
          else Some (Inl err, x))
   }"

partial_function (option) cc_Set ::
    "'s network \<Rightarrow> (string \<Rightarrow> 32 word) \<Rightarrow> ((string, CNodeInfo) gomap \<Rightarrow> (string, CNodeInfo) gomap) \<Rightarrow> string \<Rightarrow> string \<Rightarrow>
     ClusterClient \<times> 's \<Rightarrow> (gerror option \<times> ClusterClient \<times> 's) option" where
  "cc_Set net H pick k v x = do {
     (r, x) \<leftarrow> on_node net H k (client_Set net k v) x;
     (case r of
        Inl err \<Rightarrow> Some (Some err, x)
      | Inr None \<Rightarrow> Some (None, x)
      | Inr (Some err) \<Rightarrow>
          if HasPrefix (error_text err) ''MOVED''
          then do {
            (refreshErr, x) \<leftarrow> discoverTopology net H pick x;
            (case refreshErr of
               Some e \<Rightarrow> Some (Some (Err (''failed to refresh topology: '' @ error_text e)), x)
             | None \<Rightarrow> cc_Set net H pick k v x)
          }
          else Some (Some err, x))
   }"

partial_function (option) cc_SetWithTTL ::
    "'s network \<Rightarrow> (string \<Rightarrow> 32 word) \<Rightarrow> ((string, CNodeInfo) gomap \<Rightarrow> (string, CNodeInfo) gomap) \<Rightarrow> string \<Rightarrow> string \<Rightarrow> duration \<Rightarrow>
     ClusterClient \<times> 's \<Rightarrow> (gerror option \<times> ClusterClient \<times> 's) option" where
  "cc_SetWithTTL net H pick k v ttl x = do {
     (r, x) \<leftarrow> on_node net H k (client_SetWithTTL net k v (Seconds ttl)) x;
     (case r of
        Inl err \<Rightarrow> Some (Some err, x)
      | Inr None \<Rightarrow> Some (None, x)
      | Inr (Some err) \<Rightarrow>
          if HasPrefix (error_text err) ''MOVED''
          then do {
            (refreshErr, x) \<leftarrow> discoverTopology net H pick x;
            (case refreshErr of
               Some e \<Rightarrow> Some (Some (Err (''failed to refresh topology: '' @ error_text e)), x)
             | None \<Rightarrow> cc_SetWithTTL net H pick k v ttl x)
          }
          else Some (Some err, x))
   }"

partial_function (option) cc_Delete ::
    "'s network \<Rightarrow> (string \<Rightarrow> 32 word) \<Rightarrow> ((string, CNodeInfo) gomap \<Rightarrow> (string, CNodeInfo) gomap) \<Rightarrow> string \<Rightarrow>
     ClusterClient \<times> 's \<Rightarrow> (gerror option \<times> ClusterClient \<times> 's) option" where
  "cc_Delete net H pick k x = do {
     (r, x) \<leftarrow> on_node net H k (client_Delete net k) x;
     (case r of
        Inl err \<Rightarrow> Some (Some err, x)
      | Inr None \<Rightarrow> Some (None, x)
      | Inr (Some err) \<Rightarrow>
          if HasPrefix (error_text err) ''MOVED''
          then do {
            (refreshErr, x) \<leftarrow> discoverTopology net H pick x;
            (case refreshErr of
               Some e \<Rightarrow> Some (Some (Err (''failed to refresh topology: '' @ error_text e)), x)
             | None \<Rightarrow> cc_Delete net H pick k x)
          }
          else Some (Some err, x))
   }"

section \<open>Background refresh and end\<close>

text \<open>One tick of the refresh goroutine; its error is logged only. It ends once the client is stopped.\<close>

definition refresh_tick ::
    "'s network \<Rightarrow> (string \<Rightarrow> 32 word) \<Rightarrow> ((string, CNodeInfo) gomap \<Rightarrow> (string, CNodeInfo) gomap) \<Rightarrow>
     ClusterClient \<times> 's \<Rightarrow> (ClusterClient \<times> 's) option" where
  "refresh_tick net H pick x =
     (if cc_stopped (fst x) then Some x else do { (err, x) \<leftarrow> discoverTopology net H pick x; Some x })"

definition RefreshTopology ::
    "'s network \<Rightarrow> (string \<Rightarrow> 32 word) \<Rightarrow> ((string, CNodeInfo) gomap \<Rightarrow> (string, CNodeInfo) gomap) \<Rightarrow>
     ClusterClient \<times> 's \<Rightarrow> (gerror option \<times> ClusterClient \<times> 's) option" where
  "RefreshTopology net H pick = discoverTopology net H pick"

text \<open>Closing the channel a second time panics.\<close>

definition cc_Close :: "ClusterClient \<Rightarrow> (gerror option \<times> ClusterClient) option" where
  "cc_Close cc = (if cc_stopped cc then None else Some (None, cc\<lparr>cc_stopped := True, cc_conns := []\<rparr>))"

definition cc_GetNodes :: "((string, CNodeInfo) gomap \<Rightarrow> (string, CNodeInfo) gomap) \<Rightarrow> ClusterClient \<Rightarrow> CNodeInfo list" where
  "cc_GetNodes pick cc = map snd (pick (cc_nodes cc))"

section \<open>Redirects never reach the cluster client\<close>

lemma redirect_loop_error:
  "redirect_loop net cmd n x = Some (Inl err, y) \<Longrightarrow> \<not> HasPrefix (error_text err) ''MOVED''"
proof (induction n arbitrary: x)
  case 0
  then show ?case by (cases x) (auto simp: HasPrefix_def)
next
  case (Suc n)
  then show ?case
    by (cases x) (auto simp: HasPrefix_def split: Option.bind_splits option.splits prod.splits sum.splits if_splits)
qed

lemma command_errors:
  "client_Get net k x = Some (Inl err, y) \<Longrightarrow> \<not> HasPrefix (error_text err) ''MOVED''"
  "client_Set net k v x = Some (Some err, y) \<Longrightarrow> \<not> HasPrefix (error_text err) ''MOVED''"
  "client_Delete net k x = Some (Some err, y) \<Longrightarrow> \<not> HasPrefix (error_text err) ''MOVED''"
  by (auto simp: client_Get_def client_Set_def client_Delete_def expect_def executeCommandWithRedirect_def HasPrefix_def
      split: Option.bind_splits sum.splits if_splits dest!: redirect_loop_error)

lemma on_node_result:
  "on_node net H k command x = Some (Inr r, y) \<Longrightarrow> \<exists>a b. command a = Some (r, b)"
  by (cases x) (auto simp: on_node_def split: Option.bind_splits option.splits prod.splits sum.splits)

text \<open>
  The retry of the cluster client is never taken. Whatever the servers answer, no error of the
  client library begins with MOVED, since the library handles redirects itself; so the commands of
  the cluster client are the plain commands on the node that its own ring names. They return whenever
  that command does, and a redirect never makes the cluster client refresh its ring.
\<close>

lemma retry_never_taken:
  "cc_Get net H pick k x =
      map_option (\<lambda>(r, x). (case r of Inl err \<Rightarrow> Inl err | Inr result \<Rightarrow> result, x)) (on_node net H k (client_Get net k) x) \<and>
   cc_Set net H pick k v x =
      map_option (\<lambda>(r, x). (case r of Inl err \<Rightarrow> Some err | Inr err \<Rightarrow> err, x)) (on_node net H k (client_Set net k v) x) \<and>
   cc_Delete net H pick k x =
      map_option (\<lambda>(r, x). (case r of Inl err \<Rightarrow> Some err | Inr err \<Rightarrow> err, x)) (on_node net H k (client_Delete net k) x)"
proof (intro conjI)
  show "cc_Get net H pick k x =
      map_option (\<lambda>(r, x). (case r of Inl err \<Rightarrow> Inl err | Inr result \<Rightarrow> result, x)) (on_node net H k (client_Get net k) x)"
    by (subst cc_Get.simps)
      (auto split: Option.bind_split sum.split simp: map_option_case dest!: on_node_result command_errors)
  show "cc_Set net H pick k v x =
      map_option (\<lambda>(r, x). (case r of Inl err \<Rightarrow> Some err | Inr err \<Rightarrow> err, x)) (on_node net H k (client_Set net k v) x)"
    by (subst cc_Set.simps)
      (auto split: Option.bind_split sum.split option.split simp: map_option_case dest!: on_node_result command_errors)
  show "cc_Delete net H pick k x =
      map_option (\<lambda>(r, x). (case r of Inl err \<Rightarrow> Some err | Inr err \<Rightarrow> err, x)) (on_node net H k (client_Delete net k) x)"
    by (subst cc_Delete.simps)
      (auto split: Option.bind_split sum.split option.split simp: map_option_case dest!: on_node_result command_errors)
qed

section \<open>Reading the list of nodes\<close>

text \<open>Printable ASCII characters other than the space.\<close>

definition visible :: "char \<Rightarrow> bool" where
  "visible c \<longleftrightarrow> 33 \<le> (of_char c :: nat) \<and> (of_char c :: nat) < 127"

definition word_ok :: "string \<Rightarrow> bool" where
  "word_ok w \<longleftrightarrow> w \<noteq> [] \<and> list_all visible w"

lemma spaces_invisible: "\<forall>p \<in> set spaces. p \<noteq> [] \<and> \<not> visible (hd p) \<and> \<not> visible (hd (rev p))"
  by (simp add: spaces_def visible_def)

lemma spaces_ascii: "\<exists>ps. spaces = [CHR 0x09] # [CHR 0x0A] # [CHR 0x0B] # [CHR 0x0C] # [CHR 0x0D] # [CHR 0x20] # ps"
  by (simp add: spaces_def char_of_eq_iff)

lemma space_len_none: "\<forall>p \<in> set ps. p \<noteq> [] \<and> hd p \<noteq> c \<Longrightarrow> space_len ps (c # s) = 0"
proof -
  assume ps: "\<forall>p \<in> set ps. p \<noteq> [] \<and> hd p \<noteq> c"
  have "find (\<lambda>p. prefix p (c # s)) ps = None"
    unfolding find_None_iff using ps by (auto simp: prefix_Cons)
  then show ?thesis by (simp add: space_len_def)
qed

lemma visible_space [simp]:
  assumes "visible c"
  shows "space_len spaces (c # s) = 0" "space_len (map rev spaces) (c # s) = 0"
  using spaces_invisible assms by (auto intro!: space_len_none)

lemma space_len_ascii [simp]:
  "space_len spaces (CHR '' '' # s) = 1" "space_len (map rev spaces) (CHR 0x0A # s) = 1"
proof -
  obtain ps where ps: "spaces = [CHR 0x09] # [CHR 0x0A] # [CHR 0x0B] # [CHR 0x0C] # [CHR 0x0D] # [CHR 0x20] # ps"
    using spaces_ascii by blast
  show "space_len spaces (CHR '' '' # s) = 1" "space_len (map rev spaces) (CHR 0x0A # s) = 1"
    unfolding space_len_def ps by simp_all
qed

lemma fields_word: "list_all visible w \<Longrightarrow> fields_from acc (w @ s) = fields_from (acc @ w) s"
proof (induction w arbitrary: acc)
  case (Cons c w)
  then show ?case by (subst fields_from.simps) simp
qed simp

lemma Fields_line:
  assumes "word_ok a" and "word_ok b" and "word_ok c"
  shows "Fields (a @ '' '' @ b @ '' '' @ c) = [a, b, c]"
proof -
  have sp: "fields_from w (CHR '' '' # s) = w # fields_from [] s" if "w \<noteq> []" for w s
    using that by (subst fields_from.simps) simp
  have nil: "fields_from c [] = [c]" using assms(3) by (subst fields_from.simps) (simp add: word_ok_def)
  show ?thesis
    using assms fields_word[of a "[]" "CHR '' '' # b @ CHR '' '' # c"] fields_word[of b "[]" "CHR '' '' # c"] fields_word[of c "[]" "[]"] sp nil
    by (simp add: Fields_def word_ok_def)
qed

lemma trim_front_visible:
  assumes "s \<noteq> []" and "visible (hd s)"
  shows "trim_front spaces s = s" "trim_front (map rev spaces) s = s"
proof -
  obtain c x where s: "s = c # x" "visible c" using assms by (cases s) auto
  show "trim_front spaces s = s" using s by (subst trim_front.simps) simp
  show "trim_front (map rev spaces) s = s" using s by (subst trim_front.simps) simp
qed

lemma TrimSpace_visible: "s \<noteq> [] \<Longrightarrow> visible (hd s) \<Longrightarrow> visible (last s) \<Longrightarrow> TrimSpace s = s"
  by (simp add: TrimSpace_def hd_rev trim_front_visible)

lemma TrimSpace_line_end:
  assumes "s \<noteq> []" and "visible (hd s)" and "visible (last s)"
  shows "TrimSpace (s @ [CHR 0x0A]) = s"
proof -
  have "trim_front spaces (s @ [CHR 0x0A]) = s @ [CHR 0x0A]" using assms by (intro trim_front_visible(1)) simp_all
  moreover have "trim_front (map rev spaces) (CHR 0x0A # rev s) = rev s"
    using trim_front_visible(2)[of "rev s"] assms by (subst trim_front.simps) (simp add: hd_rev)
  ultimately show ?thesis by (simp add: TrimSpace_def)
qed

fun join_lines :: "string list \<Rightarrow> string" where
  "join_lines [] = []"
| "join_lines [l] = l"
| "join_lines (l # m # ls) = l @ CHR 0x0A # join_lines (m # ls)"

lemma concat_lines: "ls \<noteq> [] \<Longrightarrow> concat (map (\<lambda>l. l @ [CHR 0x0A]) ls) = join_lines ls @ [CHR 0x0A]"
  by (induction ls rule: join_lines.induct) simp_all

lemma Split_join: "ls \<noteq> [] \<Longrightarrow> \<forall>l \<in> set ls. CHR 0x0A \<notin> set l \<Longrightarrow> Split (join_lines ls) (CHR 0x0A) = ls"
  by (induction ls rule: join_lines.induct) (simp_all add: Split_append)

lemma join_ends:
  "ls \<noteq> [] \<Longrightarrow> \<forall>l \<in> set ls. l \<noteq> [] \<Longrightarrow> join_lines ls \<noteq> [] \<and> hd (join_lines ls) = hd (hd ls) \<and> last (join_lines ls) = last (last ls)"
  by (induction ls rule: join_lines.induct) auto

text \<open>The line of a node, and what the client makes of it.\<close>

definition line_of :: "CNodeInfo \<Rightarrow> string" where
  "line_of n = ci_ID n @ '' '' @ ci_Address n @ '' '' @ ci_Status n"

definition cnode_ok :: "CNodeInfo \<Rightarrow> bool" where
  "cnode_ok n \<longleftrightarrow> word_ok (ci_ID n) \<and> word_ok (ci_Address n) \<and> word_ok (ci_Status n)"

lemma line_of_facts:
  assumes "cnode_ok n"
  shows "line_of n \<noteq> []" "visible (hd (line_of n))" "visible (last (line_of n))" "CHR 0x0A \<notin> set (line_of n)"
proof -
  have nl: "CHR 0x0A \<notin> set w" if "list_all visible w" for w
    using that by (auto simp: list_all_iff visible_def dest!: bspec)
  obtain a as where a: "ci_ID n = a # as" "visible a" using assms by (cases "ci_ID n") (auto simp: cnode_ok_def word_ok_def)
  have "ci_Status n \<noteq> []" "visible (last (ci_Status n))" using assms by (auto simp: cnode_ok_def word_ok_def list_all_iff)
  moreover have "\<not> visible (CHR 0x0A)" by (simp add: visible_def)
  ultimately show "line_of n \<noteq> []" "visible (hd (line_of n))" "visible (last (line_of n))" "CHR 0x0A \<notin> set (line_of n)"
    using nl a assms by (auto simp: line_of_def cnode_ok_def word_ok_def)
qed

lemma node_entry_line: "cnode_ok n \<Longrightarrow> node_entry (line_of n) nodes = gset (ci_ID n) n nodes"
  using Fields_line[of "ci_ID n" "ci_Address n" "ci_Status n"] TrimSpace_visible[of "line_of n"] line_of_facts[of n]
  by (cases n) (simp add: node_entry_def cnode_ok_def line_of_def)

lemma parse_lines_not_Nil: "ns \<noteq> [] \<or> m \<noteq> [] \<Longrightarrow> fold (\<lambda>n. gset (ci_ID n) n) ns m \<noteq> []"
  by (induction ns arbitrary: m) auto

lemma parse_lines:
  assumes "ns \<noteq> []" and "list_all cnode_ok ns"
  shows "parseClusterNodes (concat (map (\<lambda>n. line_of n @ [CHR 0x0A]) ns)) cc =
    (None, cc\<lparr>cc_nodes := fold (\<lambda>n. gset (ci_ID n) n) ns []\<rparr>)"
proof -
  let ?ls = "map line_of ns"
  have f: "\<forall>l \<in> set ?ls. l \<noteq> [] \<and> CHR 0x0A \<notin> set l" using assms(2) line_of_facts by (auto simp: list_all_iff)
  have "visible (hd (hd ?ls))" "visible (last (last ?ls))"
    using assms line_of_facts by (auto simp: list_all_iff hd_map last_map)
  then have t: "TrimSpace (concat (map (\<lambda>l. l @ [CHR 0x0A]) ?ls)) = join_lines ?ls"
    using join_ends[of ?ls] assms(1) f by (simp add: concat_lines TrimSpace_line_end del: map_map)
  have "fold node_entry ?ls m = fold (\<lambda>n. gset (ci_ID n) n) ns m" for m
    using assms(2) by (induction ns arbitrary: m) (simp_all add: node_entry_line)
  then show ?thesis using t Split_join[of ?ls] f assms(1) parse_lines_not_Nil[of ns "[]"]
    by (simp add: parseClusterNodes_def comp_def)
qed

section \<open>Discovery from a server with health checks\<close>

definition listed :: "HealthChecker \<Rightarrow> NodeInfo \<Rightarrow> CNodeInfo" where
  "listed hc n = \<lparr>ci_ID = n_ID n, ci_Address = host_port (n_Host n) (n_Port n), ci_Status = status_String (GetNodeStatus hc (n_ID n))\<rparr>"

lemma node_line_listed: "node_line (Some hc) = (\<lambda>n. line_of (listed hc n) @ [CHR 0x0A])"
  by (simp add: fun_eq_iff node_line_def line_of_def listed_def)

lemma Itoa_visible: "list_all visible (Itoa n)"
proof -
  have "(of_char c :: int) = int (of_char c)" for c by (metis of_nat_of_char)
  then have "visible c" if "digit_val c \<noteq> None" for c
    using that by (auto simp only: digit_val_def visible_def Let_def split: if_splits)
  moreover have "visible (CHR ''-'')" by (simp add: visible_def)
  ultimately show ?thesis using all_digits_digits[of n] all_digits_digits[of "- n"]
    by (auto simp: Itoa_def all_digits_def list_all_iff)
qed

lemma listed_ok: "word_ok (n_ID n) \<Longrightarrow> word_ok (n_Host n) \<Longrightarrow> cnode_ok (listed hc n)"
proof -
  have "word_ok (status_String st)" for st by (cases st) (simp_all add: word_ok_def visible_def)
  moreover assume "word_ok (n_ID n)" "word_ok (n_Host n)"
  ultimately show ?thesis using Itoa_visible by (simp add: cnode_ok_def listed_def host_port_def word_ok_def) (simp add: visible_def)
qed

lemma status_not_active: "status_String st \<noteq> ''active''"
  by (cases st) simp_all

lemma fold_gset_ok: "gmap_ok m \<Longrightarrow> gmap_ok (fold (\<lambda>n. gset (ci_ID n) n) ns m)"
  by (induction ns arbitrary: m) (simp_all add: gmap_ok_gset)

lemma fold_gset_from:
  "(k, x) \<in> set (fold (\<lambda>n. gset (ci_ID n) n) ns m) \<Longrightarrow> x \<in> set ns \<or> (k, x) \<in> set m"
proof (induction ns arbitrary: m)
  case (Cons n ns)
  have "set (gset a b m) \<subseteq> insert (a, b) (set m)" for a b by (induction m) (auto split: if_splits)
  with Cons show ?case by fastforce
qed simp


definition sample_cluster :: "unit world" where
  "sample_cluster = sample_world (sample_state (\<lambda>_. 0) ''leader'' ''a''\<lparr>ns_healthChecker := Some (NewHealthChecker 1 1 1)\<rparr>)"

lemma sample_cluster_lines: "concat (map (node_line (Some (NewHealthChecker 1 1 1))) (c_Nodes (sample_config ''a''))) = ''a h:7000 dead'' @ [CHR 0x0A] @ ''b h:7001 dead'' @ [CHR 0x0A]"
  by code_simp


end
