(* ===== verification/Startup_Laws.thy ===== *)
theory Startup_Laws
  imports Startup Cluster_Client
begin

text \<open>
  What holds once the nodes have been started: the nodes of a cluster agree on the owner of every
  key, a server that is started again serves what it held before, and what the health callbacks do
  to the routing.
\<close>

section \<open>The ring of a new cluster\<close>

text \<open>Every position of the ring belongs to one of the shards \<open>S\<close>, and the ring is sorted.\<close>

definition ring_of :: "string set \<Rightarrow> HashRing \<Rightarrow> bool" where
  "ring_of S hr \<longleftrightarrow> sorted (hashValues hr) \<and> 0 < virtualNodes hr \<and> (S \<noteq> {} \<longrightarrow> hashValues hr \<noteq> []) \<and>
     (\<forall>p \<in> set (hashValues hr). \<exists>s \<in> S. gget (hashToShard hr) p = Some s)"

lemma ring_of_New: "0 < vn \<Longrightarrow> ring_of {} (NewHashRing vn)"
  by (simp add: ring_of_def NewHashRing_def)

lemma positions_not_Nil: "0 < vn \<Longrightarrow> positions H vn s \<noteq> []"
  by (simp add: positions_def)

lemma ring_of_AddShard:
  assumes "ring_of S hr" shows "ring_of (insert s S) (AddShard H s hr)"
proof -
  have "hashValues hr @ positions H (virtualNodes hr) s \<noteq> []" using assms positions_not_Nil by (simp add: ring_of_def)
  then have "hashValues (AddShard H s hr) \<noteq> []" unfolding AddShard_simps by (metis set_empty set_sort)
  with assms show ?thesis by (auto simp: ring_of_def AddShard_simps)
qed

lemma ring_of_address [simp]: "ring_of S (SetNodeAddress n a hr) = ring_of S hr"
  and ring_of_nodes [simp]: "ring_of S (SetShardNodes s ns hr) = ring_of S hr"
  by (simp_all add: ring_of_def SetNodeAddress_def SetShardNodes_def)

lemma GetShard_ring_of:
  assumes "ring_of S hr" and "S \<noteq> {}"
  shows "\<exists>s \<in> S. GetShard H k hr = Inr s"
proof -
  have "sorted (hashValues hr)" "hashValues hr \<noteq> []" using assms by (auto simp: ring_of_def)
  with assms show ?thesis using GetShard_succ[of hr H k] succ_pos_nearest(1)[of "hashValues hr" "H k"]
    by (auto simp: ring_of_def get0_def split: option.split)
qed

definition add_shard :: "(string \<Rightarrow> 32 word) \<Rightarrow> ShardInfo \<Rightarrow> HashRing \<Rightarrow> HashRing" where
  "add_shard H shard hr = SetShardNodes (sh_ShardID shard) (sh_LeaderID shard # sh_Followers shard) (AddShard H (sh_ShardID shard) hr)"

lemma shard_ring_fold: "shard_ring H cfg = fold (add_shard H) (c_Shards cfg) (NewHashRing 150)"
  by (simp add: shard_ring_def add_shard_def[abs_def])

lemma add_shards_ring: "ring_of S hr \<Longrightarrow> ring_of (sh_ShardID ` set shs \<union> S) (fold (add_shard H) shs hr)"
proof (induction shs arbitrary: S hr)
  case (Cons s shs)
  then have "ring_of (insert (sh_ShardID s) S) (add_shard H s hr)" by (simp add: add_shard_def ring_of_AddShard)
  from Cons.IH[OF this] show ?case by simp
qed simp

lemma add_shards_nodes:
  "distinct (map sh_ShardID shs) \<Longrightarrow>
   gget (shardToNodes (fold (add_shard H) shs hr)) k =
     (case find (\<lambda>s. sh_ShardID s = k) shs of
        Some s \<Rightarrow> Some (sh_LeaderID s # sh_Followers s) | None \<Rightarrow> gget (shardToNodes hr) k)"
proof (induction shs arbitrary: hr)
  case (Cons s shs)
  have "find (\<lambda>t. sh_ShardID t = sh_ShardID s) shs = None" using Cons.prems unfolding find_None_iff by auto (metis rev_image_eqI)
  with Cons show ?case by (auto simp: add_shard_def SetShardNodes_def gget_gset split: option.split)
qed simp

lemma find_shard: "s \<in> set shs \<Longrightarrow> distinct (map sh_ShardID shs) \<Longrightarrow> find (\<lambda>t. sh_ShardID t = sh_ShardID s) shs = Some s"
  by (induction shs) force+

lemma add_shards_size: "virtualNodes (fold (add_shard H) shs hr) = virtualNodes hr"
  by (induction shs arbitrary: hr) (simp_all add: add_shard_def SetShardNodes_def AddShard_simps)

lemma shard_ring_facts:
  assumes "distinct (map sh_ShardID (c_Shards cfg))"
  shows "sorted (hashValues (shard_ring H cfg))" and "virtualNodes (shard_ring H cfg) = 150"
    and "nid \<notin> sh_ShardID ` set (c_Shards cfg) \<Longrightarrow> gget (shardToNodes (shard_ring H cfg)) nid = None"
proof -
  show "sorted (hashValues (shard_ring H cfg))"
    using add_shards_ring[OF ring_of_New, of 150 "c_Shards cfg" H] by (simp add: shard_ring_fold ring_of_def)
  show "virtualNodes (shard_ring H cfg) = 150" by (simp add: shard_ring_fold add_shards_size NewHashRing_def)
  assume "nid \<notin> sh_ShardID ` set (c_Shards cfg)"
  then have "find (\<lambda>s. sh_ShardID s = nid) (c_Shards cfg) = None" by (auto simp: find_None_iff)
  then show "gget (shardToNodes (shard_ring H cfg)) nid = None"
    using add_shards_nodes[OF assms, of H "NewHashRing 150" nid] by (simp add: shard_ring_fold NewHashRing_def)
qed

text \<open>Every key has a shard of the configuration, and the ring knows the leader of that shard.\<close>

lemma shard_ring_owner:
  assumes "c_Shards cfg \<noteq> []" and "distinct (map sh_ShardID (c_Shards cfg))"
  shows "\<exists>shard \<in> set (c_Shards cfg). GetShard H k (shard_ring H cfg) = Inr (sh_ShardID shard) \<and>
    GetShardLeader (sh_ShardID shard) (shard_ring H cfg) = Inr (sh_LeaderID shard)"
proof -
  have "ring_of (sh_ShardID ` set (c_Shards cfg)) (shard_ring H cfg)"
    using add_shards_ring[OF ring_of_New, of 150 "c_Shards cfg" H] by (simp add: shard_ring_fold)
  from GetShard_ring_of[OF this, of H k] assms(1) obtain shard where
    "shard \<in> set (c_Shards cfg)" "GetShard H k (shard_ring H cfg) = Inr (sh_ShardID shard)" by auto
  then show ?thesis using add_shards_nodes[OF assms(2), of H "NewHashRing 150" "sh_ShardID shard"] find_shard[OF _ assms(2), of shard]
    by (auto simp: shard_ring_fold GetShardLeader_def GetShardNodes_def)
qed

section \<open>The node state after a start\<close>

lemma update_ring_simps [simp]:
  "ns_config (update_ring f ns) = ns_config ns" "ns_role (update_ring f ns) = ns_role ns"
  "ns_leader (update_ring f ns) = ns_leader ns" "ns_hashRing (update_ring f ns) = map_option f (ns_hashRing ns)"
  by (simp_all add: update_ring_def)

lemma set_addresses_simps [simp]:
  "ns_config (set_addresses cfg ns) = ns_config ns" "ns_role (set_addresses cfg ns) = ns_role ns"
proof -
  have "ns_config (fold (\<lambda>node. update_ring (f node)) xs ns) = ns_config ns \<and> ns_role (fold (\<lambda>node. update_ring (f node)) xs ns) = ns_role ns"
    for f :: "NodeInfo \<Rightarrow> HashRing \<Rightarrow> HashRing" and xs by (induction xs arbitrary: ns) auto
  then show "ns_config (set_addresses cfg ns) = ns_config ns" "ns_role (set_addresses cfg ns) = ns_role ns"
    by (simp_all add: set_addresses_def)
qed

text \<open>Addresses change nothing that the routing looks at.\<close>

definition same_routing :: "HashRing \<Rightarrow> HashRing \<Rightarrow> bool" where
  "same_routing hr hr' \<longleftrightarrow> hashValues hr' = hashValues hr \<and> hashToShard hr' = hashToShard hr \<and>
     shardToNodes hr' = shardToNodes hr \<and> virtualNodes hr' = virtualNodes hr"

lemma same_routing_lookups:
  "same_routing hr hr' \<Longrightarrow> GetShard H k hr' = GetShard H k hr \<and> GetShardLeader s hr' = GetShardLeader s hr"
  by (simp add: same_routing_def GetShard_def GetShardLeader_def GetShardNodes_def)

lemma same_routing_address: "same_routing (SetNodeAddress n a hr) hr' = same_routing hr hr'"
  by (simp add: same_routing_def SetNodeAddress_def)

lemma set_addresses_ring:
  "ns_hashRing ns = Some hr \<Longrightarrow> \<exists>hr'. ns_hashRing (set_addresses cfg ns) = Some hr' \<and> same_routing hr hr'"
proof -
  have "ns_hashRing ns = Some hr \<Longrightarrow>
      \<exists>hr'. ns_hashRing (fold (\<lambda>node. update_ring (SetNodeAddress (i node) (a node))) xs ns) = Some hr' \<and> same_routing hr hr'"
    for i a :: "NodeInfo \<Rightarrow> string" and xs
  proof (induction xs arbitrary: ns hr)
    case (Cons x xs)
    then have "ns_hashRing (update_ring (SetNodeAddress (i x) (a x)) ns) = Some (SetNodeAddress (i x) (a x) hr)" by simp
    from Cons.IH[OF this] show ?case by (simp add: same_routing_address)
  qed (simp add: same_routing_def)
  then show "ns_hashRing ns = Some hr \<Longrightarrow> \<exists>hr'. ns_hashRing (set_addresses cfg ns) = Some hr' \<and> same_routing hr hr'"
    by (simp add: set_addresses_def)
qed

lemmas node_state_defs = NewNodeState_def SetHashRing_def SetConfig_def SetMigrator_def SetCache_def SetHealthChecker_def SetLeader_def
  SetLeaderAddr_def

text \<open>The routing data of a node that \<open>StartClusterMode\<close> brought up as a member of a shard.\<close>

definition routes_by :: "HashRing \<Rightarrow> Config \<Rightarrow> string \<Rightarrow> int \<Rightarrow> 's node \<Rightarrow> bool" where
  "routes_by hr0 cfg role port nd \<longleftrightarrow> (\<exists>hr. ns_hashRing (w_node (nd_world nd)) = Some hr \<and> same_routing hr0 hr) \<and>
     ns_config (w_node (nd_world nd)) = Some cfg \<and> ns_role (w_node (nd_world nd)) = role \<and> nd_port nd = port"

lemma listener_routes:
  assumes "startClientListener b net port c a ns f = Some nd" and "ns_hashRing ns = ns_hashRing (set_addresses cfg (SetHashRing hr ns0))"
    and "ns_config ns = Some cfg" and "ns_role ns = role"
  shows "routes_by hr cfg role port nd"
  using set_addresses_ring[of "SetHashRing hr ns0" hr cfg] assms
  by (auto simp: startClientListener_def routes_by_def SetHashRing_def split: if_splits)

lemma startAsLeader_routes: "startAsLeader b net me c a cfg hr = Some nd \<Longrightarrow> routes_by hr cfg ''leader'' (n_Port me) nd"
  unfolding startAsLeader_def Let_def
  by (split sum.splits, auto elim!: listener_routes[where ?ns0.0 = "SetConfig cfg (NewNodeState ''leader'' None [])"] simp: node_state_defs)

lemma startAsFollower_routes:
  assumes "startAsFollower b net me c a la nodes cfg hr = Some (Some nd)"
  shows "routes_by hr cfg ''follower'' (n_Port me) nd"
proof -
  obtain leaderNode fl hc addr where "startClientListener b net (n_Port me) c a
      (SetLeaderAddr addr (SetHealthChecker hc (SetCache (SetMigrator NewMigrator
        (set_addresses cfg (SetHashRing hr (SetConfig cfg (NewNodeState ''follower'' None la)))))))) (Some fl) = Some nd"
    using assms unfolding startAsFollower_def Let_def
    by (cases "GetHighestPriorityNode cfg") (auto split: sum.splits)
  then show ?thesis
    by (rule listener_routes[where ?ns0.0 = "SetConfig cfg (NewNodeState ''follower'' None la)"]) (auto simp: node_state_defs)
qed

lemma booted_node_Listening: "booted_node b a x = Listening nd \<longleftrightarrow> x = Some nd"
  by (simp add: booted_node_def split: option.split)

lemma started_node_routes:
  assumes "StartClusterMode b net cfg = Some (Listening nd)" and "GetMyNode cfg = Inr me"
  shows "routes_by (shard_ring (b_hash b) cfg) cfg (if IsShardLeader cfg then ''leader'' else ''follower'') (n_Port me) nd"
proof -
  obtain store where l: "load_store b cfg = Some store" using assms by (cases "load_store b cfg") (auto simp: StartClusterMode_def)
  then obtain c a where "store = Inr (c, a)" using assms by (cases store) (auto simp: StartClusterMode_def)
  note start = assms[unfolded StartClusterMode_def, simplified l this Let_def, simplified]
  show ?thesis
  proof (cases "IsShardLeader cfg")
    case True
    with start show ?thesis by (auto simp: booted_node_Listening intro: startAsLeader_routes)
  next
    case False
    with start show ?thesis
      by (auto simp: booted_node_Listening bind_eq_Some_conv split: sum.splits option.splits intro: startAsFollower_routes)
  qed
qed

definition shard_nodes :: "ShardInfo \<Rightarrow> string list" where
  "shard_nodes shard = sh_LeaderID shard # sh_Followers shard"

text \<open>
  A configuration of a cluster: there are shards with different names, every node belongs to one
  shard only, the nodes have names, and the nodes of the shards are listed.
\<close>

definition cluster_ok :: "Config \<Rightarrow> bool" where
  "cluster_ok cfg \<longleftrightarrow> c_Shards cfg \<noteq> [] \<and> distinct (map sh_ShardID (c_Shards cfg)) \<and>
     distinct (concat (map shard_nodes (c_Shards cfg))) \<and>
     (\<forall>shard \<in> set (c_Shards cfg). \<forall>nid \<in> set (shard_nodes shard). nid \<noteq> [] \<and> nid \<in> n_ID ` set (c_Nodes cfg))"

lemma member_listed:
  assumes "cluster_ok cfg" and "shard \<in> set (c_Shards cfg)" and "nid \<in> set (shard_nodes shard)"
  shows "nid \<noteq> []" and "\<exists>n. find (\<lambda>n. n_ID n = nid) (c_Nodes cfg) = Some n \<and> n_ID n = nid"
proof -
  have "nid \<in> n_ID ` set (c_Nodes cfg)" and "nid \<noteq> []" using assms by (auto simp: cluster_ok_def)
  then have "find (\<lambda>n. n_ID n = nid) (c_Nodes cfg) \<noteq> None" by (auto simp: find_None_iff)
  then obtain n where "find (\<lambda>n. n_ID n = nid) (c_Nodes cfg) = Some n" by auto
  moreover from this have "n_ID n = nid" by (auto simp: find_Some_iff)
  ultimately show "nid \<noteq> []" and "\<exists>n. find (\<lambda>n. n_ID n = nid) (c_Nodes cfg) = Some n \<and> n_ID n = nid"
    using \<open>nid \<noteq> []\<close> by auto
qed

lemma find_member:
  "distinct (concat (map shard_nodes shs)) \<Longrightarrow> shard \<in> set shs \<Longrightarrow> nid \<in> set (shard_nodes shard) \<Longrightarrow>
   find (\<lambda>s. sh_LeaderID s = nid \<or> nid \<in> set (sh_Followers s)) shs = Some shard"
proof (induction shs)
  case (Cons s shs)
  show ?case
  proof (cases "s = shard")
    case False
    then have "nid \<in> set (concat (map shard_nodes shs))" using Cons.prems by auto
    then have "nid \<notin> set (shard_nodes s)" using Cons.prems(1) by auto
    then show ?thesis using Cons False by (auto simp: shard_nodes_def)
  qed (use Cons.prems(3) in \<open>auto simp: shard_nodes_def\<close>)
qed simp

lemma GetShardForNode_member:
  "cluster_ok cfg \<Longrightarrow> shard \<in> set (c_Shards cfg) \<Longrightarrow> nid \<in> set (shard_nodes shard) \<Longrightarrow> GetShardForNode cfg nid = Inr shard"
  using find_member[of "c_Shards cfg" shard nid] by (simp add: cluster_ok_def GetShardForNode_def)

lemma IsShardLeader_member:
  assumes "cluster_ok cfg" and "shard \<in> set (c_Shards cfg)" and "c_NodeID cfg \<in> set (shard_nodes shard)"
  shows "IsShardLeader cfg \<longleftrightarrow> c_NodeID cfg = sh_LeaderID shard"
proof -
  have "s = shard" if "s \<in> set (c_Shards cfg)" "sh_LeaderID s = c_NodeID cfg" for s
    using GetShardForNode_member[OF assms] GetShardForNode_member[OF assms(1) that(1), of "c_NodeID cfg"] that(2) by (simp add: shard_nodes_def)
  then show ?thesis using assms(2) by (auto simp: IsShardLeader_def list_ex_iff)
qed


definition sample_boot :: "(string \<Rightarrow> 32 word) \<Rightarrow> boot" where
  "sample_boot H = \<lparr>b_io = \<lambda>_. True, b_disk = [], b_clockS = \<lambda>_. 5, b_clockA = \<lambda>_. 5, b_now = \<lambda>_. 5, b_binds = \<lambda>_ _. True,
     b_dynamic = None, b_accepts = True, b_uuid = ''u'', b_hash = H, b_metrics = []\<rparr>"

section \<open>Loading\<close>

text \<open>The system calls succeed and the ports are free.\<close>

definition boots :: "boot \<Rightarrow> bool" where
  "boots b \<longleftrightarrow> (\<forall>s. b_io b s) \<and> (\<forall>i port. b_binds b i port) \<and> b_accepts b"

lemma load_store_log:
  assumes "boots b" and "list_all op_wf ops" and "file_text (b_disk b) (c_AOFFileName cfg) = log_bytes ops"
    and "gget (b_disk b) (c_SnapshotFileName cfg) = None" and "c_SnapshotFileName cfg \<noteq> c_AOFFileName cfg"
    and "int (card (op_Key ` set ops)) \<le> c_MaxCacheSize cfg"
  shows "\<exists>c a. load_store b cfg = Some (Inr (c, a)) \<and> cache_ready c \<and> cache_room c = nat (c_MaxCacheSize cfg) \<and>
    entries c = fold op_eff (zip (map (b_clockA b) [0..<length ops]) ops) Map.empty \<and>
    file_open a \<and> fileName a = c_AOFFileName cfg \<and> policy a = GetSyncPolicy cfg \<and> stable a = length (log_text a) \<and>
    gget (disk a) (fileName a) = Some (log_text a) \<and> log_text a = log_bytes ops \<and> gget (disk a) (c_SnapshotFileName cfg) = None"
proof -
  obtain a where a: "NewAOF (b_io b) (c_AOFFileName cfg) (c_SnapshotFileName cfg) (GetSyncPolicy cfg) (c_GrowthFactor cfg) (b_disk b) = Inr a"
    "file_open a" "fileName a = c_AOFFileName cfg" "snapshotName a = c_SnapshotFileName cfg" "policy a = GetSyncPolicy cfg"
    "disk a = open_create (c_AOFFileName cfg) (b_disk b)" "stable a = length (log_text a)"
    using assms(1) by (auto simp: NewAOF_def boots_def Let_def)
  have d: "gget (disk a) (fileName a) = Some (log_bytes ops)" "gget (disk a) (snapshotName a) = None"
    using assms(3-5) a(3,4,6) by (auto simp: open_create_def file_text_def gget_gset split: option.splits)
  then have "log_text a = log_bytes ops" by (simp add: file_text_def)
  with RecoverAOF_log[OF assms(2) d(1) _ d(2) assms(6), of "b_io b" "b_clockS b" "b_clockA b" "b_metrics b"] a d assms(1) show ?thesis
    by (auto simp: load_store_def boots_def)
qed

text \<open>A member of a shard whose system calls succeed starts from an empty disk.\<close>

lemma StartClusterMode_fresh:
  assumes "boots b" and "b_disk b = []" and "c_SnapshotFileName cfg \<noteq> c_AOFFileName cfg" and "0 \<le> c_MaxCacheSize cfg"
    and "cluster_ok cfg" and "mine \<in> set (c_Shards cfg)" and "c_NodeID cfg \<in> set (shard_nodes mine)"
  shows "\<exists>nd. StartClusterMode b net cfg = Some (Listening nd) \<and> cache_ready (w_cache (nd_world nd)) \<and> entries (w_cache (nd_world nd)) = Map.empty"
proof -
  obtain c a where l: "load_store b cfg = Some (Inr (c, a))" "cache_ready c" "entries c = Map.empty"
    using load_store_log[OF assms(1), of "[]" cfg] assms(2-4) by (auto simp: file_text_def)
  obtain me where me: "GetMyNode cfg = Inr me" "n_ID me \<noteq> []"
    using member_listed[OF assms(5-7)] by (auto simp: GetMyNode_def)
  have addr: "host_port h p \<noteq> []" for h p by (simp add: host_port_def)
  show ?thesis
  proof (cases "IsShardLeader cfg")
    case True
    then show ?thesis using assms(1) l me(1)
      by (simp add: StartClusterMode_def startAsLeader_def startClientListener_def booted_node_def boots_def NewLeader_def Let_def)
  next
    case False
    have m: "GetShardForNode cfg (c_NodeID cfg) = Inr mine" by (rule GetShardForNode_member[OF assms(5-7)])
    obtain ld where ld: "find (\<lambda>n. n_ID n = sh_LeaderID mine) (c_Nodes cfg) = Some ld" 
      using member_listed(2)[OF assms(5,6), of "sh_LeaderID mine"] by (auto simp: shard_nodes_def)
    obtain top where "GetHighestPriorityNode cfg = Some top"
      using ld by (cases "c_Nodes cfg") (simp_all add: GetHighestPriorityNode_def)
    then obtain nd where "startAsFollower b net me c a (host_port (n_Host ld) (n_ReplPort ld)) (c_Nodes cfg) cfg (shard_ring (b_hash b) cfg) = Some (Some nd)"
      "w_cache (nd_world nd) = c"
      using assms(1) m me(2) ld addr by (simp add: startAsFollower_def startClientListener_def NewFollower_def repl_addr_def boots_def Let_def)
    then show ?thesis using False l me(1) m ld by (simp add: StartClusterMode_def booted_node_def)
  qed
qed


lemma Start_leader:
  assumes "boots b" and "c_Role cfg = ''leader''" and "load_store b cfg = Some (Inr (c, a))"
  shows "\<exists>s nd. Start b net (New_server cfg) = Some (s, Listening nd) \<and> w_cache (nd_world nd) = c \<and> w_aof (nd_world nd) = a \<and>
    w_ps (nd_world nd) = NewPubSub \<and> nd_port nd = c_Port cfg \<and> ns_role (w_node (nd_world nd)) = ''leader'' \<and> ns_config (w_node (nd_world nd)) = None"
proof -
  obtain leader where "start_leader b cfg = Some (leader, simple_repl_port (c_Port cfg))"
    using assms(1) by (auto simp: start_leader_def NewLeader_def boots_def Let_def)
  then show ?thesis using assms by (auto simp: Start_def New_server_def boots_def NewNodeState_def SetLeader_def)
qed

lemma dom_map_steps: "dom (fold map_step rs m) \<subseteq> dom m \<union> key_of ` set rs"
proof (induction rs arbitrary: m)
  case (Cons r rs)
  have "dom (map_step r m) \<subseteq> dom m \<union> {key_of r}" by (cases r) auto
  with Cons[of "map_step r m"] show ?case by auto
qed simp

text \<open>A server whose log holds the requests \<open>rs\<close> starts and serves further requests.\<close>

lemma started_serves:
  assumes "boots b" and "c_Role cfg = ''leader''" and "c_SnapshotFileName cfg \<noteq> c_AOFFileName cfg"
    and "gget (b_disk b) (c_SnapshotFileName cfg) = None" and "file_text (b_disk b) (c_AOFFileName cfg) = log_bytes (ops_of rs)"
    and "list_all request_ok (rs @ qs)" and "int (card (key_of ` set (rs @ qs))) \<le> c_MaxCacheSize cfg" and "ranges pick"
  shows "\<exists>s nd w'. Start b net (New_server cfg) = Some (s, Listening nd) \<and>
    handleConnection envs (\<lambda>_ w. w) pick con (request_bytes qs) (nd_world nd) = Some (map_replies qs (fold map_step rs Map.empty), w') \<and>
    holds_map (w_cache w') (fold map_step (rs @ qs) Map.empty) \<and> w_aof w' = logs envs 0 qs (w_aof (nd_world nd)) \<and>
    file_open (w_aof (nd_world nd)) \<and> fileName (w_aof (nd_world nd)) = c_AOFFileName cfg \<and> policy (w_aof (nd_world nd)) = GetSyncPolicy cfg \<and>
    stable (w_aof (nd_world nd)) = length (log_text (w_aof (nd_world nd))) \<and> log_text (w_aof (nd_world nd)) = log_bytes (ops_of rs) \<and>
    gget (disk (w_aof (nd_world nd))) (c_AOFFileName cfg) = Some (log_bytes (ops_of rs)) \<and>
    gget (disk (w_aof (nd_world nd))) (c_SnapshotFileName cfg) = None"
proof -
  let ?m = "fold map_step rs Map.empty" and ?K = "key_of ` set (rs @ qs)"
  have "card (op_Key ` set (ops_of rs)) \<le> card ?K" using ops_of_keys[of rs] by (intro card_mono) auto
  then have "int (card (op_Key ` set (ops_of rs))) \<le> c_MaxCacheSize cfg" using assms(7) by simp
  from load_store_log[OF assms(1) ops_of_wf assms(5,4,3) this] assms(6) obtain c a where a:
    "load_store b cfg = Some (Inr (c, a))" "cache_ready c" "cache_room c = nat (c_MaxCacheSize cfg)"
    "entries c = fold op_eff (zip (map (b_clockA b) [0..<length (ops_of rs)]) (ops_of rs)) Map.empty"
    "file_open a" "fileName a = c_AOFFileName cfg" "policy a = GetSyncPolicy cfg" "stable a = length (log_text a)"
    "gget (disk a) (c_AOFFileName cfg) = Some (log_text a)" "log_text a = log_bytes (ops_of rs)" "gget (disk a) (c_SnapshotFileName cfg) = None"
    by auto
  obtain s nd where nd: "Start b net (New_server cfg) = Some (s, Listening nd)" "w_cache (nd_world nd) = c" "w_aof (nd_world nd) = a"
    "w_ps (nd_world nd) = NewPubSub" "ns_role (w_node (nd_world nd)) = ''leader''" "ns_config (w_node (nd_world nd)) = None"
    using Start_leader[OF assms(1,2) a(1), of net] by auto
  have "holds_map (w_cache (nd_world nd)) ?m"
    using a(2,4) op_eff_steps[of "b_clockA b" 0 rs Map.empty] nd(2) by (simp add: holds_map_def)
  moreover have "card ?K \<le> cache_room (w_cache (nd_world nd))" using assms(7) a(3) nd(2) by simp
  moreover have "dom ?m \<union> key_of ` set qs \<subseteq> ?K" using dom_map_steps[of rs Map.empty] by auto
  moreover have "\<forall>i. serves (envs i) (w_node (nd_world nd))" using nd(5,6) by (simp add: serves_single)
  moreover have "ps_ok (w_ps (nd_world nd))" using nd(4) by (simp add: ps_ok_New)
  ultimately obtain w' where "handleConnection envs (\<lambda>_ w. w) pick con (request_bytes qs) (nd_world nd) = Some (map_replies qs ?m, w')"
    "holds_map (w_cache w') (fold map_step qs ?m)" "w_aof w' = logs envs 0 qs (w_aof (nd_world nd))"
    using serve_connection[of "nd_world nd" ?m ?K qs envs pick con] assms(6,8) by auto
  with nd a show ?thesis by auto
qed



section \<open>Health callbacks\<close>

text \<open>The ring gives the position \<open>p\<close> to \<open>nid\<close>, and \<open>nid\<close> has no nodes.\<close>

definition entered :: "string \<Rightarrow> 32 word \<Rightarrow> HashRing \<Rightarrow> bool" where
  "entered nid p hr \<longleftrightarrow> p \<in> set (hashValues hr) \<and> gget (hashToShard hr) p = Some nid"

lemma entered_GetShard: "sorted (hashValues hr) \<Longrightarrow> entered nid (H k) hr \<Longrightarrow> GetShard H k hr = Inr nid"
proof -
  assume h: "sorted (hashValues hr)" "entered nid (H k) hr"
  then have "succ_pos (H k) (hashValues hr) = H k" by (intro succ_pos_unique) (auto simp: entered_def)
  moreover have "hashValues hr \<noteq> []" using h(2) by (auto simp: entered_def)
  ultimately show ?thesis using h GetShard_succ[of hr H k] by (simp add: entered_def get0_def)
qed

lemma entered_AddShard:
  "0 < virtualNodes hr \<Longrightarrow> entered nid (H (virtualKey nid 0)) (AddShard H nid hr)"
  by (auto simp: entered_def AddShard_simps positions_def)

lemma recovered_ring:
  assumes "ns_hashRing ns = Some hr" and "sorted (hashValues hr)" and "0 < virtualNodes hr" and "nid \<in> n_ID ` set (c_Nodes cfg)"
  shows "\<exists>hr'. ns_hashRing (node_recovered H cfg nid ns) = Some hr' \<and> sorted (hashValues hr') \<and> shardToNodes hr' = shardToNodes hr \<and>
    entered nid (H (virtualKey nid 0)) hr' \<and> ns_config (node_recovered H cfg nid ns) = ns_config ns"
proof -
  have "\<exists>hr'. ns_hashRing (fold (\<lambda>node ns. if n_ID node = nid
        then update_ring (\<lambda>hr. SetNodeAddress nid (host_port (n_Host node) (n_Port node)) (AddShard H nid hr)) ns else ns) nodes ns) = Some hr' \<and>
      sorted (hashValues hr') \<and> shardToNodes hr' = shardToNodes hr \<and>
      (entered nid (H (virtualKey nid 0)) hr \<or> nid \<in> n_ID ` set nodes \<longrightarrow> entered nid (H (virtualKey nid 0)) hr') \<and>
      ns_config (fold (\<lambda>node ns. if n_ID node = nid
        then update_ring (\<lambda>hr. SetNodeAddress nid (host_port (n_Host node) (n_Port node)) (AddShard H nid hr)) ns else ns) nodes ns) = ns_config ns"
    for nodes :: "NodeInfo list"
    using assms(1-3)
  proof (induction nodes arbitrary: ns hr)
    case (Cons x nodes)
    show ?case
    proof (cases "n_ID x = nid")
      case True
      let ?hr = "SetNodeAddress nid (host_port (n_Host x) (n_Port x)) (AddShard H nid hr)"
      have "entered nid (H (virtualKey nid 0)) ?hr" using entered_AddShard[OF Cons.prems(3)] by (simp add: entered_def SetNodeAddress_def)
      moreover have "sorted (hashValues ?hr)" "0 < virtualNodes ?hr" "shardToNodes ?hr = shardToNodes hr"
        using Cons.prems(3) by (simp_all add: SetNodeAddress_def AddShard_simps)
      ultimately show ?thesis
        using Cons.IH[of "update_ring (\<lambda>hr. SetNodeAddress nid (host_port (n_Host x) (n_Port x)) (AddShard H nid hr)) ns" ?hr] Cons.prems(1) True
        by simp
    qed (use Cons in auto)
  qed simp
  from this[of "c_Nodes cfg"] assms(4) show ?thesis by (simp add: node_recovered_def)
qed

lemma RemoveShard_nodes [simp]: "shardToNodes (RemoveShard H s hr) = shardToNodes hr"
proof -
  have "shardToNodes (fold (\<lambda>i hr. hr\<lparr>hashToShard := gdel (f i) (hashToShard hr), hashValues := remove1 (f i) (hashValues hr)\<rparr>) is hr) = shardToNodes hr"
    for f and "is" :: "nat list" by (induction "is" arbitrary: hr) auto
  then show ?thesis by (simp add: RemoveShard_def Let_def)
qed

text \<open>
  A node that fails and comes back takes keys with it. The health callbacks of a leader remove and
  add the name of the node, but the ring is one of shards. After the node has recovered, the ring gives
  keys to a shard that has no leader. Such a key, which before was redirected to the leader of its
  shard, is then looked up here and answered as if it did not exist.
\<close>

lemma recovery_hides_keys:
  assumes "cluster_ok cfg" and "mine \<in> set (c_Shards cfg)" and "c_NodeID cfg \<in> set (shard_nodes mine)"
    and "StartClusterMode b net cfg = Some (Listening nd)" and "b_hash b = e_hash env"
    and "nid \<in> n_ID ` set (c_Nodes cfg)" and "nid \<notin> sh_ShardID ` set (c_Shards cfg)"
    and "GetShard (e_hash env) (virtualKey nid 0) (shard_ring (e_hash env) cfg) = Inr sid" and "sid \<noteq> sh_ShardID mine"
    and "cache_ready (w_cache (nd_world nd))" and "entries (w_cache (nd_world nd)) (virtualKey nid 0) = None"
  shows "fst (ShouldForwardRequest (e_hash env) (virtualKey nid 0) False (w_node (nd_world nd))) \<and>
    (\<exists>w'. route_command env (Str ''GET'') (map Str [''GET'', virtualKey nid 0]) cs
        ((nd_world nd)\<lparr>w_node := fold (health_callback (e_hash env) cfg) [NodeFailed nid, NodeRecovered nid] (w_node (nd_world nd))\<rparr>) =
      Some (EncodeBulkString [] True, cs, w'))"
proof -
  let ?H = "e_hash env" and ?ns = "w_node (nd_world nd)" and ?k = "virtualKey nid 0"
  note id = member_listed[OF assms(1-3)]
  then obtain me where "GetMyNode cfg = Inr me" by (auto simp: GetMyNode_def)
  from started_node_routes[OF assms(4) this] obtain hr where hr: "ns_hashRing ?ns = Some hr" "same_routing (shard_ring ?H cfg) hr" "ns_config ?ns = Some cfg"
    using assms(5) by (auto simp: routes_by_def)
  have s: "c_Shards cfg \<noteq> []" "distinct (map sh_ShardID (c_Shards cfg))" using assms(1) by (auto simp: cluster_ok_def)
  have mine: "GetShardForNode cfg (c_NodeID cfg) = Inr mine" by (rule GetShardForNode_member[OF assms(1-3)])
  have mode: "IsClusterMode cfg" using assms(6) id(1) by (auto simp: IsClusterMode_def)
  obtain lead where "GetShardLeader sid (shard_ring ?H cfg) = Inr lead" using shard_ring_owner[OF s, of ?H ?k] assms(8) by auto
  then have fwd: "fst (ShouldForwardRequest ?H ?k False ?ns)"
    using same_routing_lookups[OF hr(2), of ?H ?k sid] hr assms(8,9) mine mode by (simp add: ShouldForwardRequest_def state_IsClusterMode_def)
  let ?hr1 = "SetNodeAddress nid [] (RemoveShard ?H nid hr)"
  have "sorted (hashValues hr)" "virtualNodes hr = 150" "gget (shardToNodes hr) nid = None"
    using hr(2) shard_ring_facts[where H = ?H, OF s(2)] assms(7) by (auto simp: same_routing_def)
  then have "sorted (hashValues ?hr1)" "0 < virtualNodes ?hr1" "gget (shardToNodes ?hr1) nid = None"
    by (simp_all add: SetNodeAddress_def RemoveShard_simps fold_remove1_sorted)
  with recovered_ring[of "node_failed ?H nid ?ns" ?hr1 nid cfg ?H] obtain hr' where hr': 
    "ns_hashRing (node_recovered ?H cfg nid (node_failed ?H nid ?ns)) = Some hr'" "GetShard ?H ?k hr' = Inr nid" "gget (shardToNodes hr') nid = None"
    "ns_config (node_recovered ?H cfg nid (node_failed ?H nid ?ns)) = Some cfg"
    using hr(1,3) assms(6) by (auto simp: node_failed_def dest: entered_GetShard)
  then have "\<not> fst (ShouldForwardRequest ?H ?k False (node_recovered ?H cfg nid (node_failed ?H nid ?ns)))"
    using mine by (simp add: ShouldForwardRequest_def GetShardLeader_def GetShardNodes_def)
  with fwd show ?thesis
    using local_miss[of env ?k "(nd_world nd)\<lparr>w_node := fold (health_callback ?H cfg) [NodeFailed nid, NodeRecovered nid] ?ns\<rparr>" cs] assms(10,11)
    by (auto simp: health_callback_def)
qed

definition two_shards :: Config where
  "two_shards = DefaultConfig\<lparr>c_NodeID := ''a'', c_Nodes := [sample_node ''a'' 7000, sample_node ''b'' 7001],
     c_Shards := [\<lparr>sh_ShardID = ''s'', sh_LeaderID = ''a'', sh_Followers = []\<rparr>, \<lparr>sh_ShardID = ''t'', sh_LeaderID = ''b'', sh_Followers = []\<rparr>]\<rparr>"

text \<open>A hash function under which the key \<open>b-0\<close> belongs to the shard \<open>t\<close>.\<close>

definition sample_hash :: "string \<Rightarrow> 32 word" where
  "sample_hash k = (if hd k = CHR ''s'' then 5 else 9)"

lemma recovery_hides_keys_witness:
  "\<exists>nd w'. StartClusterMode (sample_boot sample_hash) () two_shards = Some (Listening nd) \<and>
    fst (ShouldForwardRequest sample_hash ''b-0'' False (w_node (nd_world nd))) \<and>
    route_command (sample_env\<lparr>e_hash := sample_hash\<rparr>) (Str ''GET'') (map Str [''GET'', ''b-0'']) fresh_connection
        ((nd_world nd)\<lparr>w_node := fold (health_callback sample_hash two_shards) [NodeFailed ''b'', NodeRecovered ''b''] (w_node (nd_world nd))\<rparr>) =
      Some (EncodeBulkString [] True, fresh_connection, w')"
proof -
  let ?s = "\<lparr>sh_ShardID = ''s'', sh_LeaderID = ''a'', sh_Followers = []\<rparr>" and ?b = "sample_boot sample_hash" and ?env = "sample_env\<lparr>e_hash := sample_hash\<rparr>"
  have ok: "cluster_ok two_shards" by (auto simp: cluster_ok_def shard_nodes_def two_shards_def sample_node_def)
  have mine: "?s \<in> set (c_Shards two_shards)" "c_NodeID two_shards \<in> set (shard_nodes ?s)" by (simp_all add: two_shards_def shard_nodes_def)
  have "boots ?b" "b_disk ?b = []" by (simp_all add: boots_def sample_boot_def)
  then obtain nd where nd: "StartClusterMode ?b () two_shards = Some (Listening nd)" "cache_ready (w_cache (nd_world nd))" "entries (w_cache (nd_world nd)) = Map.empty"
    using StartClusterMode_fresh[OF _ _ _ _ ok mine, of ?b "()"] by (auto simp: two_shards_def DefaultConfig_def)
  have d: "distinct (map sh_ShardID (c_Shards two_shards))" using ok by (simp add: cluster_ok_def)
  have "entered ''t'' (sample_hash (virtualKey ''t'' 0)) (shard_ring sample_hash two_shards)"
    using entered_AddShard[of "add_shard sample_hash ?s (NewHashRing 150)" "''t''" sample_hash]
    by (simp add: shard_ring_fold two_shards_def add_shard_def SetShardNodes_def entered_def AddShard_simps NewHashRing_def)
  then have g: "GetShard sample_hash (virtualKey ''b'' 0) (shard_ring sample_hash two_shards) = Inr ''t''"
    by (intro entered_GetShard shard_ring_facts(1)[OF d]) (simp add: sample_hash_def virtualKey_0)
  have "fst (ShouldForwardRequest (e_hash ?env) (virtualKey ''b'' 0) False (w_node (nd_world nd))) \<and>
    (\<exists>w'. route_command ?env (Str ''GET'') (map Str [''GET'', virtualKey ''b'' 0]) fresh_connection
        ((nd_world nd)\<lparr>w_node := fold (health_callback (e_hash ?env) two_shards) [NodeFailed ''b'', NodeRecovered ''b''] (w_node (nd_world nd))\<rparr>) =
      Some (EncodeBulkString [] True, fresh_connection, w'))"
    by (rule recovery_hides_keys[OF ok mine nd(1), where sid = "''t''"])
      (use g nd(2,3) in \<open>simp_all add: sample_boot_def two_shards_def sample_node_def\<close>)
  then show ?thesis using nd(1) by (auto simp: virtualKey_0)
qed

end
