(* ===== verification/Lifecycle.thy ===== *)
theory Lifecycle
  imports Startup Server_Progress
begin

text \<open>
  A running server in simple mode: the accept loop, the handlers of the connections and the method
  \<open>Stop\<close> (\<open>internal/server/server.go\<close>), as a step relation over the state that the goroutines share.
  Every accepted request of a connection is one step, so the steps interleave the connections in any
  order. The theory shows that the state stays in order and that every handler can go on, and how a
  stop ends.
\<close>

section \<open>State\<close>

text \<open>The phases of \<open>Stop\<close>, each named after what has been done.\<close>

datatype phase = NotStopped | Signalled | Unlistened | Disconnected | Stopped

text \<open>
  \<open>r_handlers\<close> are the goroutines of the connections and \<open>r_loop\<close> that of the accept loop: these are
  what the wait group counts. \<open>r_accepted\<close> is a connection that \<open>Accept\<close> has returned and that is not
  yet registered. \<open>r_closed\<close> are the connections that \<open>Stop\<close> has closed.
\<close>

record 's running =
  r_server :: Server
  r_world :: "'s world"
  r_handlers :: "(conn, ConnectionState) gomap"
  r_accepted :: "conn option"
  r_loop :: bool
  r_phase :: phase
  r_closed :: "conn list"

definition accepting :: "Server \<Rightarrow> 's node \<Rightarrow> 's running" where
  "accepting s nd = \<lparr>r_server = s, r_world = nd_world nd, r_handlers = [], r_accepted = None, r_loop = True,
     r_phase = NotStopped, r_closed = []\<rparr>"

section \<open>Connections\<close>

definition register :: "conn \<Rightarrow> 's running \<Rightarrow> 's running" where
  "register con r =
     (let s = r_server r; w = r_world r
      in r\<lparr>r_accepted := None, r_server := s\<lparr>sv_activeConns := List.insert con (sv_activeConns s)\<rparr>,
           r_handlers := gset con fresh_connection (r_handlers r),
           r_world := w\<lparr>w_cache := record_metric IncrementActiveConnections (w_cache w)\<rparr>\<rparr>)"

text \<open>The handler returns: its deferred calls, and those of the goroutine around it.\<close>

definition leave :: "((string, bool) gomap \<Rightarrow> (string, bool) gomap) \<Rightarrow> conn \<Rightarrow> 's running \<Rightarrow> 's running option" where
  "leave pick con r = do {
     let w = r_world r;
     let w = w\<lparr>w_cache := record_metric DecrementActiveConnections (w_cache w)\<rparr>;
     let channelSet = (case gget (subscriptions (w_ps w)) con of None \<Rightarrow> [] | Some m \<Rightarrow> m);
     ps \<leftarrow> RemoveConnection (pick channelSet) con (w_ps w);
     let s = r_server r;
     Some (r\<lparr>r_world := w\<lparr>w_ps := ps\<rparr>, r_handlers := gdel con (r_handlers r),
             r_server := s\<lparr>sv_activeConns := removeAll con (sv_activeConns s)\<rparr>\<rparr>)
   }"

text \<open>The handler reads a command and answers it.\<close>

definition answer :: "'s env \<Rightarrow> conn \<Rightarrow> string list \<Rightarrow> 's running \<Rightarrow> 's running option" where
  "answer env con ws r = do {
     cs \<leftarrow> gget (r_handlers r) con;
     (go, out, cs, w) \<leftarrow> handle_turn env con (Slice (map Str ws)) cs (r_world r);
     Some (r\<lparr>r_world := w, r_handlers := gset con cs (r_handlers r)\<rparr>)
   }"

section \<open>Stopping\<close>

definition stop_signal :: "'s running \<Rightarrow> 's running" where
  "stop_signal r =
     (let s = r_server r in r\<lparr>r_server := s\<lparr>sv_follower := map_option follower_Stop (sv_follower s)\<rparr>, r_phase := Signalled\<rparr>)"

definition stop_listeners :: "'s running \<Rightarrow> 's running" where
  "stop_listeners r =
     (let s = r_server r; w = r_world r; ns = w_node w;
          ns = (if sv_leader s then ns\<lparr>ns_leader := map_option leader_Close (ns_leader ns)\<rparr> else ns)
      in r\<lparr>r_server := s\<lparr>sv_listener := False\<rparr>, r_world := w\<lparr>w_node := ns\<rparr>, r_phase := Unlistened\<rparr>)"

definition stop_connections :: "'s running \<Rightarrow> 's running" where
  "stop_connections r = r\<lparr>r_closed := sv_activeConns (r_server r), r_phase := Disconnected\<rparr>"

definition stop_log :: "(syscall \<Rightarrow> bool) \<Rightarrow> (AOF \<Rightarrow> AOF) \<Rightarrow> 's running \<Rightarrow> 's running" where
  "stop_log io others r =
     (let w = r_world r
      in r\<lparr>r_world := (if sv_aof (r_server r) then w\<lparr>w_aof := snd (Close io others (w_aof w))\<rparr> else w), r_phase := Stopped\<rparr>)"

section \<open>Steps\<close>

datatype label = Accepts conn | Registers conn | Answers conn "string list" | Leaves conn | Stops | Exits

text \<open>
  The accept loop leaves when the listener is closed after the context was cancelled. \<open>Stop\<close> waits
  until the wait group is down to zero before it closes the log.
\<close>

inductive step :: "'s running \<Rightarrow> label \<Rightarrow> 's running \<Rightarrow> bool" where
  accept: "r_loop r \<Longrightarrow> r_accepted r = None \<Longrightarrow> sv_listener (r_server r) \<Longrightarrow>
    gget (r_handlers r) con = None \<Longrightarrow> con \<notin> set (r_closed r) \<Longrightarrow> step r (Accepts con) (r\<lparr>r_accepted := Some con\<rparr>)"
| register: "r_accepted r = Some con \<Longrightarrow> step r (Registers con) (register con r)"
| answer: "answer env con ws r = Some r' \<Longrightarrow> ranges (e_subs env) \<Longrightarrow> step r (Answers con ws) r'"
| leave: "gget (r_handlers r) con \<noteq> None \<Longrightarrow> leave pick con r = Some r' \<Longrightarrow> ranges pick \<Longrightarrow> step r (Leaves con) r'"
| signal: "r_phase r = NotStopped \<Longrightarrow> step r Stops (stop_signal r)"
| listeners: "r_phase r = Signalled \<Longrightarrow> step r Stops (stop_listeners r)"
| connections: "r_phase r = Unlistened \<Longrightarrow> step r Stops (stop_connections r)"
| log: "r_phase r = Disconnected \<Longrightarrow> \<not> r_loop r \<Longrightarrow> r_handlers r = [] \<Longrightarrow> step r Stops (stop_log io others r)"
| exit: "r_loop r \<Longrightarrow> r_accepted r = None \<Longrightarrow> \<not> sv_listener (r_server r) \<Longrightarrow> r_phase r \<noteq> NotStopped \<Longrightarrow>
    step r Exits (r\<lparr>r_loop := False\<rparr>)"

inductive steps :: "'s running \<Rightarrow> label list \<Rightarrow> 's running \<Rightarrow> bool" where
  steps_Nil: "steps r [] r"
| steps_snoc: "steps r ls r' \<Longrightarrow> step r' l r'' \<Longrightarrow> steps r (ls @ [l]) r''"

text \<open>
  The commands that a handler is known to survive: no CLUSTER command, and no DBSIZE inside a
  transaction.
\<close>

fun survivable :: "'s running \<Rightarrow> label \<Rightarrow> bool" where
  "survivable r (Answers con ws) \<longleftrightarrow> ws \<noteq> [] \<and> hd ws \<noteq> ''CLUSTER'' \<and>
     (case gget (r_handlers r) con of None \<Rightarrow> True | Some cs \<Rightarrow> inTransaction cs \<longrightarrow> hd ws \<noteq> ''DBSIZE'')"
| "survivable r l \<longleftrightarrow> True"

inductive reachable :: "'s running \<Rightarrow> 's running \<Rightarrow> bool" where
  reach_start: "reachable r r"
| reach_step: "reachable r r' \<Longrightarrow> step r' l r'' \<Longrightarrow> survivable r' l \<Longrightarrow> reachable r r''"

section \<open>The invariant\<close>

definition server_ok :: "'s running \<Rightarrow> bool" where
  "server_ok r \<longleftrightarrow> world_ok (r_world r) \<and> gmap_ok (r_handlers r) \<and>
     (\<forall>con cs. gget (r_handlers r) con = Some cs \<longrightarrow> conn_ok cs) \<and>
     set (sv_activeConns (r_server r)) = dom (gget (r_handlers r)) \<and>
     (r_accepted r \<noteq> None \<longrightarrow> r_loop r) \<and> (sv_listener (r_server r) \<longleftrightarrow> r_phase r \<in> {NotStopped, Signalled}) \<and>
     (r_phase r = Stopped \<longrightarrow> \<not> r_loop r \<and> r_handlers r = [])"

lemma answer_ok:
  assumes "server_ok r" and "gget (r_handlers r) con = Some cs" and "survivable r (Answers con ws)" and "ranges (e_subs env)"
  shows "returns (answer env con ws r) server_ok"
proof -
  have "world_ok (r_world r)" "conn_ok cs" using assms(1,2) by (auto simp: server_ok_def)
  from handle_turn_total[OF this, of ws env con] assms(2-4) obtain go out cs' w' where
    "handle_turn env con (Slice (map Str ws)) cs (r_world r) = Some (go, out, cs', w')" "world_ok w'" "conn_ok cs'"
    by (auto simp: returns_def)
  then show ?thesis using assms(1,2) by (auto simp: answer_def returns_def server_ok_def gget_gset gmap_ok_gset)
qed

lemma leave_ok:
  assumes "server_ok r" and "gget (r_handlers r) con \<noteq> None" and "ranges pick"
  shows "returns (leave pick con r) (\<lambda>r'. server_ok r' \<and> r_handlers r' = gdel con (r_handlers r) \<and> r_loop r' = r_loop r \<and>
    r_phase r' = r_phase r \<and> sv_aof (r_server r') = sv_aof (r_server r) \<and> r_accepted r' = r_accepted r)"
proof -
  let ?ps = "w_ps (r_world r)"
  let ?m = "case gget (subscriptions ?ps) con of None \<Rightarrow> [] | Some m \<Rightarrow> m"
  have ps: "ps_ok ?ps" using assms(1) by (simp add: server_ok_def world_ok_def)
  then obtain ps' where "RemoveConnection (pick ?m) con ?ps = Some ps'" "ps_ok ps'"
    using RemoveConnection_total[OF ps, of con "pick ?m"] assms(3) ps_okD(2)[OF ps, unfolded sets_ok_def] by (auto simp: ranges_def)
  moreover have "r_phase r \<noteq> Stopped" using assms(1,2) by (auto simp: server_ok_def)
  ultimately show ?thesis using assms(1)
    by (auto simp: leave_def returns_def server_ok_def world_ok_def gget_gdel gmap_ok_gdel Let_def split: if_splits)
qed

lemma step_ok: "step r l r' \<Longrightarrow> survivable r l \<Longrightarrow> server_ok r \<Longrightarrow> server_ok r'"
proof (induction rule: step.induct)
  case (answer env con ws r r')
  then obtain cs where "gget (r_handlers r) con = Some cs" by (auto simp: answer_def bind_eq_Some_conv)
  with answer_ok[of r con cs ws env] answer show ?case by (simp add: returns_def)
next
  case (leave r con pick r')
  then show ?case using leave_ok[of r con pick] by (auto simp: returns_def)
qed (auto simp: server_ok_def register_def stop_signal_def stop_listeners_def stop_connections_def stop_log_def world_ok_def
    conn_ok_def fresh_connection_def gget_gset gmap_ok_gset Let_def split: if_splits)

lemma reachable_ok: "reachable r r' \<Longrightarrow> server_ok r \<Longrightarrow> server_ok r'"
  by (induction rule: reachable.induct) (auto intro: step_ok)

section \<open>Start\<close>

text \<open>Recovery, whatever it reads, leaves a cache in order.\<close>

lemma foreach_keeps: "(\<And>x s s'. x \<in> set xs \<Longrightarrow> P s \<Longrightarrow> f x s = Some s' \<Longrightarrow> P s') \<Longrightarrow> P s \<Longrightarrow> foreach f xs s = Some s' \<Longrightarrow> P s'"
  by (induction xs arbitrary: s) (auto simp: bind_eq_Some_conv)

lemma Set_keeps: "cache_ready c \<Longrightarrow> Set now k v ttl c = Some c' \<Longrightarrow> cache_ready c'"
  using Set_never_fails[of c now k v ttl] by auto

lemma Delete_keeps: "cache_ready c \<Longrightarrow> Delete k c = Some c' \<Longrightarrow> cache_ready c'"
  using Delete_ready[of c k] by auto

lemma RecoverAOF_keeps:
  assumes "RecoverAOF io clockS clockA a an sn c = Some (err, c')" and "cache_ready c"
  shows "cache_ready c'"
proof -
  have l: "cache_ready c'" if "foreach load_record xs c = Some c'" "cache_ready c" for xs c c'
    by (rule foreach_keeps[where P = cache_ready, OF _ that(2,1)]) (auto simp: load_record_def split: list.splits if_splits intro: Set_keeps)
  have o: "cache_ready c'" if "foreach apply_op xs c = Some c'" "cache_ready c" for xs c c'
    by (rule foreach_keeps[where P = cache_ready, OF _ that(2,1)]) (auto simp: apply_op_def split: if_splits intro: Set_keeps Delete_keeps)
  have s: "cache_ready c'" if "LoadSnapshot io clockS a c = Some (err, c')" "cache_ready c" for err c c'
    using that by (auto simp: LoadSnapshot_def bind_eq_Some_conv split: option.splits if_splits intro: l)
  obtain e1 c1 where c1: "(if SnapshotExists (disk a) sn then LoadSnapshot io clockS a c else Some (None, c)) = Some (e1, c1)"
    using assms(1) by (auto simp: RecoverAOF_def bind_eq_Some_conv simp del: not_None_eq)
  then have r: "cache_ready c1" using assms(2) s by (auto split: if_splits)
  consider "e1 \<noteq> None \<or> \<not> AofExists (disk a) an" | ops where "e1 = None" "AofExists (disk a) an" "ReadOperations io a = Some ops"
    using assms(1) c1 by (cases e1; cases "ReadOperations io a"; cases "AofExists (disk a) an") (auto simp: RecoverAOF_def)
  then show ?thesis
  proof cases
    case 1
    with assms(1) c1 r show ?thesis by (cases e1) (auto simp: RecoverAOF_def)
  next
    case 2
    with assms(1) c1 r show ?thesis by (cases ops) (auto simp: RecoverAOF_def bind_eq_Some_conv intro: o)
  qed
qed

lemma load_store_ready: "load_store b cfg = Some (Inr (c, a)) \<Longrightarrow> cache_ready c"
  by (auto simp: load_store_def Let_def bind_eq_Some_conv cache_ready_New split: sum.splits option.splits dest!: RecoverAOF_keeps)

lemma Start_store:
  assumes "Start b net s = Some (s', Listening nd)"
  shows "\<exists>c a. load_store b (sv_cfg s) = Some (Inr (c, a)) \<and> w_cache (nd_world nd) = c \<and> w_aof (nd_world nd) = a \<and>
    w_ps (nd_world nd) = NewPubSub \<and> sv_aof s' \<and> sv_listener s' \<and> sv_activeConns s' = sv_activeConns s"
proof -
  obtain store where l: "load_store b (sv_cfg s) = Some store" using assms by (cases "load_store b (sv_cfg s)") (auto simp: Start_def)
  then obtain c a where "store = Inr (c, a)" using assms by (cases store) (auto simp: Start_def Let_def)
  note start = assms[unfolded Start_def, simplified l this Let_def, simplified]
  show ?thesis
  proof (cases "c_Role (sv_cfg s) = ''leader''")
    case True
    then show ?thesis using l \<open>store = Inr (c, a)\<close> start by (cases "start_leader b (sv_cfg s)") (auto split: if_splits)
  next
    case False
    then show ?thesis using l \<open>store = Inr (c, a)\<close> start
      by (cases "NewFollower (c_LeaderAddr (sv_cfg s)) (b_uuid b) [] (c_Priority (sv_cfg s)) (follower_port (sv_cfg s)) (peer_addrs (sv_cfg s))")
        (auto split: if_splits)
  qed
qed

lemma accepting_ok:
  assumes "Start b net (New_server cfg) = Some (s, Listening nd)"
  shows "server_ok (accepting s nd)"
  using Start_store[OF assms] load_store_ready[of b cfg]
  by (auto simp: server_ok_def accepting_def world_ok_def ps_ok_New New_server_def)


definition quiet_boot :: boot where
  "quiet_boot = \<lparr>b_io = \<lambda>_. True, b_disk = [], b_clockS = \<lambda>_. 5, b_clockA = \<lambda>_. 5, b_now = \<lambda>_. 5, b_binds = \<lambda>_ _. True,
     b_dynamic = None, b_accepts = True, b_uuid = ''u'', b_hash = \<lambda>_. 0, b_metrics = []\<rparr>"

lemma quiet_Start: "\<exists>s nd. Start quiet_boot () (New_server DefaultConfig) = Some (s, Listening nd)"
proof -
  have "\<exists>c a. load_store quiet_boot DefaultConfig = Some (Inr (c, a))"
    by (simp add: load_store_def quiet_boot_def NewAOF_def RecoverAOF_def SnapshotExists_def AofExists_def open_create_def ReadOperations_def
        read_records_Nil file_text_def gget_gset DefaultConfig_def Let_def)
  then show ?thesis
    by (auto simp: Start_def New_server_def start_leader_def NewLeader_def quiet_boot_def DefaultConfig_def Let_def)
qed


section \<open>Stop\<close>

lemma steps_one: "step r l r' \<Longrightarrow> steps r [l] r'"
  using steps_snoc[OF steps_Nil, of r l r'] by simp

lemma steps_trans: "steps r' ls' r'' \<Longrightarrow> steps r ls r' \<Longrightarrow> steps r (ls @ ls') r''"
  by (induction rule: steps.induct) (auto simp flip: append_assoc intro: steps_snoc)

lemma Close_closes: "\<not> file_open (snd (Close io others a))"
  by (simp add: Close_def Let_def)

lemma all_leave:
  assumes "server_ok r" and "r_phase r = Disconnected" and "\<not> r_loop r" and "sv_aof (r_server r)"
  shows "\<exists>ls r'. steps r ls r' \<and> set ls \<subseteq> {Stops} \<union> Leaves ` dom (gget (r_handlers r)) \<and> r_phase r' = Stopped \<and> \<not> file_open (w_aof (r_world r'))"
  using assms
proof (induction "length (r_handlers r)" arbitrary: r rule: less_induct)
  case less
  show ?case
  proof (cases "r_handlers r")
    case Nil
    then have "step r Stops (stop_log (\<lambda>_. True) (\<lambda>a. a) r)" using less.prems by (intro step.log) simp_all
    moreover have "r_phase (stop_log (\<lambda>_. True) (\<lambda>a. a) r) = Stopped" "\<not> file_open (w_aof (r_world (stop_log (\<lambda>_. True) (\<lambda>a. a) r)))"
      using less.prems(4) Close_closes by (simp_all add: stop_log_def Let_def)
    ultimately show ?thesis using steps_one[of r Stops] by (intro exI[of _ "[Stops]"]) auto
  next
    case (Cons x hs)
    obtain con cs where x: "x = (con, cs)" by fastforce
    then have h: "gget (r_handlers r) con \<noteq> None" using Cons by simp
    obtain r1 where r1: "leave (\<lambda>m. m) con r = Some r1" "server_ok r1" "r_handlers r1 = gdel con (r_handlers r)" "\<not> r_loop r1"
      "r_phase r1 = Disconnected" "sv_aof (r_server r1)"
      using leave_ok[OF less.prems(1) h ranges_id] less.prems(2-4) by (auto simp: returns_def)
    have st: "steps r [Leaves con] r1" using h r1(1) by (intro steps_one step.leave) auto
    have "length (r_handlers r1) < length (r_handlers r)"
      using r1(3) Cons x by (simp add: le_imp_less_Suc AList.length_delete_le)
    from less.hyps[OF this r1(2,5,4,6)] obtain ls r' where ls: "steps r1 ls r'" "set ls \<subseteq> {Stops} \<union> Leaves ` dom (gget (r_handlers r1))"
      "r_phase r' = Stopped" "\<not> file_open (w_aof (r_world r'))" by blast
    have "dom (gget (r_handlers r1)) \<subseteq> dom (gget (r_handlers r))" using r1(3) by (auto simp: gget_gdel split: if_splits)
    from order_trans[OF ls(2) Un_mono[OF order_refl image_mono[OF this]]] h
    have "set ([Leaves con] @ ls) \<subseteq> {Stops} \<union> Leaves ` dom (gget (r_handlers r))" by (simp add: domIff image_eqI[where x = con])
    with steps_trans[OF ls(1) st] ls(3,4) show ?thesis by blast
  qed
qed

lemma reachable_aof: "reachable r r' \<Longrightarrow> sv_aof (r_server r') = sv_aof (r_server r)"
proof (induction rule: reachable.induct)
  case (reach_step r r' l r'')
  from this(2) have "sv_aof (r_server r'') = sv_aof (r_server r')"
    by cases (auto simp: register_def answer_def leave_def stop_signal_def stop_listeners_def stop_connections_def stop_log_def Let_def bind_eq_Some_conv)
  with reach_step.IH show ?case by simp
qed simp


text \<open>The state in which the stop of a server with one connection waits.\<close>

lemma one_connection:
  assumes "Start b net (New_server cfg) = Some (s, Listening nd)"
  shows "reachable (accepting s nd) (stop_connections (stop_listeners (stop_signal (register con ((accepting s nd)\<lparr>r_accepted := Some con\<rparr>)))))"
proof -
  let ?r0 = "accepting s nd"
  let ?r1 = "?r0\<lparr>r_accepted := Some con\<rparr>"
  have "sv_listener s" using Start_store[OF assms] by auto
  then have a: "step ?r0 (Accepts con) ?r1" by (intro step.accept) (simp_all add: accepting_def)
  have r: "step ?r1 (Registers con) (register con ?r1)" by (rule step.register) simp
  have p: "r_phase (register con ?r1) = NotStopped" by (simp add: register_def accepting_def Let_def)
  then have s: "step (register con ?r1) Stops (stop_signal (register con ?r1))" by (rule step.signal)
  have l: "step (stop_signal (register con ?r1)) Stops (stop_listeners (stop_signal (register con ?r1)))"
    by (rule step.listeners) (simp add: stop_signal_def Let_def)
  have c: "step (stop_listeners (stop_signal (register con ?r1))) Stops (stop_connections (stop_listeners (stop_signal (register con ?r1))))"
    by (rule step.connections) (simp add: stop_listeners_def Let_def)
  show ?thesis
    by (rule reach_step[OF reach_step[OF reach_step[OF reach_step[OF reach_step[OF reach_start a] r] s] l] c]) simp_all
qed


text \<open>A handler stays until its connection leaves, and with it the phase before the end.\<close>

lemma handler_stays:
  "steps r ls r' \<Longrightarrow> gget (r_handlers r) con \<noteq> None \<Longrightarrow> r_phase r \<noteq> Stopped \<Longrightarrow> Leaves con \<notin> set ls \<Longrightarrow>
   gget (r_handlers r') con \<noteq> None \<and> r_phase r' \<noteq> Stopped"
proof (induction rule: steps.induct)
  case (steps_snoc r ls r' l r'')
  then have h: "gget (r_handlers r') con \<noteq> None" "r_phase r' \<noteq> Stopped" "l \<noteq> Leaves con" by auto
  from \<open>step r' l r''\<close> h show ?case
    by cases (auto simp: register_def answer_def leave_def stop_signal_def stop_listeners_def stop_connections_def stop_log_def
        gget_gset gget_gdel Let_def bind_eq_Some_conv)
qed auto

text \<open>
  Stop can wait for a client. A connection that was accepted just before \<open>Stop\<close> closed the
  connections is registered after that: it is not among the closed ones, and it gets a handler. From
  then on \<open>Stop\<close> does not end before this client hangs up, whatever else happens.
\<close>

lemma stop_waits_for_client:
  assumes "Start b net (New_server cfg) = Some (s, Listening nd)"
  shows "\<exists>r. steps (accepting s nd) [Accepts con, Stops, Stops, Stops, Registers con] r \<and> r_phase r = Disconnected \<and>
    con \<notin> set (r_closed r) \<and> (\<forall>ls r'. steps r ls r' \<longrightarrow> Leaves con \<notin> set ls \<longrightarrow> r_phase r' \<noteq> Stopped)"
proof -
  let ?r0 = "accepting s nd"
  let ?r1 = "?r0\<lparr>r_accepted := Some con\<rparr>"
  let ?late = "register con (stop_connections (stop_listeners (stop_signal ?r1)))"
  have f: "sv_listener s" "sv_activeConns s = []" using Start_store[OF assms] by (auto simp: New_server_def)
  then have a: "step ?r0 (Accepts con) ?r1" by (intro step.accept) (simp_all add: accepting_def)
  have st: "step ?r1 Stops (stop_signal ?r1)" by (rule step.signal) (simp add: accepting_def)
  have l: "step (stop_signal ?r1) Stops (stop_listeners (stop_signal ?r1))" by (rule step.listeners) (simp add: stop_signal_def Let_def)
  have c: "step (stop_listeners (stop_signal ?r1)) Stops (stop_connections (stop_listeners (stop_signal ?r1)))"
    by (rule step.connections) (simp add: stop_listeners_def Let_def)
  have r: "step (stop_connections (stop_listeners (stop_signal ?r1))) (Registers con) ?late"
    by (rule step.register) (simp add: stop_connections_def stop_listeners_def stop_signal_def Let_def)
  have "steps ?r0 (((([] @ [Accepts con]) @ [Stops]) @ [Stops]) @ [Stops] @ [Registers con]) ?late"
    unfolding append_assoc[symmetric] by (rule steps_snoc[OF steps_snoc[OF steps_snoc[OF steps_snoc[OF steps_snoc[OF steps_Nil a] st] l] c] r])
  then have "steps ?r0 [Accepts con, Stops, Stops, Stops, Registers con] ?late" by simp
  moreover have "r_phase ?late = Disconnected" "con \<notin> set (r_closed ?late)" "gget (r_handlers ?late) con \<noteq> None"
    using f(2) by (simp_all add: stop_connections_def stop_listeners_def stop_signal_def register_def accepting_def gget_gset Let_def)
  moreover from this have "\<forall>ls r'. steps ?late ls r' \<longrightarrow> Leaves con \<notin> set ls \<longrightarrow> r_phase r' \<noteq> Stopped"
    using handler_stays[of ?late] by auto
  ultimately show ?thesis by blast
qed

lemma stop_waits_for_client_witness:
  "\<exists>s nd r. Start quiet_boot () (New_server DefaultConfig) = Some (s, Listening nd) \<and>
    steps (accepting s nd) [Accepts 1, Stops, Stops, Stops, Registers 1] r \<and> r_phase r = Disconnected \<and> 1 \<notin> set (r_closed r)"
proof -
  obtain s nd where nd: "Start quiet_boot () (New_server DefaultConfig) = Some (s, Listening nd)" using quiet_Start by blast
  with stop_waits_for_client[OF nd, of 1] show ?thesis by blast
qed

end
