(* ===== verification/Cli.thy ===== *)
theory Cli
  imports Cluster_Client
begin

text \<open>
  The command line client (\<open>cmd/client/main.go\<close>) on top of the client library. The bytes of the
  standard input are an argument, the bytes written to the standard output a result. The theory shows
  what a session against a server prints, and that the program never ends without a QUIT or EXIT.
\<close>

section \<open>Input\<close>

text \<open>
  The line that \<open>ReadString\<close> returns, with its end, and what is left. At the end of the input the
  error is ignored and the line is what was left.
\<close>

definition next_line :: "string \<Rightarrow> string \<times> string" where
  "next_line input =
     (case dropWhile (\<lambda>c. c \<noteq> CHR 0x0A) input of
        [] \<Rightarrow> (input, [])
      | lf # rest \<Rightarrow> (takeWhile (\<lambda>c. c \<noteq> CHR 0x0A) input @ [lf], rest))"

text \<open>
  \<open>strings.ToUpper\<close> as far as the comparison with the names of the commands can tell: outside ASCII
  the dotless i and the long s are the only characters with an upper-case form in ASCII.
\<close>

fun upper_command :: "string \<Rightarrow> string" where
  "upper_command (a # b # s) =
     (if a = CHR 0xC4 \<and> b = CHR 0xB1 then CHR ''I'' # upper_command s
      else if a = CHR 0xC5 \<and> b = CHR 0xBF then CHR ''S'' # upper_command s
      else ToUpper [a] @ upper_command (b # s))"
| "upper_command s = ToUpper s"

text \<open>\<open>Sscanf\<close> with \<open>%d\<close> into a variable that is 0: a sign and the digits that follow; an error leaves 0.\<close>

definition scan_d :: "string \<Rightarrow> int" where
  "scan_d s =
     (let sign = (case s of c # _ \<Rightarrow> if c = CHR ''+'' \<or> c = CHR ''-'' then [c] else [] | [] \<Rightarrow> []);
          ds = takeWhile (\<lambda>c. digit_val c \<noteq> None) (drop (length sign) s)
      in if ds = [] then 0 else case Atoi (sign @ ds) of None \<Rightarrow> 0 | Some n \<Rightarrow> n)"

definition println :: "string \<Rightarrow> string" where
  "println s = s @ [CHR 0x0A]"

section \<open>The program\<close>

definition print_error :: "gerror option \<Rightarrow> string" where
  "print_error err = println (case err of Some e \<Rightarrow> ''Error: '' @ error_text e | None \<Rightarrow> ''OK'')"

definition cli_turn :: "'s network \<Rightarrow> string \<Rightarrow> Client \<times> 's \<Rightarrow> (bool \<times> string \<times> Client \<times> 's) option" where
  "cli_turn net text x =
     (let parts = Fields (TrimSpace text)
      in if parts = [] then Some (True, [], x)
         else
           let cmd = upper_command (parts ! 0)
           in if cmd = ''SET''
              then if length parts < 3 then Some (True, println ''Usage: SET key value [ttl]'', x)
                   else do {
                     (err, x) \<leftarrow> (if length parts = 4 then client_SetWithTTL net (parts ! 1) (parts ! 2) (scan_d (parts ! 3)) x
                                 else client_Set net (parts ! 1) (parts ! 2) x);
                     Some (True, print_error err, x)
                   }
              else if cmd = ''GET''
              then if length parts \<noteq> 2 then Some (True, println ''Usage: GET key'', x)
                   else do {
                     (result, x) \<leftarrow> client_Get net (parts ! 1) x;
                     Some (True, println (case result of Inl err \<Rightarrow> ''Error: '' @ error_text err | Inr v \<Rightarrow> ''Value: '' @ v), x)
                   }
              else if cmd = ''DEL'' \<or> cmd = ''DELETE''
              then if length parts \<noteq> 2 then Some (True, println ''Usage: DEL key'', x)
                   else do { (err, x) \<leftarrow> client_Delete net (parts ! 1) x; Some (True, print_error err, x) }
              else if cmd = ''QUIT'' \<or> cmd = ''EXIT'' then Some (False, println ''Goodbye!'', x)
              else Some (True, println ''Unknown command. Available SET, GET, DEL, QUIT'', x))"

partial_function (option) cli_loop :: "'s network \<Rightarrow> string \<Rightarrow> Client \<times> 's \<Rightarrow> (string \<times> Client \<times> 's) option" where
  "cli_loop net input x = do {
     let (text, rest) = next_line input;
     (go, out, x) \<leftarrow> cli_turn net text x;
     if go then do { (out', x) \<leftarrow> cli_loop net rest x; Some (''You:'' @ out @ out', x) }
     else Some (''You:'' @ out, x)
   }"

text \<open>When the connection fails, the program ends with an error message instead.\<close>

definition cli_main :: "'s network \<Rightarrow> string \<Rightarrow> 's \<Rightarrow> ((gerror + string) \<times> 's) option" where
  "cli_main net input s =
     (case NewClient net ''localhost:6379'' s of
        (Inl err, s) \<Rightarrow> Some (Inl err, s)
      | (Inr conn, s) \<Rightarrow> do {
          (out, conn, s) \<leftarrow> cli_loop net input (conn, s);
          Some (Inr (println ''Connected to server.'' @ println ''Commands: SET key value [ttl], GET key, DEL key'' @ out), s)
        })"

section \<open>The program needs QUIT\<close>

definition quits :: "string \<Rightarrow> bool" where
  "quits line \<longleftrightarrow> (case Fields (TrimSpace line) of [] \<Rightarrow> False | w # _ \<Rightarrow> upper_command w \<in> {''QUIT'', ''EXIT''})"

inductive has_quit :: "string \<Rightarrow> bool" where
  now: "quits (fst (next_line input)) \<Longrightarrow> has_quit input"
| later: "has_quit (snd (next_line input)) \<Longrightarrow> has_quit input"

lemma cli_turn_ends: "cli_turn net text x = Some (False, out, x') \<Longrightarrow> quits text"
  by (cases "Fields (TrimSpace text)")
    (auto simp: cli_turn_def quits_def Let_def bind_eq_Some_conv split: if_splits)

text \<open>
  The end of the input does not end the program: \<open>cli_loop\<close> returns only if one of the lines is a QUIT
  or an EXIT. Otherwise it goes on reading empty lines for ever.
\<close>

lemma cli_needs_quit:
  assumes "cli_loop net input x = Some y" shows "has_quit input"
proof (rule cli_loop.raw_induct[of "\<lambda>net input x y. has_quit input" "((net, input), x)" y, unfolded prod.case])
  show "cli_loop net input x = Some y" by (rule assms)
  fix f :: "'a network \<Rightarrow> string \<Rightarrow> Client \<times> 'a \<Rightarrow> (string \<times> Client \<times> 'a) option" and net input x z
  assume IH: "\<And>net input x y. f net input x = Some y \<Longrightarrow> has_quit input"
    and f: "(let (text, rest) = next_line input
      in cli_turn net text x \<bind> (\<lambda>(go, out, x).
        if go then f net rest x \<bind> (\<lambda>(out', x). Some (''You:'' @ out @ out', x)) else Some (''You:'' @ out, x))) = Some z"
  obtain l rest where n: "next_line input = (l, rest)" by fastforce
  with f obtain go out x1 where t: "cli_turn net l x = Some (go, out, x1)" by (auto simp: bind_eq_Some_conv)
  show "has_quit input"
  proof (cases go)
    case True
    with f t obtain z where "f net rest x1 = Some z" by (auto simp: n bind_eq_Some_conv)
    then have "has_quit rest" by (rule IH)
    with n show ?thesis by (auto intro: later)
  next
    case False
    with t have "cli_turn net l x = Some (False, out, x1)" by simp
    then have "quits l" by (rule cli_turn_ends)
    with n show ?thesis by (auto intro: now)
  qed
qed

text \<open>Without any line the program does not return.\<close>

lemma cli_spins: "cli_loop net [] x = None"
proof -
  have "trim_front ps [] = []" for ps by (subst trim_front.simps) simp
  moreover have "fields_from [] [] = []" by (subst fields_from.simps) simp
  ultimately have empty: "\<not> quits []" "next_line [] = ([], [])" by (simp_all add: quits_def next_line_def TrimSpace_def Fields_def)
  have "has_quit input \<Longrightarrow> input \<noteq> []" for input by (induction rule: has_quit.induct) (use empty in auto)
  then show ?thesis using cli_needs_quit[of net "[]" x] by (cases "cli_loop net [] x") auto
qed

section \<open>Sessions\<close>

fun unwords :: "string list \<Rightarrow> string" where
  "unwords [] = []"
| "unwords [w] = w"
| "unwords (w # ws) = w @ '' '' @ unwords ws"

lemma Fields_unwords: "list_all word_ok ws \<Longrightarrow> Fields (unwords ws) = ws"
proof -
  have "list_all word_ok ws \<Longrightarrow> fields_from [] (unwords ws) = ws"
  proof (induction ws rule: unwords.induct)
    case 1
    show ?case by (subst fields_from.simps) simp
  next
    case (2 w)
    then have "fields_from w [] = [w]" by (subst fields_from.simps) (simp add: word_ok_def)
    with 2 fields_word[of w "[]" "[]"] show ?case by (simp add: word_ok_def)
  next
    case (3 w v ws)
    then have "fields_from w (CHR '' '' # unwords (v # ws)) = w # fields_from [] (unwords (v # ws))"
      by (subst fields_from.simps) (simp add: word_ok_def)
    with 3 fields_word[of w "[]" "CHR '' '' # unwords (v # ws)"] show ?case by (simp add: word_ok_def)
  qed
  then show "list_all word_ok ws \<Longrightarrow> Fields (unwords ws) = ws" by (simp add: Fields_def)
qed

lemma word_facts: "word_ok w \<Longrightarrow> w \<noteq> [] \<and> visible (hd w) \<and> visible (last w) \<and> CHR 0x0A \<notin> set w"
proof -
  assume "word_ok w"
  then have "w \<noteq> []" "\<forall>c \<in> set w. visible c" by (simp_all add: word_ok_def list_all_iff)
  moreover have "\<not> visible (CHR 0x0A)" by (simp add: visible_def)
  ultimately show ?thesis using last_in_set[of w] hd_in_set[of w] by blast
qed

lemma unwords_facts:
  assumes "list_all word_ok ws" and "ws \<noteq> []"
  shows "unwords ws \<noteq> [] \<and> visible (hd (unwords ws)) \<and> visible (last (unwords ws)) \<and> CHR 0x0A \<notin> set (unwords ws)"
  using assms by (induction ws rule: unwords.induct) (simp_all add: word_facts)

lemma next_line_append: "CHR 0x0A \<notin> set l \<Longrightarrow> next_line (l @ CHR 0x0A # rest) = (l @ [CHR 0x0A], rest)"
proof -
  assume "CHR 0x0A \<notin> set l"
  then have "\<And>x. x \<in> set l \<Longrightarrow> x \<noteq> CHR 0x0A" by auto
  then have "dropWhile (\<lambda>c. c \<noteq> CHR 0x0A) (l @ CHR 0x0A # rest) = CHR 0x0A # rest"
    "takeWhile (\<lambda>c. c \<noteq> CHR 0x0A) (l @ CHR 0x0A # rest) = l"
    by (simp_all add: dropWhile_append2 takeWhile_append2)
  then show ?thesis by (simp add: next_line_def)
qed

text \<open>The words of a line, as the program sees them.\<close>

lemma line_parts:
  assumes "list_all word_ok ws" and "ws \<noteq> []"
  shows "Fields (TrimSpace (unwords ws @ [CHR 0x0A])) = ws"
  using unwords_facts[OF assms] TrimSpace_line_end[of "unwords ws"] Fields_unwords[OF assms(1)] by simp

fun printed :: "request \<Rightarrow> (string \<Rightarrow> string option) \<Rightarrow> string" where
  "printed (RGet k) m = ''You:'' @ println (''Value: '' @ (case m k of None \<Rightarrow> [] | Some v \<Rightarrow> v))"
| "printed _ m = ''You:'' @ println ''OK''"

fun session :: "request list \<Rightarrow> (string \<Rightarrow> string option) \<Rightarrow> string" where
  "session [] m = ''You:'' @ println ''Goodbye!''"
| "session (r # rs) m = printed r m @ session rs (map_step r m)"

definition typed :: "request list \<Rightarrow> string" where
  "typed rs = concat (map (\<lambda>r. unwords (words_of r) @ [CHR 0x0A]) rs) @ ''quit'' @ [CHR 0x0A]"

text \<open>A line for a request does what the call of the library does.\<close>

lemma cli_turn_request:
  assumes "list_all word_ok (words_of r)" and "client_request net r x = Some (Inr v, x')"
    and "v = (case r of RGet k \<Rightarrow> reply_text r m | _ \<Rightarrow> [])"
  shows "cli_turn net (unwords (words_of r) @ [CHR 0x0A]) x = Some (True, drop 4 (printed r m), x')"
proof -
  have "words_of r \<noteq> []" by (cases r) simp_all
  then have "Fields (TrimSpace (unwords (words_of r) @ [CHR 0x0A])) = words_of r" using line_parts assms(1) by blast
  moreover have "upper_command ''SET'' = ''SET''" "upper_command ''GET'' = ''GET''" "upper_command ''DEL'' = ''DEL''" by code_simp+
  ultimately show ?thesis using assms(2,3)
    by (cases r) (auto simp: cli_turn_def print_error_def bind_eq_Some_conv simp del: upper_command.simps split: option.splits)
qed

lemma cli_loop_served:
  assumes "serving_map envs K s" and "key_of ` set rs \<subseteq> K" and "list_all value_ok rs" and "idle addr c"
    and "\<forall>k v. stored s k = Some v \<longrightarrow> \<not> IsRedirect v" and "\<forall>r \<in> set rs. list_all word_ok (words_of r)"
  shows "\<exists>s'. cli_loop (served_by envs con) (typed rs) (c, s) = Some (session rs (stored s), c, s') \<and>
    stored s' = fold map_step rs (stored s)"
  using assms
proof (induction rs arbitrary: s)
  case Nil
  have "upper_command ''quit'' = ''QUIT''" by code_simp
  then have "cli_turn net (''quit'' @ [CHR 0x0A]) x = Some (False, println ''Goodbye!'', x)" for net :: "served network" and x
    using line_parts[of "[''quit'']"] by (simp add: cli_turn_def word_ok_def visible_def del: upper_command.simps)
  then show ?case using next_line_append[of "''quit''" "[]"] by (subst cli_loop.simps) (simp add: typed_def)
next
  case (Cons r rs)
  let ?net = "served_by envs con" and ?l = "unwords (words_of r)"
  have r: "key_of r \<in> K" "value_ok r" "list_all word_ok (words_of r)" using Cons.prems by auto
  obtain s1 where s1: "client_request ?net r (c, s) = Some (Inr (case r of RGet k \<Rightarrow> reply_text r (stored s) | _ \<Rightarrow> []), c, s1)"
    "stored s1 = map_step r (stored s)" "serving_map envs K s1"
    using served.client_request_answers[OF Cons.prems(1) r(1,2) Cons.prems(4,5)] by blast
  have "\<forall>k v. stored s1 k = Some v \<longrightarrow> \<not> IsRedirect v"
    using r(2) Cons.prems(5) unfolding s1(2) by (cases r) (auto simp: value_ok_def)
  then obtain s' where s': "cli_loop ?net (typed rs) (c, s1) = Some (session rs (stored s1), c, s')" "stored s' = fold map_step rs (stored s1)"
    using Cons.IH[OF s1(3)] Cons.prems by auto
  have "words_of r \<noteq> []" by (cases r) simp_all
  then have n: "next_line (typed (r # rs)) = (?l @ [CHR 0x0A], typed rs)" using unwords_facts[OF r(3)] by (simp add: next_line_append typed_def)
  have p: "''You:'' @ drop 4 (printed r m) @ out = printed r m @ out" for m out by (cases r) simp_all
  have t: "cli_turn ?net (?l @ [CHR 0x0A]) (c, s) = Some (True, drop 4 (printed r (stored s)), c, s1)" by (rule cli_turn_request[OF r(3) s1(1) refl])
  have "cli_loop ?net (typed (r # rs)) (c, s) = Some (printed r (stored s) @ session rs (stored s1), c, s')"
    by (subst cli_loop.simps) (simp only: n t s'(1) p Let_def case_prod_conv bind.bind_lunit if_True)
  with s'(2) s1(2) show ?case by simp
qed

text \<open>
  C13: A session of the command line client. When the program connects to a node and the lines of the
  input set, read and delete keys and end with quit, it returns: it prints OK after every set and
  delete and the value last set after every read, and the node then holds the map that the lines
  describe. The keys and values are words of visible ASCII characters that fit into the cache, and no
  value looks like a redirect.
\<close>

theorem cli_session:
  assumes "serving_map envs K s" and "key_of ` set rs \<subseteq> K" and "list_all value_ok rs"
    and "\<forall>k v. stored s k = Some v \<longrightarrow> \<not> IsRedirect v" and "\<forall>r \<in> set rs. list_all word_ok (words_of r)"
  shows "\<exists>s'. cli_main (served_by envs con) (typed rs) s =
      Some (Inr (println ''Connected to server.'' @ println ''Commands: SET key value [ttl], GET key, DEL key'' @ session rs (stored s)), s') \<and>
    stored s' = fold map_step rs (stored s)"
proof -
  obtain i cs w where x: "s = (i, cs, w)" by (cases s)
  let ?s = "(i, fresh_connection, w)" and ?addr = "''localhost:6379''"
  have s: "serving_map envs K ?s" "stored ?s = stored s"
    using assms(1) by (auto simp: serving_map_def serving_def stored_def x plain_def fresh_connection_def)
  have "NewClient (served_by envs con) ?addr s = (Inr (connected ?addr), ?s)" by (simp add: NewClient_def served_by_def x)
  moreover have "idle ?addr (connected ?addr)" by (simp add: idle_def connected_def)
  then obtain s' where "cli_loop (served_by envs con) (typed rs) (connected ?addr, ?s) = Some (session rs (stored s), connected ?addr, s')"
    "stored s' = fold map_step rs (stored s)"
    using cli_loop_served[OF s(1) assms(2,3)] assms(4,5) s(2) by metis
  ultimately show ?thesis by (simp add: cli_main_def)
qed

theorem cli_session_witness:
  "\<exists>s'. cli_main (served_by (\<lambda>_. sample_env) 1) (typed [RSet ''k'' ''v'', RGet ''k'', RDel ''k'', RGet ''k''])
      (0, fresh_connection, sample_world (NewNodeState ''leader'' None [])) =
      Some (Inr (println ''Connected to server.'' @ println ''Commands: SET key value [ttl], GET key, DEL key'' @
        println ''You:OK'' @ println ''You:Value: v'' @ println ''You:OK'' @ println ''You:Value: '' @ println ''You:Goodbye!''), s') \<and>
    stored s' = Map.empty"
proof -
  let ?s = "(0, fresh_connection, sample_world (NewNodeState ''leader'' None []))" and ?rs = "[RSet ''k'' ''v'', RGet ''k'', RDel ''k'', RGet ''k'']"
  have st: "stored ?s = Map.empty" by (rule stored_holds) (simp add: sample_world_def)
  have "serving_map (\<lambda>_. sample_env) {''k''} ?s"
    unfolding serving_map_def st
    by (auto simp: serving_def sample_world_def cache_ready_New plain_def fresh_connection_def serves_single NewNodeState_def cache_room_def)
  then have "\<exists>s'. cli_main (served_by (\<lambda>_. sample_env) 1) (typed ?rs) ?s =
      Some (Inr (println ''Connected to server.'' @ println ''Commands: SET key value [ttl], GET key, DEL key'' @ session ?rs (stored ?s)), s') \<and>
    stored s' = fold map_step ?rs (stored ?s)"
    by (rule cli_session) (simp_all add: st value_ok_def request_ok_def small_def IsRedirect_def HasPrefix_def word_ok_def visible_def)
  then show ?thesis unfolding st by (simp add: println_def)
qed

end
