(* ===== verification/Spec2Isabelle.thy ===== *)
theory Spec2Isabelle
  imports Cache_Laws Metrics Migration PubSub Health Replication_Laws Startup_Laws Lifecycle Cli
begin

text \<open>
  GoCache, a distributed in-memory key-value cache written in Go: verification development.

  \<^bold>\<open>The program.\<close> A node keeps string values under string keys in a cache with a bounded number of
  items, expiry times and LRU eviction. Clients talk to it in the RESP protocol over TCP. Every write is
  appended to a log, which a restart replays; snapshots shorten the log. A leader streams its writes to
  followers, and a follower that loses its leader holds an election. In cluster mode a consistent hash
  ring assigns the keys to shards; a node redirects requests for keys of other shards, watches the
  health of the other nodes, and moves keys when nodes join or leave. There are a client library, a
  cluster client with its own ring, and a command line client.

  \<^bold>\<open>Conventions.\<close> A Go function becomes a HOL function that takes the state and returns the new state. An
  \<open>option\<close> result is the run of the function: \<open>None\<close> is a panic, or a wait that never ends. Go errors are
  values of \<open>gerror\<close>: \<open>gerror option\<close>, or \<open>gerror + 'a\<close> beside a result. Strings are lists of bytes, \<open>int\<close>
  and \<open>int64\<close> are integers with the wrap-around written out (\<open>i64\<close>, \<open>i32\<close>), the hash values are
  \<open>32 word\<close>. A Go map is an association list with unique keys (\<open>gomap\<close>, \<open>gmap_ok\<close>); a loop over a map takes
  the order as an argument, and the theorems hold for every order (\<open>is_range\<close>, \<open>ranges\<close>). Times and
  durations are nanoseconds. The clock, the success of each system call, the network and the other
  clients are arguments, so that theorems speak about every run. A critical section is one step; what
  goroutines may do between two of them is an argument or an interleaving of steps.

  \<^bold>\<open>Library.\<close>
  \<^item> \<open>Prelude\<close>, \<open>Go_Lib\<close>: run time and standard library (maps, errors, interface values, \<open>strconv\<close>,
    \<open>strings\<close>, \<open>time\<close>), the locale \<open>counted_map\<close> of finite maps with a size.
  \<^item> \<open>Replay\<close>: stores that are rebuilt from a list of operations (locale \<open>op_store\<close>), interpreted by the
    replay of the log and by the stream of a follower.

  \<^bold>\<open>Node.\<close>
  \<^item> \<open>Lru\<close> (\<open>internal/lru/lru.go\<close>): the doubly linked list with its nodes in a store. The pointer operations
    are the list operations (locale \<open>recency_list\<close>).
  \<^item> \<open>Cache\<close>, \<open>Cache_Laws\<close> (\<open>internal/cache\<close>): the cache refines an abstract LRU cache with expiry; its
    capacity, its memory account, the guarantee of the replacement policy, and the enumeration by hash.
  \<^item> \<open>Metrics\<close> (\<open>internal/metrics/metrics.go\<close>): the counters and gauges agree with the cache.
  \<^item> \<open>Resp\<close>, \<open>Resp_Stream\<close> (\<open>pkg/protocol\<close>): parser and encoders, round trip, the inputs on which the parser
    panics, and streams that end inside a value.
  \<^item> \<open>Persistence\<close>, \<open>Persistence_Laws\<close> (\<open>internal/persistence\<close>): log, snapshot and recovery on a file system
    with crashes and failing calls. A torn log gives a prefix, acknowledged writes survive under the
    policy that syncs every append, a swap of files happens completely or not at all.
  \<^item> \<open>PubSub\<close> (\<open>internal/pubsub/pubsub.go\<close>): the two maps hold one relation, no operation panics, delivery.
  \<^item> \<open>Config\<close> (\<open>internal/config/config.go\<close>): precedence of flags, file and defaults; nodes and shards.

  \<^bold>\<open>Cluster.\<close>
  \<^item> \<open>Sha256\<close>, \<open>Hash_Ring\<close> (\<open>internal/cluster/hash.go\<close>): lookup by binary search is the clockwise successor;
    joins and departures move only the keys they have to (locale \<open>placement\<close>).
  \<^item> \<open>Migration\<close> (\<open>migration.go\<close>): the tasks of a join are exactly the hashes that change their owner.
  \<^item> \<open>Key_Transfer\<close> (\<open>transfer.go\<close>, \<open>migrator.go\<close>): the locale \<open>key_node\<close> states what a transfer relies on at
    the other end. \<open>Cluster_Laws\<close> interprets it by the request handler: a migration loses no key.
  \<^item> \<open>Health\<close> (\<open>health.go\<close>): the status of a node follows from the history of its probes.
  \<^item> \<open>Repl_Protocol\<close>, \<open>Replication\<close>, \<open>Replication_Laws\<close> (\<open>internal/replication\<close>): messages, leader and follower.
    Streams converge, full synchronisation copies, elections are safe and take place.

  \<^bold>\<open>Server.\<close>
  \<^item> \<open>Server_State\<close> (\<open>internal/server/state.go\<close>): routing, and the type \<open>world\<close> of the objects that the
    connections of a node share; \<open>env\<close> is what a command finds outside (clock, system calls, network).
  \<^item> \<open>Cluster_Commands\<close>, \<open>Handler\<close> (\<open>cluster_commands.go\<close>, \<open>handler.go\<close>): every command, transactions, and the loop
    over the bytes of a connection.
  \<^item> \<open>Handler_Laws\<close>: a connection gets the bytes that a finite map answers, and a replica equals the leader.
    \<open>Transactions\<close>: EXEC does what the commands do. \<open>Server_Progress\<close>: the handler answers everything.
  \<^item> \<open>Startup\<close>, \<open>Startup_Laws\<close> (\<open>server.go\<close>, \<open>cmd/server/main.go\<close>, \<open>internal/logger/logger.go\<close>): a start in each
    mode. A server that is started again after a crash serves what it held, and the nodes of a started
    cluster agree on the owner of every key.
  \<^item> \<open>Lifecycle\<close> (\<open>server.go\<close>): accept loop, connections and \<open>Stop\<close> as a step relation, with the invariant
    \<open>server_ok\<close> for every interleaving, and the end of a stop.

  \<^bold>\<open>Clients.\<close>
  \<^item> \<open>Client_Lib\<close>, \<open>Client_Laws\<close> (\<open>pkg/client/client.go\<close>): the locale \<open>map_server\<close> states what the library relies
    on; the request handler keeps it, so the calls behave as those of a map.
  \<^item> \<open>Cluster_Client\<close> (\<open>cluster_client.go\<close>): discovery, ring and commands.
  \<^item> \<open>Cli\<close> (\<open>cmd/client/main.go\<close>): a session prints what a map answers.

  Lemmas such as \<open>dbsize_in_exec_deadlocks\<close>,
  \<open>snapshot_loses_append\<close>, \<open>added_node_hides_keys\<close>, \<open>recovery_hides_keys\<close>, \<open>stop_waits_for_client\<close> and
  \<open>cli_needs_quit\<close> state where the code does not do what it means to.

  \<^bold>\<open>Bounds.\<close> There is no fuel. The parser and the loop over a connection consume their input, so they are
  total functions. The command line client and the retries of the cluster client may run for ever;
  they are \<open>partial_function\<close>s, and what is shown of them includes when they return.
  The redirects of a client are bounded by the constant of the code, its retries as well. \<open>small\<close> limits
  strings to \<open>2 ^ 48\<close> bytes, which the address space does, so that lengths fit the \<open>int\<close> of
  Go. Rings have the 150 positions per shard of the code. Counting in floating-point numbers is exact
  below \<open>2 ^ 53\<close>.

  \<^bold>\<open>Parameters.\<close> YAML decoding, the operating system (files, sockets, clocks, random identifiers) and the
  Prometheus client library are arguments, with the laws that a theorem needs as hypotheses
  (\<open>prom_laws\<close>, \<open>boots\<close>). Where a theorem does not depend on it, the hash function is arbitrary.

  \<^bold>\<open>Not modelled.\<close> The HTTP server for the metrics (\<open>cmd/server/metrics_server.go\<close>) only passes requests
  to the Prometheus library. The text of log messages has no effect. Races inside a critical section do
  not exist; data races outside the locks are not represented, only interleavings of steps. The
  programs under \<open>demo\<close> and \<open>tests\<close> and the Python client are users of the parts above.
\<close>

end
